(* ===== verification/Faux_Prelude.thy ===== *)
theory Faux_Prelude
  imports Main "HOL-Library.Word" "HOL-Library.Multiset" "HOL-Library.Monad_Syntax"
begin

text \<open>
  Shared vocabulary of the development: machine types, the status codes of
  \<open>sys/server/include/server.h\<close>, the build-time configuration of \<open>Config.in\<close>, the generic
  lemmas the component theories use, and the interfaces (locales) several components meet
  through.

  Conventions.  A C or C++ call that may abort the process (a failed \<^verbatim>\<open>assert\<close>, an
  \<^verbatim>\<open>error()\<close>) or that leaves defined behaviour (an access outside an array, a null or
  dangling pointer, a wrong \<^verbatim>\<open>static_cast\<close>) returns an \<open>option\<close>: \<^term>\<open>None\<close> is that end
  of the process, and every early return of the source is a value.  Unsigned machine
  integers that only index or count are \<open>nat\<close> with the wrap-around written out by
  \<open>size_t\<close>; the ones whose bits matter are words.
\<close>

type_synonym u8 = "8 word"
type_synonym u16 = "16 word"
type_synonym u32 = "32 word"
type_synonym u64 = "64 word"

named_theorems faux_defs \<open>definitions a component's proofs unfold together\<close>

subsection \<open>Machine arithmetic on naturals\<close>

abbreviation size_t :: "nat \<Rightarrow> nat" where
  "size_t n \<equiv> n mod 2 ^ 64"

abbreviation SIZE_MAX :: nat where
  "SIZE_MAX \<equiv> 2 ^ 64 - 1"

definition size_dec :: "nat \<Rightarrow> nat" where
  "size_dec n = size_t (n + SIZE_MAX)"

lemma size_dec_pos [simp]: "0 < n \<Longrightarrow> n < 2 ^ 64 \<Longrightarrow> size_dec n = n - 1"
  by (cases n) (simp_all add: size_dec_def)

lemma size_dec_0: "size_dec 0 = SIZE_MAX"
  by (simp add: size_dec_def)

definition size_sub :: "nat \<Rightarrow> nat \<Rightarrow> nat" where
  "size_sub a b = size_t (a + (2 ^ 64 - b mod 2 ^ 64))"

lemma size_sub_le [simp]:
  assumes "b \<le> a" and "a < 2 ^ 64"
  shows "size_sub a b = a - b"
proof -
  have "b mod 2 ^ 64 = b" using assms by simp
  then have "a + (2 ^ 64 - b mod 2 ^ 64) = (a - b) + 2 ^ 64"
    using assms by simp
  then have "size_sub a b = ((a - b) + 2 ^ 64) mod 2 ^ 64"
    by (simp only: size_sub_def)
  also have "\<dots> = (a - b) mod 2 ^ 64" by (rule mod_add_self2)
  also have "\<dots> = a - b" using assms by (intro mod_less) simp
  finally show ?thesis .
qed

lemma size_sub_wrap:
  assumes "a < b" and "b < 2 ^ 64"
  shows "size_sub a b = 2 ^ 64 - (b - a)"
  using assms by (simp add: size_sub_def)

text \<open>Conversion of a wider integer to a 32-bit \<^verbatim>\<open>int\<close>, and C's division, which truncates.\<close>

definition c_int :: "int \<Rightarrow> int" where
  "c_int z = (z + 2 ^ 31) mod 2 ^ 32 - 2 ^ 31"

definition c_div :: "int \<Rightarrow> int \<Rightarrow> int" where
  "c_div a b = sgn a * sgn b * (\<bar>a\<bar> div \<bar>b\<bar>)"

lemma c_int_id [simp]: "- (2 ^ 31) \<le> z \<Longrightarrow> z < 2 ^ 31 \<Longrightarrow> c_int z = z"
  by (simp add: c_int_def)

lemma c_div_nonneg [simp]: "0 \<le> a \<Longrightarrow> 0 < b \<Longrightarrow> c_div a b = a div b"
  by (cases "a = 0") (simp_all add: c_div_def)

subsection \<open>Status codes\<close>

text \<open>The enumeration of \<open>sys/server/include/server.h\<close>: zero or a negated \<open>errno\<close>.\<close>

definition OK :: int where "OK = 0"
definition NOT_FOUND :: int where "NOT_FOUND = - 2"
definition NO_MEMORY :: int where "NO_MEMORY = - 12"
definition EXIST :: int where "EXIST = - 17"
definition NOT_DIR :: int where "NOT_DIR = - 20"
definition ISDIR :: int where "ISDIR = - 21"
definition INVALID :: int where "INVALID = - 22"
definition NO_SPACE :: int where "NO_SPACE = - 28"
definition NOT_EMPTY :: int where "NOT_EMPTY = - 39"
definition ISSYM :: int where "ISSYM = NOT_EMPTY"
definition EAGAIN :: int where "EAGAIN = 11"
definition EBADF :: int where "EBADF = 9"
definition ENOMEM :: int where "ENOMEM = 12"

lemmas status_defs [faux_defs] =
  OK_def NOT_FOUND_def NO_MEMORY_def EXIST_def NOT_DIR_def ISDIR_def INVALID_def
  NO_SPACE_def NOT_EMPTY_def ISSYM_def EAGAIN_def EBADF_def ENOMEM_def

subsection \<open>The machine's shape\<close>

text \<open>The numbers of sockets and cores of \<open>common/include/param.h\<close>.\<close>

definition SOCK_NUM :: nat where
  "SOCK_NUM = 1"

definition CORE_NUM :: nat where
  "CORE_NUM = 6"

subsection \<open>Options and lists\<close>

lemma option_eqI: "(\<And>v. x = Some v \<longleftrightarrow> y = Some v) \<Longrightarrow> x = y"
  by (cases x; cases y) auto

lemma nth_list_update_if:
  "i < length xs \<Longrightarrow> xs[j := v] ! i = (if i = j then v else xs ! i)"
  by simp

lemma map_nth_upt_eq: "map ((!) xs) [0..<length xs] = xs"
  by (rule map_nth)

lemma set_drop_take_disjoint: "distinct xs \<Longrightarrow> set (take n xs) \<inter> set (drop n xs) = {}"
  by (rule set_take_disj_set_drop_if_distinct) simp_all

lemma mset_take_drop: "mset (take n xs) + mset (drop n xs) = mset xs"
  by (metis append_take_drop_id mset_append)

lemma count_list_update:
  "i < length xs \<Longrightarrow> count_list (xs[i := v]) x + (if xs ! i = x then 1 else 0) =
     count_list xs x + (if v = x then 1 else 0)"
proof (induction xs arbitrary: i)
  case (Cons y ys)
  show ?case
  proof (cases i)
    case (Suc j)
    with Cons.IH [of j] Cons.prems show ?thesis by (auto split: if_splits)
  qed simp
qed simp

lemma count_list_pos: "i < length xs \<Longrightarrow> xs ! i = x \<Longrightarrow> 0 < count_list xs x"
  by (metis count_list_0_iff gr0I nth_mem)

subsection \<open>Interface: a bounded first-in first-out queue\<close>

text \<open>
  The contract of the fixed-capacity ring queues: the dispatcher's \<^verbatim>\<open>CircularQueue\<close>
  of pending messages and the \<^verbatim>\<open>ThreadList\<close> of ready threads both meet it.  The client
  facts (order of delivery, no loss up to the capacity) are proved once, here.
\<close>

locale bounded_fifo =
  fixes push :: "'a \<Rightarrow> 'q \<Rightarrow> bool \<times> 'q"
    and pop :: "'q \<Rightarrow> 'q"
    and front :: "'q \<Rightarrow> 'a"
    and size_of :: "'q \<Rightarrow> nat"
    and capacity :: nat
    and elems :: "'q \<Rightarrow> 'a list"
    and invar :: "'q \<Rightarrow> bool"
  assumes size_elems: "invar q \<Longrightarrow> size_of q = length (elems q)"
    and size_cap: "invar q \<Longrightarrow> length (elems q) \<le> capacity"
    and push_full: "invar q \<Longrightarrow> length (elems q) = capacity \<Longrightarrow> push x q = (False, q)"
    and push_ok: "invar q \<Longrightarrow> length (elems q) < capacity \<Longrightarrow> fst (push x q)"
    and push_invar: "invar q \<Longrightarrow> length (elems q) < capacity \<Longrightarrow> invar (snd (push x q))"
    and push_elems:
      "invar q \<Longrightarrow> length (elems q) < capacity \<Longrightarrow> elems (snd (push x q)) = elems q @ [x]"
    and pop_invar: "invar q \<Longrightarrow> elems q \<noteq> [] \<Longrightarrow> invar (pop q)"
    and pop_elems: "invar q \<Longrightarrow> elems q \<noteq> [] \<Longrightarrow> elems (pop q) = tl (elems q)"
    and front_elems: "invar q \<Longrightarrow> elems q \<noteq> [] \<Longrightarrow> front q = hd (elems q)"
begin

lemma push_all:
  assumes "invar q" and "length (elems q) + length xs \<le> capacity"
  shows "invar (fold (\<lambda>x q. snd (push x q)) xs q) \<and>
         elems (fold (\<lambda>x q. snd (push x q)) xs q) = elems q @ xs"
  using assms
proof (induction xs arbitrary: q)
  case Nil
  then show ?case by simp
next
  case (Cons x xs)
  have room: "length (elems q) < capacity" using Cons.prems(2) by simp
  have "length (elems (snd (push x q))) + length xs \<le> capacity"
    using Cons.prems by (simp add: push_elems [OF Cons.prems(1) room])
  from Cons.IH [OF push_invar [OF Cons.prems(1) room] this]
  show ?case by (simp add: push_elems [OF Cons.prems(1) room])
qed

lemma pop_many:
  assumes "invar q" and "n \<le> length (elems q)"
  shows "invar ((pop ^^ n) q) \<and> elems ((pop ^^ n) q) = drop n (elems q)"
  using assms(2)
proof (induction n)
  case 0
  then show ?case using assms(1) by simp
next
  case (Suc n)
  then have IH: "invar ((pop ^^ n) q)" "elems ((pop ^^ n) q) = drop n (elems q)"
    by simp_all
  with Suc.prems have ne: "elems ((pop ^^ n) q) \<noteq> []" by simp
  show ?case
    using pop_invar [OF IH(1) ne] pop_elems [OF IH(1) ne] IH(2)
    by (simp add: drop_Suc tl_drop)
qed

text \<open>What goes in comes out, in order: the i-th value pushed is the one found at the
  front after i removals.\<close>

lemma fifo_order:
  assumes "invar q" and "elems q = []" and "length xs \<le> capacity" and "i < length xs"
  shows "front ((pop ^^ i) (fold (\<lambda>x q. snd (push x q)) xs q)) = xs ! i"
proof -
  let ?q = "fold (\<lambda>x q. snd (push x q)) xs q"
  have q: "invar ?q" "elems ?q = xs"
    using push_all [OF assms(1), of xs] assms by simp_all
  then have p: "invar ((pop ^^ i) ?q)" "elems ((pop ^^ i) ?q) = drop i xs"
    using pop_many [of ?q i] assms(4) by simp_all
  then have "front ((pop ^^ i) ?q) = hd (drop i xs)"
    using front_elems [of "(pop ^^ i) ?q"] assms(4) by simp
  with assms(4) show ?thesis by (simp add: hd_drop_conv_nth)
qed

end

subsection \<open>Interface: a pool of objects\<close>

text \<open>
  The contract of a pool that hands out the objects \<open>0..<n\<close>: an object it gives is one
  nobody holds, and it refuses only when every object is held.
\<close>

locale object_pool =
  fixes alloc :: "'p \<Rightarrow> nat option \<times> 'p"
    and release :: "nat \<Rightarrow> 'p \<Rightarrow> 'p option"
    and used :: "'p \<Rightarrow> nat set"
    and n :: nat
    and invar :: "'p \<Rightarrow> bool"
  assumes used_sub: "invar p \<Longrightarrow> used p \<subseteq> {..<n}"
    and alloc_None: "invar p \<Longrightarrow> fst (alloc p) = None \<longleftrightarrow> used p = {..<n}"
    and alloc_fail: "invar p \<Longrightarrow> fst (alloc p) = None \<Longrightarrow> snd (alloc p) = p"
    and alloc_Some: "invar p \<Longrightarrow> fst (alloc p) = Some i \<Longrightarrow>
       i < n \<and> i \<notin> used p \<and> used (snd (alloc p)) = insert i (used p)"
    and alloc_invar: "invar p \<Longrightarrow> invar (snd (alloc p))"
    and release_used: "invar p \<Longrightarrow> i \<in> used p \<Longrightarrow>
       \<exists>p'. release i p = Some p' \<and> invar p' \<and> used p' = used p - {i}"
begin

fun alloc_many :: "nat \<Rightarrow> 'p \<Rightarrow> nat option list \<times> 'p" where
  "alloc_many 0 p = ([], p)"
| "alloc_many (Suc k) p =
     (case alloc p of (r, p1) \<Rightarrow> case alloc_many k p1 of (rs, p2) \<Rightarrow> (r # rs, p2))"

lemma alloc_many_invar: "invar p \<Longrightarrow> invar (snd (alloc_many k p))"
proof (induction k arbitrary: p)
  case (Suc k)
  then show ?case by (simp add: case_prod_beta alloc_invar)
qed simp

text \<open>A series of requests that all succeed gives pairwise different objects, none of
  them in use before.\<close>

lemma alloc_many_distinct:
  assumes "invar p" and "fst (alloc_many k p) = map Some is"
  shows "distinct is \<and> set is \<inter> used p = {} \<and> used (snd (alloc_many k p)) = used p \<union> set is"
  using assms
proof (induction k arbitrary: p "is")
  case (Suc k)
  obtain r p1 where a: "alloc p = (r, p1)" by fastforce
  obtain rs p2 where b: "alloc_many k p1 = (rs, p2)" by fastforce
  from Suc.prems a b obtain i js where "is": "is = i # js" "r = Some i" "rs = map Some js"
    by (cases "is") auto
  have p1: "invar p1" using alloc_invar [OF Suc.prems(1)] a by simp
  have i: "i \<notin> used p" "used p1 = insert i (used p)"
    using alloc_Some [OF Suc.prems(1), of i] a "is" by simp_all
  from Suc.IH [OF p1, of js] i "is" a b show ?case by auto
qed simp

end

subsection \<open>Interface: a small association map\<close>

text \<open>
  The contract of the bounded map the dispatcher keeps sleeping threads and early
  responses in: \<open>room\<close> says that it is not full.
\<close>

locale small_map =
  fixes put :: "'k \<Rightarrow> 'v \<Rightarrow> 'm \<Rightarrow> 'm"
    and get :: "'k \<Rightarrow> 'm \<Rightarrow> 'v option"
    and remove :: "'k \<Rightarrow> 'm \<Rightarrow> 'm"
    and lookup :: "'m \<Rightarrow> 'k \<rightharpoonup> 'v"
    and room :: "'m \<Rightarrow> bool"
    and invar :: "'m \<Rightarrow> bool"
  assumes get_lookup: "invar m \<Longrightarrow> room m \<Longrightarrow> get k m = lookup m k"
    and put_lookup: "invar m \<Longrightarrow> room m \<Longrightarrow> lookup m k = None \<Longrightarrow>
       invar (put k v m) \<and> lookup (put k v m) = (lookup m)(k \<mapsto> v)"
    and remove_lookup: "invar m \<Longrightarrow> room m \<Longrightarrow> lookup m k \<noteq> None \<Longrightarrow>
       invar (remove k m) \<and> room (remove k m) \<and> lookup (remove k m) = (lookup m)(k := None)"
begin

text \<open>Putting in and taking out an entry as the clients see them: the entry named changes and no other one.\<close>

lemma put_get:
  assumes "invar m" "room m" "get k m = None" "room (put k v m)"
  shows "invar (put k v m)" "get k' (put k v m) = (if k' = k then Some v else get k' m)"
  using assms put_lookup [OF assms(1,2), of k v] by (simp_all add: get_lookup)

lemma remove_get:
  assumes "invar m" "room m" "get j m \<noteq> None"
  shows "invar (remove j m)" "get k' (remove j m) = (if k' = j then None else get k' m)"
  using assms remove_lookup [OF assms(1,2), of j] by (simp_all add: get_lookup)

end

end
