(* ===== verification/Containers.thy ===== *)
theory Containers
  imports Faux_Prelude
begin

text \<open>
  The fixed-capacity containers of \<open>common/include\<close>: \<^verbatim>\<open>CircularQueue\<close>
  (\<open>circular_queue.hpp\<close>), the association map \<^verbatim>\<open>Map\<close> built on it (\<open>map.hpp\<close>) and the
  object \<^verbatim>\<open>Pool\<close> (\<open>pool.hpp\<close>).  The template parameter \<^verbatim>\<open>CAPACITY\<close> is the first
  argument of the operations.  An \<^verbatim>\<open>Iterator\<close> (a pointer into \<^verbatim>\<open>_data\<close>) is the index it
  points to.
\<close>

section \<open>CircularQueue\<close>

record 'a CircularQueue =
  q_at :: nat
  q_size :: nat
  q_data :: "'a list"

text \<open>The constructor clears the two counters; the slots keep the contents the storage
  had (\<open>d\<close>).\<close>

definition cq_new :: "'a list \<Rightarrow> 'a CircularQueue" where
  "cq_new d = \<lparr>q_at = 0, q_size = 0, q_data = d\<rparr>"

definition cq_push :: "nat \<Rightarrow> 'a \<Rightarrow> 'a CircularQueue \<Rightarrow> bool \<times> 'a CircularQueue" where
  "cq_push CAPACITY t q =
     (if q_size q = CAPACITY then (False, q)
      else let tail = size_t (q_at q + q_size q) mod CAPACITY
           in (True, q\<lparr>q_data := (q_data q)[tail := t], q_size := size_t (q_size q + 1)\<rparr>))"

definition cq_pop :: "nat \<Rightarrow> 'a CircularQueue \<Rightarrow> 'a CircularQueue" where
  "cq_pop CAPACITY q =
     q\<lparr>q_at := size_t (q_at q + 1) mod CAPACITY, q_size := size_dec (q_size q)\<rparr>"

definition cq_front :: "'a CircularQueue \<Rightarrow> 'a" where
  "cq_front q = q_data q ! q_at q"

definition cq_index :: "nat \<Rightarrow> 'a CircularQueue \<Rightarrow> nat \<Rightarrow> nat" where
  "cq_index CAPACITY q off = size_t (q_at q + off) mod CAPACITY"

definition cq_at :: "nat \<Rightarrow> 'a CircularQueue \<Rightarrow> nat \<Rightarrow> 'a" where
  "cq_at CAPACITY q off = q_data q ! cq_index CAPACITY q off"

definition cq_begin :: "'a CircularQueue \<Rightarrow> nat" where
  "cq_begin q = q_at q"

definition cq_end :: "nat \<Rightarrow> 'a CircularQueue \<Rightarrow> nat" where
  "cq_end CAPACITY q = cq_index CAPACITY q (q_size q)"

definition cq_rm :: "nat \<Rightarrow> nat \<Rightarrow> 'a CircularQueue \<Rightarrow> 'a CircularQueue" where
  "cq_rm CAPACITY off q =
     (let index = size_t (q_at q + off) mod CAPACITY;
          tail = size_t (q_at q + q_size q + SIZE_MAX) mod CAPACITY
      in q\<lparr>q_data := (q_data q)[index := q_data q ! tail], q_size := size_dec (q_size q)\<rparr>)"

text \<open>The pointer overload: the offset is a pointer difference, which wraps when the
  iterator lies before the front in memory.\<close>

definition cq_rm_it :: "nat \<Rightarrow> nat \<Rightarrow> 'a CircularQueue \<Rightarrow> 'a CircularQueue" where
  "cq_rm_it CAPACITY it q = cq_rm CAPACITY (size_sub it (q_at q)) q"

subsection \<open>Invariant and contents\<close>

definition cq_invar :: "nat \<Rightarrow> 'a CircularQueue \<Rightarrow> bool" where
  "cq_invar CAPACITY q \<longleftrightarrow>
     0 < CAPACITY \<and> CAPACITY < 2 ^ 62 \<and> length (q_data q) = CAPACITY \<and>
     q_at q < CAPACITY \<and> q_size q \<le> CAPACITY"

definition cq_elems :: "nat \<Rightarrow> 'a CircularQueue \<Rightarrow> 'a list" where
  "cq_elems CAPACITY q = map (\<lambda>i. q_data q ! ((q_at q + i) mod CAPACITY)) [0..<q_size q]"

lemma length_cq_elems [simp]: "length (cq_elems C q) = q_size q"
  by (simp add: cq_elems_def)

lemma cq_index_eq:
  "cq_invar C q \<Longrightarrow> off \<le> C \<Longrightarrow> cq_index C q off = (q_at q + off) mod C"
  by (simp add: cq_invar_def cq_index_def)

lemma cq_elems_nth: "i < q_size q \<Longrightarrow> cq_elems C q ! i = q_data q ! ((q_at q + i) mod C)"
  by (simp add: cq_elems_def)

text \<open>Two different offsets below the capacity name two different slots.\<close>

lemma ring_index_inj:
  assumes "(a + i) mod C = (a + j) mod C" and "i < C" and "j < C"
  shows "i = (j :: nat)"
proof (rule ccontr)
  assume "i \<noteq> j"
  then consider "i < j" | "j < i" by linarith
  then show False
  proof cases
    case 1
    have "C dvd (a + j) - (a + i)"
      using assms(1) 1 by (subst mod_eq_dvd_iff_nat [symmetric]) simp_all
    with 1 assms(3) show False using nat_dvd_not_less [of "j - i" C] by simp
  next
    case 2
    have "C dvd (a + i) - (a + j)"
      using assms(1) 2 by (subst mod_eq_dvd_iff_nat [symmetric]) simp_all
    with 2 assms(2) show False using nat_dvd_not_less [of "i - j" C] by simp
  qed
qed

lemma cq_new_invar:
  "length d = C \<Longrightarrow> 0 < C \<Longrightarrow> C < 2 ^ 62 \<Longrightarrow> cq_invar C (cq_new d) \<and> cq_elems C (cq_new d) = []"
  by (simp add: cq_new_def cq_invar_def cq_elems_def)

lemma cq_push_full: "q_size q = C \<Longrightarrow> cq_push C x q = (False, q)"
  by (simp add: cq_push_def)

lemma cq_push_room:
  assumes inv: "cq_invar C q" and room: "q_size q < C"
  shows "fst (cq_push C x q)" and "cq_invar C (snd (cq_push C x q))"
    and "cq_elems C (snd (cq_push C x q)) = cq_elems C q @ [x]"
proof -
  let ?t = "(q_at q + q_size q) mod C"
  have eq: "cq_push C x q =
    (True, q\<lparr>q_data := (q_data q)[?t := x], q_size := q_size q + 1\<rparr>)"
    using inv room by (simp add: cq_push_def cq_invar_def Let_def)
  have t: "?t < length (q_data q)" using inv by (simp add: cq_invar_def)
  show "fst (cq_push C x q)" by (simp add: eq)
  show "cq_invar C (snd (cq_push C x q))"
    using inv room by (simp add: eq cq_invar_def)
  have "(q_data q)[?t := x] ! ((q_at q + i) mod C) = q_data q ! ((q_at q + i) mod C)"
    if "i < q_size q" for i
    using ring_index_inj [of "q_at q" i C "q_size q"] that room
    by (metis nat_neq_iff nth_list_update_neq order.strict_trans)
  then show "cq_elems C (snd (cq_push C x q)) = cq_elems C q @ [x]"
    using t by (auto simp: eq cq_elems_def)
qed

lemma cq_pop_elems:
  assumes inv: "cq_invar C q" and ne: "0 < q_size q"
  shows "cq_invar C (cq_pop C q)" and "cq_elems C (cq_pop C q) = tl (cq_elems C q)"
proof -
  have eq: "cq_pop C q = q\<lparr>q_at := (q_at q + 1) mod C, q_size := q_size q - 1\<rparr>"
    using inv ne by (simp add: cq_pop_def cq_invar_def)
  show "cq_invar C (cq_pop C q)"
    using inv ne by (auto simp: eq cq_invar_def)
  have "((q_at q + 1) mod C + i) mod C = (q_at q + Suc i) mod C" for i
    by (simp add: mod_add_left_eq)
  then show "cq_elems C (cq_pop C q) = tl (cq_elems C q)"
    by (intro nth_equalityI) (simp_all add: eq cq_elems_nth nth_tl)
qed

lemma cq_front_elems:
  assumes "cq_invar C q" and "0 < q_size q"
  shows "cq_front q = hd (cq_elems C q)"
  using assms by (simp add: cq_front_def hd_conv_nth cq_elems_nth cq_invar_def flip: length_greater_0_conv)

interpretation cq: bounded_fifo "cq_push C" "cq_pop C" cq_front q_size C "cq_elems C" "cq_invar C"
  for C :: nat
proof unfold_locales
  fix q :: "'a CircularQueue" and x
  assume inv: "cq_invar C q"
  show "q_size q = length (cq_elems C q)" by simp
  show "length (cq_elems C q) \<le> C" using inv by (simp add: cq_invar_def)
  show "cq_push C x q = (False, q)" if "length (cq_elems C q) = C"
    using that by (simp add: cq_push_full)
  show "fst (cq_push C x q)" and "cq_invar C (snd (cq_push C x q))"
    and "cq_elems C (snd (cq_push C x q)) = cq_elems C q @ [x]"
    if "length (cq_elems C q) < C"
    using cq_push_room [OF inv] that by simp_all
  assume "cq_elems C q \<noteq> []"
  then have ne: "0 < q_size q" by (metis length_cq_elems length_greater_0_conv)
  show "cq_invar C (cq_pop C q)" and "cq_elems C (cq_pop C q) = tl (cq_elems C q)"
    and "cq_front q = hd (cq_elems C q)"
    using cq_pop_elems [OF inv ne] cq_front_elems [OF inv ne] by simp_all
qed

subsection \<open>Unordered removal\<close>

text \<open>\<^verbatim>\<open>rm\<close> overwrites the removed slot with the last element: the order of the rest is
  not kept, their multiset is.\<close>

lemma cq_rm_elems:
  assumes inv: "cq_invar C q" and i: "i < q_size q"
  shows "cq_invar C (cq_rm C i q)"
    and "cq_elems C (cq_rm C i q) = butlast ((cq_elems C q)[i := last (cq_elems C q)])"
proof -
  let ?n = "q_size q - 1"
  have "size_t (q_at q + q_size q + SIZE_MAX) = size_t (q_at q + ?n + 2 ^ 64)"
    using i by (simp add: add.commute)
  also have "\<dots> = size_t (q_at q + ?n)" by (rule mod_add_self2)
  also have "\<dots> = q_at q + ?n" using inv i by (intro mod_less) (auto simp: cq_invar_def)
  finally have tail: "size_t (q_at q + q_size q + SIZE_MAX) = q_at q + ?n" .
  have idx: "size_t (q_at q + i) = q_at q + i" using inv i by (simp add: cq_invar_def)
  let ?ix = "(q_at q + i) mod C" and ?tl = "(q_at q + ?n) mod C"
  have eq: "cq_rm C i q = q\<lparr>q_data := (q_data q)[?ix := q_data q ! ?tl], q_size := ?n\<rparr>"
    unfolding cq_rm_def Let_def tail idx
    using inv i by (simp add: cq_invar_def)
  show "cq_invar C (cq_rm C i q)" using inv by (auto simp: eq cq_invar_def)
  have ixl: "?ix < length (q_data q)" using inv by (simp add: cq_invar_def)
  have last: "last (cq_elems C q) = q_data q ! ?tl"
    using i by (simp add: last_conv_nth cq_elems_nth flip: length_greater_0_conv)
  have C: "q_size q \<le> C" using inv by (simp add: cq_invar_def)
  show "cq_elems C (cq_rm C i q) = butlast ((cq_elems C q)[i := last (cq_elems C q)])"
  proof (rule nth_equalityI)
    fix j assume "j < length (cq_elems C (cq_rm C i q))"
    then have j: "j < ?n" by (simp add: eq)
    have "?ix = (q_at q + j) mod C \<longleftrightarrow> i = j"
      using ring_index_inj [of "q_at q" i C j] i j C by (intro iffI) simp_all
    then show "cq_elems C (cq_rm C i q) ! j =
        butlast ((cq_elems C q)[i := last (cq_elems C q)]) ! j"
      using j i ixl unfolding last
      by (simp add: eq cq_elems_nth nth_butlast nth_list_update)
  qed (simp add: eq)
qed

section \<open>Map\<close>

record ('k, 'v) Entry =
  e_key :: 'k
  e_value :: 'v

type_synonym ('k, 'v) Map = "('k, 'v) Entry CircularQueue"

definition map_insert :: "nat \<Rightarrow> 'k \<Rightarrow> 'v \<Rightarrow> ('k, 'v) Map \<Rightarrow> ('k, 'v) Map" where
  "map_insert CAPACITY key v m = snd (cq_push CAPACITY \<lparr>e_key = key, e_value = v\<rparr> m)"

text \<open>The search loop of \<^verbatim>\<open>find\<close>; its result is an iterator, \<^const>\<open>cq_end\<close> when nothing
  matches.\<close>

function map_find_from :: "nat \<Rightarrow> 'k \<Rightarrow> ('k, 'v) Map \<Rightarrow> nat \<Rightarrow> nat" where
  "map_find_from CAPACITY key m i =
     (if i < q_size m then
        (if e_key (cq_at CAPACITY m i) = key then cq_index CAPACITY m i
         else map_find_from CAPACITY key m (Suc i))
      else cq_end CAPACITY m)"
  by pat_completeness auto
termination
  by (relation "measure (\<lambda>(C, key, m, i). q_size m - i)") auto

declare map_find_from.simps [simp del]

definition map_find :: "nat \<Rightarrow> 'k \<Rightarrow> ('k, 'v) Map \<Rightarrow> nat" where
  "map_find CAPACITY key m = map_find_from CAPACITY key m 0"

text \<open>How every client of the map looks a key up: compare the iterator with \<^verbatim>\<open>end()\<close>,
  then follow it.\<close>

definition map_get :: "nat \<Rightarrow> 'k \<Rightarrow> ('k, 'v) Map \<Rightarrow> 'v option" where
  "map_get CAPACITY key m =
     (let it = map_find CAPACITY key m
      in if it = cq_end CAPACITY m then None else Some (e_value (q_data m ! it)))"

definition map_remove :: "nat \<Rightarrow> 'k \<Rightarrow> ('k, 'v) Map \<Rightarrow> ('k, 'v) Map" where
  "map_remove CAPACITY key m = cq_rm_it CAPACITY (map_find CAPACITY key m) m"

subsection \<open>Contents\<close>

definition map_keys :: "nat \<Rightarrow> ('k, 'v) Map \<Rightarrow> 'k list" where
  "map_keys CAPACITY m = map e_key (cq_elems CAPACITY m)"

definition map_spec :: "nat \<Rightarrow> ('k, 'v) Map \<Rightarrow> 'k \<rightharpoonup> 'v" where
  "map_spec CAPACITY m = map_of (map (\<lambda>e. (e_key e, e_value e)) (cq_elems CAPACITY m))"

definition map_invar :: "nat \<Rightarrow> ('k, 'v) Map \<Rightarrow> bool" where
  "map_invar CAPACITY m \<longleftrightarrow> cq_invar CAPACITY m \<and> distinct (map_keys CAPACITY m)"

lemma cq_at_elems:
  "cq_invar C q \<Longrightarrow> i < q_size q \<Longrightarrow> cq_at C q i = cq_elems C q ! i"
  by (simp add: cq_at_def cq_index_eq cq_elems_nth cq_invar_def)

lemma map_find_from_hit:
  assumes "cq_invar C m" and "i \<le> j" and "j < q_size m" and "e_key (cq_elems C m ! j) = k"
    and "\<And>l. i \<le> l \<Longrightarrow> l < j \<Longrightarrow> e_key (cq_elems C m ! l) \<noteq> k"
  shows "map_find_from C k m i = cq_index C m j"
  using assms
proof (induction C k m i rule: map_find_from.induct)
  case (1 C k m i)
  show ?case
  proof (cases "i = j")
    case True
    with 1 show ?thesis by (subst map_find_from.simps) (simp add: cq_at_elems)
  next
    case False
    with 1 have "map_find_from C k m (Suc i) = cq_index C m j"
      by (intro 1) (auto simp: cq_at_elems)
    with 1 False show ?thesis by (subst map_find_from.simps) (simp add: cq_at_elems)
  qed
qed

lemma map_find_from_miss:
  assumes "cq_invar C m" and "\<And>l. i \<le> l \<Longrightarrow> l < q_size m \<Longrightarrow> e_key (cq_elems C m ! l) \<noteq> k"
  shows "map_find_from C k m i = cq_end C m"
  using assms
proof (induction C k m i rule: map_find_from.induct)
  case (1 C k m i)
  show ?case
  proof (cases "i < q_size m")
    case True
    with 1 have "map_find_from C k m (Suc i) = cq_end C m"
      by (intro 1) (auto simp: cq_at_elems)
    with 1 True show ?thesis by (subst map_find_from.simps) (simp add: cq_at_elems)
  qed (subst map_find_from.simps, simp)
qed

lemma map_find_present:
  assumes "map_invar C m" and "j < q_size m" and "e_key (cq_elems C m ! j) = k"
  shows "map_find C k m = cq_index C m j"
proof -
  have "e_key (cq_elems C m ! l) \<noteq> k" if "l < j" for l
    using assms that by (auto simp: map_invar_def map_keys_def distinct_conv_nth)
  with assms show ?thesis
    unfolding map_find_def by (intro map_find_from_hit) (auto simp: map_invar_def)
qed

lemma map_find_absent:
  assumes "map_invar C m" and "k \<notin> set (map_keys C m)"
  shows "map_find C k m = cq_end C m"
  unfolding map_find_def
proof (rule map_find_from_miss)
  show "cq_invar C m" using assms(1) by (simp add: map_invar_def)
  show "e_key (cq_elems C m ! l) \<noteq> k" if "l < q_size m" for l
    using assms(2) that by (metis length_cq_elems length_map map_keys_def nth_map nth_mem)
qed

lemma cq_index_end:
  assumes "cq_invar C q" and "j < q_size q" and "q_size q < C"
  shows "cq_index C q j \<noteq> cq_end C q"
  using assms ring_index_inj [of "q_at q" j C "q_size q"]
  by (auto simp: cq_end_def cq_index_eq)

lemma Entry_eq_iff: "(e_key e = k \<and> e_value e = v) \<longleftrightarrow> (e = \<lparr>e_key = k, e_value = v\<rparr>)"
  for e :: "('k, 'v) Entry"
  by (cases e) auto

lemma map_spec_Some:
  assumes "map_invar C m"
  shows "map_spec C m k = Some v \<longleftrightarrow> \<lparr>e_key = k, e_value = v\<rparr> \<in> set (cq_elems C m)"
proof -
  have "distinct (map fst (map (\<lambda>e. (e_key e, e_value e)) (cq_elems C m)))"
    using assms by (simp add: map_invar_def map_keys_def comp_def)
  then have "map_spec C m k = Some v \<longleftrightarrow>
      (k, v) \<in> set (map (\<lambda>e. (e_key e, e_value e)) (cq_elems C m))"
    unfolding map_spec_def by (rule map_of_eq_Some_iff)
  also have "\<dots> \<longleftrightarrow> (\<exists>e \<in> set (cq_elems C m). e_key e = k \<and> e_value e = v)"
    by auto
  finally show ?thesis by (simp only: Entry_eq_iff) simp
qed

lemma map_spec_None: "map_spec C m k = None \<longleftrightarrow> k \<notin> set (map_keys C m)"
  by (auto simp: map_spec_def map_keys_def map_of_eq_None_iff image_image)

lemma map_get_spec:
  assumes inv: "map_invar C m" and room: "q_size m < C"
  shows "map_get C k m = map_spec C m k"
proof (cases "map_spec C m k")
  case None
  then have "map_find C k m = cq_end C m"
    using map_find_absent [OF inv] by (simp add: map_spec_None)
  with None show ?thesis by (simp add: map_get_def)
next
  case (Some v)
  then obtain j where j: "j < q_size m" "cq_elems C m ! j = \<lparr>e_key = k, e_value = v\<rparr>"
    using map_spec_Some [OF inv, of k v] by (auto simp: in_set_conv_nth)
  have cq: "cq_invar C m" using inv by (simp add: map_invar_def)
  have f: "map_find C k m = cq_index C m j" using map_find_present [OF inv j(1)] j(2) by simp
  have "q_data m ! cq_index C m j = cq_elems C m ! j"
    using cq_at_elems [OF cq j(1)] by (simp add: cq_at_def)
  with f j cq_index_end [OF cq j(1) room] Some show ?thesis
    by (simp add: map_get_def)
qed

text \<open>The wrapped pointer difference of \<^verbatim>\<open>rm(it)\<close> leads back to the slot of the iterator.\<close>

lemma cq_rm_it_index:
  assumes inv: "cq_invar C q" and i: "i < q_size q"
  shows "cq_rm_it C (cq_index C q i) q = cq_rm C i q"
proof -
  let ?it = "(q_at q + i) mod C"
  have it: "?it < C" using inv by (simp add: cq_invar_def)
  have C: "C < 2 ^ 62" "q_at q < C" using inv by (simp_all add: cq_invar_def)
  have "?it < 2 ^ 62" using it C(1) by (rule less_trans)
  then have it64: "?it < 2 ^ 64" by (rule less_le_trans) simp
  have "size_t (q_at q + size_sub ?it (q_at q)) = ?it"
  proof (cases "q_at q \<le> ?it")
    case True
    then have "size_sub ?it (q_at q) = ?it - q_at q" using it64 by (intro size_sub_le)
    with True it64 show ?thesis by simp
  next
    case False
    then have "size_sub ?it (q_at q) = 2 ^ 64 - (q_at q - ?it)"
      using C by (intro size_sub_wrap) auto
    moreover have "q_at q < 2 ^ 64" using C by simp
    ultimately have "q_at q + size_sub ?it (q_at q) = ?it + 2 ^ 64" using False by linarith
    moreover have "(?it + 2 ^ 64) mod 2 ^ 64 = ?it mod 2 ^ 64" by (rule mod_add_self2)
    moreover have "?it mod 2 ^ 64 = ?it" using it64 by (rule mod_less)
    ultimately show ?thesis by argo
  qed
  moreover have "size_t (q_at q + i) = q_at q + i" using inv i by (simp add: cq_invar_def)
  moreover have "cq_index C q i = ?it" using inv i by (simp add: cq_index_eq cq_invar_def)
  ultimately show ?thesis by (simp only: cq_rm_it_def cq_rm_def mod_mod_trivial)
qed

lemma map_remove_spec:
  assumes inv: "map_invar C m" and present: "map_spec C m k \<noteq> None"
  shows "map_invar C (map_remove C k m)"
    and "q_size (map_remove C k m) = q_size m - 1"
    and "map_spec C (map_remove C k m) = (map_spec C m)(k := None)"
proof -
  from present obtain v where "map_spec C m k = Some v" by blast
  then obtain j where j: "j < q_size m" "cq_elems C m ! j = \<lparr>e_key = k, e_value = v\<rparr>"
    using map_spec_Some [OF inv, of k v] by (auto simp: in_set_conv_nth)
  have cq: "cq_invar C m" using inv by (simp add: map_invar_def)
  let ?r = "cq_rm C j m" and ?es = "cq_elems C m"
  have r: "map_remove C k m = ?r"
    using map_find_present [OF inv j(1)] j(2) cq_rm_it_index [OF cq j(1)]
    by (simp add: map_remove_def)
  have es: "cq_elems C ?r = butlast (?es[j := last ?es])" and cqr: "cq_invar C ?r"
    using cq_rm_elems [OF cq j(1)] by simp_all
  have ne: "?es \<noteq> []" using j(1) by (auto simp flip: length_greater_0_conv)
  have "length (cq_elems C ?r) = q_size m - 1" by (simp add: es)
  then show "q_size (map_remove C k m) = q_size m - 1" by (simp add: r)
  have "mset (?es[j := last ?es]) = add_mset (last ?es) (mset ?es - {# ?es ! j #})"
    using j(1) by (simp add: mset_update)
  moreover have "mset (?es[j := last ?es]) =
      add_mset (last (?es[j := last ?es])) (mset (butlast (?es[j := last ?es])))"
    using ne by (metis append_butlast_last_id list_update_nonempty mset.simps(2) mset_append
        union_mset_add_mset_right empty_neutral(2) mset.simps(1))
  moreover have "last (?es[j := last ?es]) = last ?es"
    using ne by (simp add: last_list_update)
  ultimately have ms: "mset (cq_elems C ?r) = mset ?es - {# ?es ! j #}" by (simp add: es)
  have "?es ! j \<in># mset ?es" using j(1) by simp
  then have m1: "mset (?es ! j # cq_elems C ?r) = mset ?es" by (simp add: ms)
  then have "mset (map e_key (?es ! j # cq_elems C ?r)) = mset (map e_key ?es)"
    by (metis mset_map)
  then have "distinct (map e_key (?es ! j # cq_elems C ?r))"
    using inv mset_eq_imp_distinct_iff by (fastforce simp: map_invar_def map_keys_def)
  then have dk: "distinct (map_keys C ?r)" and k: "k \<notin> set (map_keys C ?r)"
    using j(2) by (simp_all add: map_keys_def)
  have set: "insert (?es ! j) (set (cq_elems C ?r)) = set ?es"
    using mset_eq_setD [OF m1] by simp
  show inv': "map_invar C (map_remove C k m)" using cqr dk by (simp add: r map_invar_def)
  show "map_spec C (map_remove C k m) = (map_spec C m)(k := None)"
  proof (rule ext, rule option_eqI)
    fix k' v
    have "\<lparr>e_key = k, e_value = v\<rparr> \<notin> set (cq_elems C ?r)"
      using k by (auto simp: map_keys_def image_iff)
    then show "map_spec C (map_remove C k m) k' = Some v \<longleftrightarrow>
        ((map_spec C m)(k := None)) k' = Some v"
      using map_spec_Some [OF inv, of k' v] map_spec_Some [OF inv', of k' v] set j(2)
      by (auto simp: r)
  qed
qed

lemma map_insert_spec:
  assumes inv: "map_invar C m" and room: "q_size m < C" and new: "map_spec C m k = None"
  shows "map_invar C (map_insert C k v m)"
    and "map_spec C (map_insert C k v m) = (map_spec C m)(k \<mapsto> v)"
proof -
  let ?e = "\<lparr>e_key = k, e_value = v\<rparr>"
  have cq: "cq_invar C m" using inv by (simp add: map_invar_def)
  note p = cq_push_room [OF cq room, of ?e]
  show inv': "map_invar C (map_insert C k v m)"
    using p inv new by (simp add: map_invar_def map_insert_def map_keys_def map_spec_None)
  show "map_spec C (map_insert C k v m) = (map_spec C m)(k \<mapsto> v)"
  proof (rule ext, rule option_eqI)
    fix k' v'
    have "\<lparr>e_key = k, e_value = v'\<rparr> \<notin> set (cq_elems C m)"
      using new by (auto simp: map_spec_None map_keys_def image_iff)
    then show "map_spec C (map_insert C k v m) k' = Some v' \<longleftrightarrow>
        ((map_spec C m)(k \<mapsto> v)) k' = Some v'"
      using map_spec_Some [OF inv, of k' v'] map_spec_Some [OF inv', of k' v'] p
      by (auto simp: map_insert_def)
  qed
qed

interpretation smap: small_map "map_insert C" "map_get C" "map_remove C" "map_spec C"
  "\<lambda>m. q_size m < C" "map_invar C" for C :: nat
proof unfold_locales
  fix m :: "('k, 'v) Map" and k v
  assume inv: "map_invar C m" and room: "q_size m < C"
  show "map_get C k m = map_spec C m k" using inv room by (rule map_get_spec)
  show "map_invar C (map_insert C k v m) \<and>
      map_spec C (map_insert C k v m) = (map_spec C m)(k \<mapsto> v)" if "map_spec C m k = None"
    using map_insert_spec [OF inv room that] by simp
  show "map_invar C (map_remove C k m) \<and> q_size (map_remove C k m) < C \<and>
      map_spec C (map_remove C k m) = (map_spec C m)(k := None)" if "map_spec C m k \<noteq> None"
    using map_remove_spec [OF inv that] room by simp
qed

section \<open>Pool\<close>

text \<open>The heap array itself is not accessed by the pool; an \<^verbatim>\<open>Element *\<close> is the index of
  the object in it.\<close>

record Pool =
  p_free_list :: "nat list"
  p_nfree :: nat

definition pool_new :: "nat \<Rightarrow> Pool" where
  "pool_new num_elements = \<lparr>p_free_list = [0..<num_elements], p_nfree = num_elements\<rparr>"

definition pool_allocate :: "Pool \<Rightarrow> nat option \<times> Pool" where
  "pool_allocate p =
     (if p_nfree p = 0 then (None, p)
      else let n = p_nfree p - 1 in (Some (p_free_list p ! n), p\<lparr>p_nfree := n\<rparr>))"

text \<open>\<^term>\<open>None\<close>: the write falls outside \<^verbatim>\<open>free_list\<close>.\<close>

definition pool_free :: "nat \<Rightarrow> Pool \<Rightarrow> Pool option" where
  "pool_free index p =
     (if p_nfree p < length (p_free_list p)
      then Some (p\<lparr>p_free_list := (p_free_list p)[p_nfree p := index], p_nfree := p_nfree p + 1\<rparr>)
      else None)"

definition pool_available :: "Pool \<Rightarrow> nat" where
  "pool_available p = p_nfree p"

definition pool_free_set :: "Pool \<Rightarrow> nat set" where
  "pool_free_set p = set (take (p_nfree p) (p_free_list p))"

definition pool_used :: "nat \<Rightarrow> Pool \<Rightarrow> nat set" where
  "pool_used n p = {..<n} - pool_free_set p"

definition pool_invar :: "nat \<Rightarrow> Pool \<Rightarrow> bool" where
  "pool_invar n p \<longleftrightarrow> length (p_free_list p) = n \<and> p_nfree p \<le> n \<and>
     distinct (take (p_nfree p) (p_free_list p)) \<and> pool_free_set p \<subseteq> {..<n}"

lemma pool_new_invar: "pool_invar n (pool_new n) \<and> pool_used n (pool_new n) = {}"
  by (auto simp: pool_invar_def pool_new_def pool_free_set_def pool_used_def)

lemma pool_available_card:
  assumes "pool_invar n p"
  shows "pool_available p + card (pool_used n p) = n"
proof -
  have "card (pool_free_set p) = p_nfree p"
    using assms by (simp add: pool_free_set_def pool_invar_def distinct_card)
  then show ?thesis
    using assms by (simp add: pool_used_def pool_available_def pool_invar_def card_Diff_subset
        pool_free_set_def)
qed

lemma pool_allocate_Some:
  assumes inv: "pool_invar n p" and pos: "0 < p_nfree p"
  shows "\<exists>i. fst (pool_allocate p) = Some i \<and> i < n \<and> i \<notin> pool_used n p \<and>
    pool_invar n (snd (pool_allocate p)) \<and>
    pool_used n (snd (pool_allocate p)) = insert i (pool_used n p)"
proof -
  obtain k where k: "p_nfree p = Suc k" using pos by (cases "p_nfree p") auto
  let ?i = "p_free_list p ! k"
  have t: "take (Suc k) (p_free_list p) = take k (p_free_list p) @ [?i]"
    using inv k by (intro take_Suc_conv_app_nth) (simp add: pool_invar_def)
  have d: "distinct (take k (p_free_list p) @ [?i])" "set (take k (p_free_list p) @ [?i]) \<subseteq> {..<n}"
    using inv by (simp_all add: pool_invar_def k t pool_free_set_def)
  have "pool_allocate p = (Some ?i, p\<lparr>p_nfree := k\<rparr>)" by (simp add: pool_allocate_def k)
  with d inv show ?thesis
    by (auto simp: pool_invar_def pool_used_def pool_free_set_def k t)
qed

lemma pool_free_used:
  assumes inv: "pool_invar n p" and i: "i \<in> pool_used n p"
  shows "\<exists>p'. pool_free i p = Some p' \<and> pool_invar n p' \<and> pool_used n p' = pool_used n p - {i}"
proof -
  let ?k = "p_nfree p"
  have "card (pool_used n p) > 0"
    using i by (auto simp: card_gt_0_iff pool_used_def)
  then have k: "?k < n" using pool_available_card [OF inv] by (simp add: pool_available_def)
  let ?fl = "(p_free_list p)[?k := i]"
  have t: "take (Suc ?k) ?fl = take ?k (p_free_list p) @ [i]"
    using inv k by (simp add: take_Suc_conv_app_nth pool_invar_def)
  have "pool_free i p = Some (p\<lparr>p_free_list := ?fl, p_nfree := Suc ?k\<rparr>)"
    using inv k by (simp add: pool_free_def pool_invar_def)
  with inv i k show ?thesis
    by (auto simp: pool_invar_def pool_used_def pool_free_set_def t)
qed

interpretation pool: object_pool pool_allocate pool_free "pool_used n" n "pool_invar n"
  for n :: nat
proof unfold_locales
  fix p i
  assume inv: "pool_invar n p"
  show "pool_used n p \<subseteq> {..<n}" by (auto simp: pool_used_def)
  have z: "pool_used n p = {..<n}" if "p_nfree p = 0"
    using that by (simp add: pool_used_def pool_free_set_def)
  show "fst (pool_allocate p) = None \<longleftrightarrow> pool_used n p = {..<n}"
  proof (cases "p_nfree p = 0")
    case True
    then show ?thesis using z by (simp add: pool_allocate_def)
  next
    case False
    then show ?thesis using pool_allocate_Some [OF inv] by auto
  qed
  show "snd (pool_allocate p) = p" if "fst (pool_allocate p) = None"
    using that by (simp add: pool_allocate_def Let_def split: if_splits)
  show "i < n \<and> i \<notin> pool_used n p \<and> pool_used n (snd (pool_allocate p)) = insert i (pool_used n p)"
    if "fst (pool_allocate p) = Some i"
    using that pool_allocate_Some [OF inv]
    by (cases "p_nfree p = 0") (auto simp: pool_allocate_def)
  show "pool_invar n (snd (pool_allocate p))"
    using inv pool_allocate_Some [OF inv] by (cases "p_nfree p = 0") (auto simp: pool_allocate_def)
  show "\<exists>p'. pool_free i p = Some p' \<and> pool_invar n p' \<and> pool_used n p' = pool_used n p - {i}"
    if "i \<in> pool_used n p"
    using inv that by (rule pool_free_used)
qed

section \<open>Properties\<close>

text \<open>C31. The circular queue is first-in first-out and loses nothing up to its capacity: on
  an empty queue, after \<open>xs\<close> is pushed, the i-th value comes to the front after i pops.\<close>

theorem circular_queue_fifo:
  assumes "cq_invar C q" and "cq_elems C q = []" and "length xs \<le> C" and "i < length xs"
  shows "cq_front ((cq_pop C ^^ i) (fold (\<lambda>x q. snd (cq_push C x q)) xs q)) = xs ! i"
  using assms by (rule cq.fifo_order)

theorem circular_queue_fifo_witness:
  "cq_front ((cq_pop 3 ^^ 2) (fold (\<lambda>x q. snd (cq_push 3 x q)) [10, 20, 30 :: nat]
     \<lparr>q_at = 1, q_size = 0, q_data = [0, 0, 0]\<rparr>)) = 30"
  using circular_queue_fifo [of 3 "\<lparr>q_at = 1, q_size = 0, q_data = [0, 0, 0 :: nat]\<rparr>" "[10, 20, 30]" 2]
  by (simp add: cq_invar_def cq_elems_def)

text \<open>C32. The map below its capacity behaves as a finite map: after an insertion under a new key, that key is
  found with its value and every other key as before; and removing any key that is present, wherever it lies
  and although the removal moves the last entry into its slot, takes away that key and changes no other one.\<close>

theorem map_insert_find_remove:
  assumes "map_invar C m" and "q_size m < C" and "map_get C k m = None"
    and "q_size (map_insert C k v m) < C"
  shows "map_invar C (map_insert C k v m) \<and>
    (\<forall>k'. map_get C k' (map_insert C k v m) = (if k' = k then Some v else map_get C k' m)) \<and>
    (\<forall>j. map_get C j (map_insert C k v m) \<noteq> None \<longrightarrow>
       map_invar C (map_remove C j (map_insert C k v m)) \<and>
       (\<forall>k'. map_get C k' (map_remove C j (map_insert C k v m)) =
          (if k' = j then None else map_get C k' (map_insert C k v m))))"
  using smap.put_get [OF assms] smap.remove_get [OF smap.put_get(1) [OF assms] assms(4)] by blast

theorem map_insert_find_remove_witness:
  "let m = \<lparr>q_at = 2, q_size = 1, q_data = [\<lparr>e_key = 0, e_value = 0\<rparr>, \<lparr>e_key = 0, e_value = 0\<rparr>,
        \<lparr>e_key = 5, e_value = 50 :: nat\<rparr>]\<rparr> :: (nat, nat) Map
   in map_get 3 7 (map_insert 3 7 70 m) = Some 70 \<and>
      map_get 3 5 (map_remove 3 5 (map_insert 3 7 70 m)) = None \<and>
      map_get 3 7 (map_remove 3 5 (map_insert 3 7 70 m)) = Some 70"
proof -
  let ?m = "\<lparr>q_at = 2, q_size = 1, q_data = [\<lparr>e_key = 0, e_value = 0\<rparr>,
      \<lparr>e_key = 0, e_value = 0\<rparr>, \<lparr>e_key = 5, e_value = 50 :: nat\<rparr>]\<rparr> :: (nat, nat) Map"
  have inv: "map_invar 3 ?m" by (simp add: map_invar_def cq_invar_def map_keys_def cq_elems_def)
  have get: "map_get 3 7 ?m = None" "map_get 3 5 ?m = Some 50"
    using smap.get_lookup [OF inv] by (simp_all add: map_spec_def cq_elems_def)
  show ?thesis
    using map_insert_find_remove [OF inv _ get(1), of 70] get(2)
    by (simp add: Let_def) (simp add: map_insert_def cq_push_def)
qed

text \<open>C33. A full map hides its oldest entry: \<^verbatim>\<open>end()\<close> of a full queue is the address of the
  front slot, so the lookup of the key stored there reports that it is absent.\<close>

theorem map_full_hides_front:
  assumes "map_invar C m" and "q_size m = C"
  shows "map_get C (e_key (cq_elems C m ! 0)) m = None \<and>
    map_spec C m (e_key (cq_elems C m ! 0)) \<noteq> None"
proof -
  have cq: "cq_invar C m" and C: "0 < C" "q_at m < C"
    using assms(1) by (simp_all add: map_invar_def cq_invar_def)
  have "map_find C (e_key (cq_elems C m ! 0)) m = cq_index C m 0"
    using assms C by (intro map_find_present) simp_all
  also have "\<dots> = cq_end C m" using cq C assms(2) by (simp add: cq_end_def cq_index_eq)
  finally show ?thesis
    using assms(2) C
    by (simp add: map_get_def map_spec_None map_keys_def)
qed

theorem map_full_hides_front_witness:
  "map_get 1 (5 :: nat) \<lparr>q_at = 0, q_size = 1, q_data = [\<lparr>e_key = 5, e_value = 50 :: nat\<rparr>]\<rparr> = None"
  using map_full_hides_front [of 1 "\<lparr>q_at = 0, q_size = 1,
      q_data = [\<lparr>e_key = 5, e_value = 50 :: nat\<rparr>]\<rparr> :: (nat, nat) Map"]
  by (simp add: map_invar_def cq_invar_def map_keys_def cq_elems_def)

text \<open>C34. The pool never hands out an object that is in use, fails only when all of them
  are, and takes back exactly the object that is freed.\<close>

theorem pool_no_double_allocation:
  assumes "pool_invar n p"
  shows "(fst (pool_allocate p) = None \<longleftrightarrow> pool_used n p = {..<n}) \<and>
    (\<forall>i. fst (pool_allocate p) = Some i \<longrightarrow> i < n \<and> i \<notin> pool_used n p \<and>
       pool_used n (snd (pool_allocate p)) = insert i (pool_used n p)) \<and>
    (\<forall>i \<in> pool_used n p. \<exists>p'. pool_free i p = Some p' \<and> pool_invar n p' \<and>
       pool_used n p' = pool_used n p - {i})"
  using pool.alloc_None [OF assms] pool.alloc_Some [OF assms] pool.release_used [OF assms]
  by blast

theorem pool_no_double_allocation_witness:
  "fst (pool_allocate (pool_new 2)) = Some 1 \<and> 1 \<notin> pool_used 2 (pool_new 2)"
  using pool_no_double_allocation [of 2 "pool_new 2"]
  by (simp add: pool_new_invar) (simp add: pool_allocate_def pool_new_def)

end
