(* ===== verification/Channel.thy ===== *)
theory Channel
  imports Faux_Prelude
begin

text \<open>
  The shared-memory message channel (\<open>messaging/include/channel.h\<close>,
  \<open>messaging/include/channel_interface.h\<close>, the channel part of \<open>messaging/channel.cpp\<close>).

  One direction of a channel, a \<^verbatim>\<open>HalfChannel\<close>, is a byte buffer of \<^verbatim>\<open>SHARED_SIZE\<close> bytes (the argument
  \<open>S\<close>, \<^verbatim>\<open>CONFIG_CHANNEL_BUF_SIZE\<close> of the build) with the sender's \<^verbatim>\<open>head\<close> and \<^verbatim>\<open>tail\<close> and the receiver's
  \<^verbatim>\<open>next\<close>.  Messages carry their header in the buffer, at cache-line boundaries, and the model reads and
  writes it there byte by byte; payload bytes overlay the same lines.  A pointer into the buffer is its
  offset.  The compile-time switches are those of \<open>channel_conf.h\<close>: no scratch buffer, no SSE, the
  allocator on, and the readiness test by compare-and-exchange, which leaves the byte as it is.
  The operations of the two ends are steps of one sequence, so a compare-and-exchange compares with the
  value just read.
\<close>

section \<open>Headers in the buffer\<close>

type_synonym mem = "nat \<Rightarrow> u8"

record HalfChannel =
  hc_head :: nat
  hc_tail :: nat
  hc_next :: nat
  hc_shared :: mem

text \<open>The packed header \<^verbatim>\<open>Message\<close>: \<^verbatim>\<open>uint16_t size\<close>, \<^verbatim>\<open>uint16_t alloced\<close>, \<^verbatim>\<open>bool ready\<close> and three
  more bytes.\<close>

definition MESSAGE :: nat where
  "MESSAGE = 8"

definition CACHELINE_SIZE :: nat where
  "CACHELINE_SIZE = 64"

definition get_u16 :: "mem \<Rightarrow> nat \<Rightarrow> nat" where
  "get_u16 m off = unat (m off) + 256 * unat (m (off + 1))"

definition put_u16 :: "nat \<Rightarrow> nat \<Rightarrow> mem \<Rightarrow> mem" where
  "put_u16 off v m = m(off := of_nat v, off + 1 := of_nat (v div 256))"

definition msg_size :: "mem \<Rightarrow> nat \<Rightarrow> nat" where
  "msg_size m off = get_u16 m off"

definition msg_alloced :: "mem \<Rightarrow> nat \<Rightarrow> nat" where
  "msg_alloced m off = get_u16 m (off + 2)"

definition msg_ready :: "mem \<Rightarrow> nat \<Rightarrow> u8" where
  "msg_ready m off = m (off + 4)"

definition set_msg_size :: "nat \<Rightarrow> nat \<Rightarrow> mem \<Rightarrow> mem" where
  "set_msg_size off v m = put_u16 off v m"

definition set_msg_alloced :: "nat \<Rightarrow> nat \<Rightarrow> mem \<Rightarrow> mem" where
  "set_msg_alloced off v m = put_u16 (off + 2) v m"

definition set_msg_ready :: "nat \<Rightarrow> bool \<Rightarrow> mem \<Rightarrow> mem" where
  "set_msg_ready off b m = m(off + 4 := (if b then 1 else 0))"

text \<open>A header lies inside the buffer.\<close>

definition in_shared :: "nat \<Rightarrow> nat \<Rightarrow> bool" where
  "in_shared S off \<longleftrightarrow> off + MESSAGE \<le> S"

definition SENTINEL :: nat where
  "SENTINEL = 65535"

section \<open>The sender\<close>

definition channel_message_size :: "nat \<Rightarrow> nat \<Rightarrow> nat" where
  "channel_message_size S n =
     (let msg = size_t (n + MESSAGE)
      in if msg > size_sub S CACHELINE_SIZE then 0
         else if msg mod CACHELINE_SIZE \<noteq> 0 then msg - msg mod CACHELINE_SIZE + CACHELINE_SIZE
         else msg)"

text \<open>The loop of \<^verbatim>\<open>_channel_gc\<close>, with its variables \<^verbatim>\<open>tail\<close>, \<^verbatim>\<open>freeing\<close> and \<^verbatim>\<open>freed\<close>; not returning is
  \<^term>\<open>None\<close>.\<close>

partial_function (option) gc_loop ::
    "nat \<Rightarrow> nat \<Rightarrow> nat \<Rightarrow> nat \<Rightarrow> nat \<Rightarrow> HalfChannel \<Rightarrow> HalfChannel option" where
  "gc_loop S head tail freeing freed hc =
     (if freeing = head \<or> freed = S then Some hc
      else let freeing = (if S \<le> freeing then 0 else freeing)
      in if \<not> in_shared S freeing then None
         else if msg_ready (hc_shared hc) freeing = 1 then Some hc
         else let sz = msg_size (hc_shared hc) freeing;
                  alloced = msg_alloced (hc_shared hc) freeing;
                  new_tail = (if sz \<noteq> SENTINEL then size_dec (freeing + alloced) else size_dec S)
         in if hc_tail hc \<noteq> tail then Some hc
            else gc_loop S head new_tail (size_t (new_tail + 1)) (size_t (freed + alloced))
                   (hc\<lparr>hc_tail := new_tail\<rparr>))"

definition channel_gc :: "nat \<Rightarrow> HalfChannel \<Rightarrow> HalfChannel option" where
  "channel_gc S hc =
     (let head = hc_head hc;
          tail = hc_tail hc;
          freeing = size_t (tail + 1);
          freed = size_sub (tail + 1) head;
          freed = (if head > tail then size_sub S freed else freed);
          freed = (if freed > S then 0 else freed)
      in gc_loop S head tail freeing freed hc)"

text \<open>The choice of the place, made before and after a collection: the offset and whether the message
  wraps around.\<close>

definition place :: "nat \<Rightarrow> nat \<Rightarrow> nat \<Rightarrow> nat \<Rightarrow> (nat \<times> bool) option" where
  "place S head tail alloced_size =
     (if (head < tail \<and> alloced_size \<le> tail + 1 - head)
         \<or> (head > tail \<and> alloced_size \<le> size_sub S head) then Some (head, False)
      else if head > tail \<and> alloced_size \<le> tail + 1 then Some (0, True)
      else None)"

definition put_sentinel :: "nat \<Rightarrow> nat \<Rightarrow> mem \<Rightarrow> mem" where
  "put_sentinel S head m =
     set_msg_ready head True (set_msg_alloced head (size_sub S head) (set_msg_size head SENTINEL m))"

text \<open>From line 263 on: the new head, the full mark, and the header of the message.\<close>

definition allocate_at ::
    "nat \<Rightarrow> nat \<Rightarrow> nat \<Rightarrow> nat \<Rightarrow> nat \<Rightarrow> bool \<Rightarrow> HalfChannel \<Rightarrow> (nat option \<times> HalfChannel) option" where
  "allocate_at S head tail alloced_start alloced_size wrapped hc =
     (let new_head = alloced_start + alloced_size;
          hc = (if new_head = tail + 1 \<and> hc_tail hc = tail then hc\<lparr>hc_tail := S\<rparr> else hc);
          new_head = (if S \<le> new_head then 0 else new_head)
      in if hc_head hc \<noteq> head then Some (None, hc)
         else let hc = hc\<lparr>hc_head := new_head\<rparr>
         in if wrapped \<and> \<not> in_shared S head \<or> \<not> in_shared S alloced_start then None
            else let m = hc_shared hc;
                     m = (if wrapped then put_sentinel S head m else m);
                     m = set_msg_size alloced_start 0 m;
                     m = set_msg_ready alloced_start True m;
                     m = set_msg_alloced alloced_start alloced_size m
            in Some (Some (alloced_start + MESSAGE), hc\<lparr>hc_shared := m\<rparr>))"

text \<open>The result is the payload's offset, \<^term>\<open>Some None\<close> in its place for a null pointer.\<close>

definition channel_allocate ::
    "nat \<Rightarrow> HalfChannel \<Rightarrow> nat \<Rightarrow> (nat option \<times> HalfChannel) option" where
  "channel_allocate S hc n =
     (let head = hc_head hc;
          alloced_size = channel_message_size S n
      in if alloced_size = 0 then Some (None, hc)
         else do {
           hc \<leftarrow> (if hc_tail hc = S then channel_gc S hc else Some hc);
           let tail = hc_tail hc;
           case place S head tail alloced_size of
             Some (start, wrapped) \<Rightarrow> allocate_at S head tail start alloced_size wrapped hc
           | None \<Rightarrow> do {
               hc \<leftarrow> channel_gc S hc;
               let tail = hc_tail hc;
               case place S head tail alloced_size of
                 Some (start, wrapped) \<Rightarrow> allocate_at S head tail start alloced_size wrapped hc
               | None \<Rightarrow>
                   if head > tail
                   then (let hc = (if hc_head hc = head then hc\<lparr>hc_head := 0\<rparr> else hc)
                         in if in_shared S head
                            then Some (None, hc\<lparr>hc_shared := put_sentinel S head (hc_shared hc)\<rparr>)
                            else None)
                   else Some (None, hc)
             }
         })"

definition channel_send :: "nat \<Rightarrow> nat \<Rightarrow> nat \<Rightarrow> HalfChannel \<Rightarrow> HalfChannel option" where
  "channel_send S data n hc =
     (if MESSAGE \<le> data \<and> data \<le> S
      then Some (hc\<lparr>hc_shared := set_msg_size (data - MESSAGE) n (hc_shared hc)\<rparr>)
      else None)"

section \<open>The receiver\<close>

function free_lines :: "nat \<Rightarrow> nat \<Rightarrow> mem \<Rightarrow> mem" where
  "free_lines message end m =
     (if message < end then free_lines (message + CACHELINE_SIZE) end (set_msg_ready message False m)
      else m)"
  by pat_completeness auto
termination
  by (relation "measure (\<lambda>(message, end, m). end - message)") (auto simp: CACHELINE_SIZE_def)

declare free_lines.simps [simp del]

definition channel_free :: "nat \<Rightarrow> nat \<Rightarrow> HalfChannel \<Rightarrow> HalfChannel option" where
  "channel_free S data hc =
     (let message = data - MESSAGE;
          end = message + msg_alloced (hc_shared hc) message
      in if MESSAGE \<le> data \<and> data \<le> S \<and> end \<le> S
         then Some (hc\<lparr>hc_shared := free_lines message end (hc_shared hc)\<rparr>)
         else None)"

text \<open>The result of \<^verbatim>\<open>__channel_poll\<close>: the size, with the offset of the message as \<^verbatim>\<open>next\<close> and
  \<^verbatim>\<open>msg\<close>.  One round per jump to \<^verbatim>\<open>retry\<close>; a second sentinel in a row is read as not ready, so three
  rounds are enough.\<close>

definition CLOSED :: nat where
  "CLOSED = SIZE_MAX"

fun poll_rounds ::
    "nat \<Rightarrow> nat \<Rightarrow> bool \<Rightarrow> nat \<Rightarrow> HalfChannel \<Rightarrow> (nat \<times> nat \<times> HalfChannel) option" where
  "poll_rounds 0 S closed next hc = None"
| "poll_rounds (Suc rounds) S closed next hc =
     (if \<not> in_shared S next then None
      else let m = hc_shared hc
      in if msg_ready m next = 0 \<or> msg_size m next = 0
         then Some (if closed then CLOSED else 0, next, hc)
         else if msg_size m next = SENTINEL
         then (if hc_next hc \<noteq> next then Some (0, next, hc)
               else poll_rounds rounds S closed 0
                      (hc\<lparr>hc_next := 0, hc_shared := set_msg_ready next False m\<rparr>))
         else Some (msg_size m next, next, hc))"

definition channel_poll_msg :: "nat \<Rightarrow> bool \<Rightarrow> HalfChannel \<Rightarrow> (nat \<times> nat \<times> HalfChannel) option" where
  "channel_poll_msg S closed hc = poll_rounds 3 S closed (hc_next hc) hc"

definition channel_poll :: "nat \<Rightarrow> bool \<Rightarrow> HalfChannel \<Rightarrow> (nat \<times> HalfChannel) option" where
  "channel_poll S closed hc = map_option (\<lambda>(n, _, hc). (n, hc)) (channel_poll_msg S closed hc)"

definition channel_receive ::
    "nat \<Rightarrow> bool \<Rightarrow> HalfChannel \<Rightarrow> (nat \<times> nat option \<times> HalfChannel) option" where
  "channel_receive S closed hc = do {
     (n, next, hc) \<leftarrow> channel_poll_msg S closed hc;
     if n = CLOSED \<or> n = 0 then Some (n, None, hc)
     else let new_next = next + msg_alloced (hc_shared hc) next;
              new_next = (if S \<le> new_next then 0 else new_next)
     in if hc_next hc \<noteq> next then Some (0, None, hc)
        else Some (n, Some (next + MESSAGE), hc\<lparr>hc_next := new_next\<rparr>)
   }"

text \<open>Several channels, each with its \<^verbatim>\<open>closed\<close> flag.\<close>

fun channel_multi_poll ::
    "nat \<Rightarrow> (bool \<times> HalfChannel) list \<Rightarrow> (nat \<times> (bool \<times> HalfChannel) list) option" where
  "channel_multi_poll S [] = Some (0, [])"
| "channel_multi_poll S ((closed, hc) # chans) = do {
     (n, hc) \<leftarrow> channel_poll S closed hc;
     (count, chans) \<leftarrow> channel_multi_poll S chans;
     Some ((if n > 0 then count + 1 else count), (closed, hc) # chans)
   }"

text \<open>One of the two \<^verbatim>\<open>for\<close> loops of \<^verbatim>\<open>channel_select\<close>: the positions \<open>js\<close> in order, up to the first
  that delivers.\<close>

fun select_scan ::
    "nat \<Rightarrow> nat list \<Rightarrow> (bool \<times> HalfChannel) list
     \<Rightarrow> ((nat \<times> nat option \<times> nat) option \<times> (bool \<times> HalfChannel) list) option" where
  "select_scan S [] chans = Some (None, chans)"
| "select_scan S (j # js) chans = do {
     let (closed, hc) = chans ! j;
     (n, data, hc) \<leftarrow> channel_receive S closed hc;
     let chans = chans[j := (closed, hc)];
     if n \<noteq> 0 then Some (Some (n, data, j), chans) else select_scan S js chans
   }"

partial_function (option) select_loop ::
    "nat \<Rightarrow> nat \<Rightarrow> bool \<Rightarrow> (bool \<times> HalfChannel) list
     \<Rightarrow> ((nat \<times> nat option \<times> nat) option \<times> (bool \<times> HalfChannel) list) option" where
  "select_loop S i blocking chans =
     Option.bind (select_scan S ([i..<length chans] @ [0..<i]) chans)
       (\<lambda>(r, chans).
          if r \<noteq> None then Some (r, chans)
          else if blocking then select_loop S i blocking chans else Some (None, chans))"

text \<open>The result: the size, the payload, the position and the channels.\<close>

definition channel_select ::
    "nat \<Rightarrow> (bool \<times> HalfChannel) list \<Rightarrow> bool \<Rightarrow> int
     \<Rightarrow> (nat \<times> nat option \<times> int \<times> (bool \<times> HalfChannel) list) option" where
  "channel_select S chans blocking pos =
     (if chans = [] then Some (0, None, - 1, chans)
      else let i = pos + 1;
               i = (if i < 0 \<or> int (length chans) \<le> i then 0 else i)
      in do {
        (r, chans) \<leftarrow> select_loop S (nat i) blocking chans;
        Some (case r of
            None \<Rightarrow> (0, None, pos, chans)
          | Some (n, data, j) \<Rightarrow> (n, data, int j, chans))
      })"

section \<open>The two ends\<close>

text \<open>The memory of one channel: the \<^verbatim>\<open>closed\<close> flag and the two half channels behind it.  The owner of
  the memory receives on the first and sends on the second, the other end the other way round.\<close>

record ChannelBuf =
  cb_closed :: bool
  cb_first :: HalfChannel
  cb_second :: HalfChannel

record Channel =
  ch_owned :: bool
  ch_remote_ep_addr :: nat

definition half_setup :: "nat \<Rightarrow> HalfChannel \<Rightarrow> HalfChannel" where
  "half_setup S hc = hc\<lparr>hc_head := 0, hc_tail := S - 1, hc_next := 0\<rparr>"

definition channel_setup_owned :: "nat \<Rightarrow> nat \<Rightarrow> ChannelBuf \<Rightarrow> Channel \<times> ChannelBuf" where
  "channel_setup_owned S remote_ep_addr buf =
     (\<lparr>ch_owned = True, ch_remote_ep_addr = remote_ep_addr\<rparr>,
      buf\<lparr>cb_closed := False, cb_first := half_setup S (cb_first buf),
          cb_second := half_setup S (cb_second buf)\<rparr>)"

definition channel_setup_non_owned :: "nat \<Rightarrow> Channel" where
  "channel_setup_non_owned remote_ep_addr = \<lparr>ch_owned = False, ch_remote_ep_addr = remote_ep_addr\<rparr>"

definition chan_in :: "Channel \<Rightarrow> ChannelBuf \<Rightarrow> HalfChannel" where
  "chan_in chan buf = (if ch_owned chan then cb_first buf else cb_second buf)"

definition chan_out :: "Channel \<Rightarrow> ChannelBuf \<Rightarrow> HalfChannel" where
  "chan_out chan buf = (if ch_owned chan then cb_second buf else cb_first buf)"

definition channel_get_remote_address :: "Channel \<Rightarrow> nat" where
  "channel_get_remote_address chan = ch_remote_ep_addr chan"

text \<open>Closing: the first of the two ends to close sets the flag, and when the owner closes, the buffer
  goes to the front of the endpoint's pool; when the other end is the second to close it clears the
  flag.\<close>

definition channel_close ::
    "Channel \<Rightarrow> 'buf \<Rightarrow> ChannelBuf \<Rightarrow> 'buf list \<Rightarrow> ChannelBuf \<times> 'buf list" where
  "channel_close chan addr buf local_chan_pool =
     (if ch_owned chan then (buf\<lparr>cb_closed := True\<rparr>, addr # local_chan_pool)
      else (buf\<lparr>cb_closed := \<not> cb_closed buf\<rparr>, local_chan_pool))"

end
