(* ===== verification/Dispatch.thy ===== *)
theory Dispatch
  imports Containers Channel
begin

text \<open>
  The dispatcher of a process (\<open>messaging/dispatch.cpp\<close>, \<open>messaging/include/dispatch.h\<close>): it polls the channels of
  the process, sorts what arrives into requests, responses and notifications, and gives each transaction its response.

  A message is its header and the bytes behind it.  The objects of \<^verbatim>\<open>pending_pool\<close> are named by their index, and the
  queues hold indices as the code holds pointers; a \<^verbatim>\<open>Channel *\<close> is an address in \<open>dp_heap\<close>.  What a poll of the
  channels by \<^verbatim>\<open>channel_select\<close> finds depends on the other processes and is an argument.  User threads are not
  modelled: where control passes to another thread the result says so.  The calls of the callbacks, the closed channels
  and the released messages are recorded in order.
\<close>

section \<open>State\<close>

record DispatchHeader =
  hdr_handler :: int
  hdr_transaction :: int

text \<open>\<^verbatim>\<open>PendingMessage\<close>: the header, the bytes behind it, and the channel it came from.\<close>

record PendingMessage =
  pm_hdr :: DispatchHeader
  pm_data :: "u8 list"
  pm_from :: nat

abbreviation MAX_PENDING_REQUESTS :: nat where "MAX_PENDING_REQUESTS \<equiv> 64"
abbreviation MAX_TRANSACTIONS :: nat where "MAX_TRANSACTIONS \<equiv> 1024"

text \<open>The members of \<^verbatim>\<open>Dispatcher\<close>; the current thread of \<open>threading.cpp\<close> and the number of its threads; the variable
  \<^verbatim>\<open>pmsg\<close> that \<^verbatim>\<open>_dispatchPoll\<close> keeps between its calls; what is recorded.  Handlers and the idle target are named by numbers.\<close>

record Dispatcher =
  dp_request_endpoints :: "nat list"
  dp_response_endpoint :: "nat option"
  dp_channels :: "nat list"
  dp_heap :: "nat \<Rightarrow> Channel"
  dp_openned_channels :: "(nat \<times> nat) list"
  dp_handlers :: "int \<rightharpoonup> nat"
  dp_idle_target :: "nat option"
  dp_pending_requests :: "nat CircularQueue"
  dp_pending_responses :: "nat CircularQueue"
  dp_pending_response_map :: "(int, nat) Map"
  dp_pending_pool :: Pool
  dp_messages :: "nat \<Rightarrow> PendingMessage"
  dp_threads :: "(int, nat) Map"
  dp_running :: bool
  dp_active :: int
  dp_current_thread :: "nat option"
  dp_num_threads :: nat
  dp_pmsg :: "nat option"
  dp_notify_callback :: bool
  dp_notified :: "u8 list list"
  dp_close_callback :: bool
  dp_close_called :: "nat list"
  dp_closed :: "Channel list"
  dp_freed :: "(nat \<times> u8 list) list"

text \<open>What \<^verbatim>\<open>channel_select\<close> finds: nothing, a message at a position of the list of channels, or that the channel
  there has been closed.\<close>

datatype Arrival = Nothing | Incoming nat DispatchHeader "u8 list" | ChannelClosed nat

text \<open>The dispatcher of a process that starts: it is a static object, so what its constructors leave is zero.\<close>

definition Dispatcher_new :: Dispatcher where
  "Dispatcher_new =
     \<lparr>dp_request_endpoints = [], dp_response_endpoint = None, dp_channels = [],
      dp_heap = (\<lambda>_. \<lparr>ch_owned = False, ch_remote_ep_addr = 0\<rparr>), dp_openned_channels = [], dp_handlers = Map.empty, dp_idle_target = None,
      dp_pending_requests = cq_new (replicate MAX_PENDING_REQUESTS 0), dp_pending_responses = cq_new (replicate MAX_TRANSACTIONS 0),
      dp_pending_response_map = cq_new (replicate MAX_TRANSACTIONS \<lparr>e_key = 0, e_value = 0\<rparr>), dp_pending_pool = pool_new MAX_TRANSACTIONS,
      dp_messages = (\<lambda>_. \<lparr>pm_hdr = \<lparr>hdr_handler = 0, hdr_transaction = 0\<rparr>, pm_data = [], pm_from = 0\<rparr>),
      dp_threads = cq_new (replicate MAX_TRANSACTIONS \<lparr>e_key = 0, e_value = 0\<rparr>), dp_running = False, dp_active = 0,
      dp_current_thread = None, dp_num_threads = 1, dp_pmsg = None, dp_notify_callback = False, dp_notified = [],
      dp_close_callback = False, dp_close_called = [], dp_closed = [], dp_freed = []\<rparr>"

section \<open>Channels\<close>

text \<open>\<^verbatim>\<open>_dispatchCloseChannel\<close>: the last channel is copied over the closed one, and the pointers to it are moved.\<close>

definition redirect :: "nat \<Rightarrow> nat \<Rightarrow> nat \<Rightarrow> nat" where
  "redirect from to c = (if c = from then to else c)"

definition dispatchCloseChannel :: "nat \<Rightarrow> Dispatcher \<Rightarrow> Dispatcher" where
  "dispatchCloseChannel pos d =
     (let from = last (dp_channels d);
          to = dp_channels d ! pos;
          requests = cq_elems MAX_PENDING_REQUESTS (dp_pending_requests d)
      in d\<lparr>dp_closed := dp_closed d @ [dp_heap d to],
           dp_heap := (dp_heap d)(to := dp_heap d from),
           dp_channels := butlast (dp_channels d),
           dp_openned_channels := map (\<lambda>(a, c). (a, redirect from to c)) (dp_openned_channels d),
           dp_messages := (\<lambda>i. if i \<in> set requests then (dp_messages d i)\<lparr>pm_from := redirect from to (pm_from (dp_messages d i))\<rparr>
                               else dp_messages d i)\<rparr>)"

text \<open>\<^verbatim>\<open>_dispatchCloseChannelCallback\<close>.\<close>

definition dispatchCloseChannelCallback :: "nat \<Rightarrow> Dispatcher \<Rightarrow> Dispatcher" where
  "dispatchCloseChannelCallback pos d =
     (if dp_close_callback d then d\<lparr>dp_close_called := dp_close_called d @ [dp_channels d ! pos]\<rparr> else d)"

text \<open>\<^verbatim>\<open>_dispatchAcceptChannels\<close>: \<open>accepted\<close> are the channels that \<^verbatim>\<open>endpoint_accept\<close> returns, one after the other.\<close>

definition dispatchAcceptChannels :: "nat \<Rightarrow> nat list \<Rightarrow> Dispatcher \<Rightarrow> Dispatcher option" where
  "dispatchAcceptChannels MAX_CHANNELS accepted d =
     (if length (dp_channels d) = MAX_CHANNELS then None
      else Some (d\<lparr>dp_channels := dp_channels d @ accepted\<rparr>))"

text \<open>\<^verbatim>\<open>dispatchOpen\<close>: \<open>ep\<close> is the endpoint that \<^verbatim>\<open>client_endpoint_create\<close> returns, \<open>conn\<close> the channel, and
  its address, that \<^verbatim>\<open>endpoint_connect\<close> returns.\<close>

definition dispatchOpen :: "nat \<Rightarrow> nat \<Rightarrow> nat \<times> Channel \<Rightarrow> nat \<Rightarrow> Dispatcher \<Rightarrow> nat option \<times> Dispatcher" where
  "dispatchOpen MAX_CHANNELS ep conn peer d =
     (let d = (if dp_response_endpoint d = None then d\<lparr>dp_response_endpoint := Some ep\<rparr> else d)
      in case map_of (dp_openned_channels d) peer of
           Some chan \<Rightarrow> (Some chan, d)
         | None \<Rightarrow>
             if length (dp_openned_channels d) = MAX_CHANNELS then (None, d)
             else (Some (fst conn), d\<lparr>dp_heap := (dp_heap d)(fst conn := snd conn), dp_channels := dp_channels d @ [fst conn],
                                      dp_openned_channels := (peer, fst conn) # dp_openned_channels d\<rparr>))"

definition dispatchListen :: "nat \<Rightarrow> Dispatcher \<Rightarrow> Dispatcher" where
  "dispatchListen endpoint d = d\<lparr>dp_request_endpoints := dp_request_endpoints d @ [endpoint]\<rparr>"

definition dispatchListenChannel :: "nat \<Rightarrow> Dispatcher \<Rightarrow> Dispatcher" where
  "dispatchListenChannel chan d = d\<lparr>dp_channels := dp_channels d @ [chan]\<rparr>"

text \<open>The loop of \<^verbatim>\<open>dispatchIgnore\<close> and \<^verbatim>\<open>dispatchIgnoreChannel\<close>: a match is replaced by the last element, and the
  position is looked at again.\<close>

function ignore_from :: "nat \<Rightarrow> nat \<Rightarrow> nat list \<Rightarrow> nat list" where
  "ignore_from x i v =
     (if i < length v
      then if v ! i = x then ignore_from x i (butlast (v[i := last v])) else ignore_from x (i + 1) v
      else v)"
  by auto
termination
  by (relation "measure (\<lambda>(x, i, v). length v - i)") auto

declare ignore_from.simps [simp del]

definition dispatchIgnore :: "nat \<Rightarrow> Dispatcher \<Rightarrow> Dispatcher" where
  "dispatchIgnore endpoint d = d\<lparr>dp_request_endpoints := ignore_from endpoint 0 (dp_request_endpoints d)\<rparr>"

definition dispatchIgnoreChannel :: "nat \<Rightarrow> Dispatcher \<Rightarrow> Dispatcher" where
  "dispatchIgnoreChannel chan d = d\<lparr>dp_channels := ignore_from chan 0 (dp_channels d)\<rparr>"

section \<open>Handlers and threads\<close>

text \<open>\<^verbatim>\<open>error\<close> ends the process.\<close>

definition dispatchRegister :: "int \<Rightarrow> nat \<Rightarrow> Dispatcher \<Rightarrow> Dispatcher option" where
  "dispatchRegister type handler d =
     (if type \<noteq> - 1 then Some (d\<lparr>dp_handlers := (dp_handlers d)(type \<mapsto> handler)\<rparr>) else None)"

definition dispatchUnregister :: "int \<Rightarrow> Dispatcher \<Rightarrow> Dispatcher" where
  "dispatchUnregister type d = d\<lparr>dp_handlers := (dp_handlers d)(type := None)\<rparr>"

definition dispatchIsRunning :: "Dispatcher \<Rightarrow> bool" where
  "dispatchIsRunning d \<longleftrightarrow> dp_running d \<and> dp_current_thread d \<noteq> None"

text \<open>\<^verbatim>\<open>_dispatchShouldYield\<close>.\<close>

definition dispatchShouldYield :: "Dispatcher \<Rightarrow> bool" where
  "dispatchShouldYield d =
     (if \<not> dispatchIsRunning d then False
      else if dp_num_threads d > 1 then True
      else if q_size (dp_pending_requests d) > 0 then True
      else q_size (dp_pending_responses d) > 0 \<and> q_size (dp_threads d) > 0)"

section \<open>Messages\<close>

text \<open>\<^verbatim>\<open>_dispatchProcessMessage\<close>: whether the message has been dealt with.\<close>

definition dispatchProcessMessage :: "nat \<Rightarrow> Dispatcher \<Rightarrow> (bool \<times> Dispatcher) option" where
  "dispatchProcessMessage pmsg d =
     (let m = dp_messages d pmsg
      in if hdr_handler (pm_hdr m) = - 1
         then (let (pushed, q) = cq_push MAX_TRANSACTIONS pmsg (dp_pending_responses d)
               in if pushed then Some (False, d\<lparr>dp_pending_responses := q\<rparr>) else None)
         else if hdr_handler (pm_hdr m) = - 2
         then do {
           let d = (if dp_notify_callback d then d\<lparr>dp_notified := dp_notified d @ [pm_data m]\<rparr> else d);
           let d = d\<lparr>dp_freed := dp_freed d @ [(pm_from m, pm_data m)]\<rparr>;
           pool \<leftarrow> pool_free pmsg (dp_pending_pool d);
           Some (True, d\<lparr>dp_pending_pool := pool\<rparr>)
         }
         else if \<not> dispatchIsRunning d then None
         else Some (False, d\<lparr>dp_pending_requests := snd (cq_push MAX_PENDING_REQUESTS pmsg (dp_pending_requests d))\<rparr>))"

text \<open>The object that \<^verbatim>\<open>_dispatchPoll\<close> receives into.  A null pointer from the pool would be dereferenced.\<close>

definition poll_pmsg :: "Dispatcher \<Rightarrow> (nat \<times> Dispatcher) option" where
  "poll_pmsg d = (case dp_pmsg d of
       Some i \<Rightarrow> Some (i, d)
     | None \<Rightarrow> (case pool_allocate (dp_pending_pool d) of
           (Some i, pool) \<Rightarrow> Some (i, d\<lparr>dp_pending_pool := pool, dp_pmsg := Some i\<rparr>)
         | (None, _) \<Rightarrow> None))"

text \<open>\<^verbatim>\<open>_dispatchPoll\<close> from the allocation of \<^verbatim>\<open>pmsg\<close> on; the loop before it yields to another thread while the queue of requests is
  full.  With nothing to receive the code also reads \<^verbatim>\<open>channels[pos]\<close> for a position that may be outside the list, into
  a member that the next call sets again.\<close>

definition dispatchPoll :: "Arrival \<Rightarrow> Dispatcher \<Rightarrow> (nat option \<times> Dispatcher) option" where
  "dispatchPoll arrival d = do {
     (pmsg, d) \<leftarrow> poll_pmsg d;
     case arrival of
       Nothing \<Rightarrow> Some (None, d)
     | Incoming pos hdr data \<Rightarrow>
         if length (dp_channels d) \<le> pos then None
         else Some (Some pmsg, d\<lparr>dp_messages := (dp_messages d)(pmsg :=
                \<lparr>pm_hdr = hdr, pm_data = data, pm_from = dp_channels d ! pos\<rparr>), dp_pmsg := None\<rparr>)
     | ChannelClosed pos \<Rightarrow>
         if length (dp_channels d) \<le> pos then None
         else Some (None, dispatchCloseChannel pos (dispatchCloseChannelCallback pos d))
   }"

text \<open>\<^verbatim>\<open>_dispatchProcessRequests\<close>: the handler to call, if there is one, with the channel, the transaction and the bytes; the
  message is released after the call.  Without a handler its object is not released.\<close>

definition dispatchProcessRequests :: "Dispatcher \<Rightarrow> ((nat \<times> nat \<times> int \<times> u8 list) option \<times> Dispatcher) option" where
  "dispatchProcessRequests d = do {
     let msg = cq_front (dp_pending_requests d);
     let d = d\<lparr>dp_pending_requests := cq_pop MAX_PENDING_REQUESTS (dp_pending_requests d)\<rparr>;
     let m = dp_messages d msg;
     case dp_handlers d (hdr_handler (pm_hdr m)) of
       None \<Rightarrow> Some (None, d)
     | Some handler \<Rightarrow> do {
         let d = d\<lparr>dp_active := hdr_transaction (pm_hdr m)\<rparr>;
         pool \<leftarrow> pool_free msg (dp_pending_pool d);
         Some (Some (handler, pm_from m, hdr_transaction (pm_hdr m), pm_data m), d\<lparr>dp_pending_pool := pool\<rparr>)
       }
   }"

text \<open>\<^verbatim>\<open>_dispatchProcessResponses\<close>: the thread that control passes to, with its message, if one sleeps on the transaction.\<close>

definition dispatchProcessResponses :: "Dispatcher \<Rightarrow> ((nat \<times> nat) option \<times> Dispatcher) option" where
  "dispatchProcessResponses d =
     (let msg = cq_front (dp_pending_responses d);
          d = d\<lparr>dp_pending_responses := cq_pop MAX_TRANSACTIONS (dp_pending_responses d)\<rparr>;
          txn = hdr_transaction (pm_hdr (dp_messages d msg))
      in case map_get MAX_TRANSACTIONS txn (dp_threads d) of
           Some thread \<Rightarrow> Some (Some (thread, msg), d\<lparr>dp_threads := map_remove MAX_TRANSACTIONS txn (dp_threads d)\<rparr>)
         | None \<Rightarrow>
             if map_get MAX_TRANSACTIONS txn (dp_pending_response_map d) \<noteq> None then None
             else Some (None, d\<lparr>dp_pending_response_map := map_insert MAX_TRANSACTIONS txn msg (dp_pending_response_map d)\<rparr>))"

text \<open>\<^verbatim>\<open>dispatchCheckNotifications\<close>, for the arrivals found by its polls, after which there is nothing; what it does not
  look at is left.\<close>

fun dispatchCheckNotifications :: "Arrival list \<Rightarrow> Dispatcher \<Rightarrow> (Arrival list \<times> Dispatcher) option" where
  "dispatchCheckNotifications [] d = do { (_, d) \<leftarrow> dispatchPoll Nothing d; Some ([], d) }"
| "dispatchCheckNotifications (a # arrivals) d = do {
     (pmsg, d) \<leftarrow> dispatchPoll a d;
     case pmsg of
       None \<Rightarrow> Some (arrivals, d)
     | Some i \<Rightarrow> do {
         (_, d) \<leftarrow> dispatchProcessMessage i d;
         dispatchCheckNotifications arrivals d
       }
   }"

section \<open>Receiving\<close>

text \<open>How the wait for a message ends: with the message; with the thread going to sleep until it is given to it; in another
  thread; or not, when nothing more arrives.\<close>

datatype Wait = Got nat | Sleeps | SwitchesTo nat nat | Waits

text \<open>\<^verbatim>\<open>while(other_response_count--) _dispatchProcessResponses();\<close>\<close>

primrec process_others :: "nat \<Rightarrow> Dispatcher \<Rightarrow> ((nat \<times> nat) option \<times> Dispatcher) option" where
  "process_others 0 d = Some (None, d)"
| "process_others (Suc n) d = do {
     (sw, d) \<leftarrow> dispatchProcessResponses d;
     case sw of Some tm \<Rightarrow> Some (Some tm, d) | None \<Rightarrow> process_others n d
   }"

text \<open>\<^verbatim>\<open>_dispatchWaitForMessage\<close> for the arrivals found by its polls, of which the rest is returned.\<close>

fun dispatchWaitForMessage :: "int \<Rightarrow> nat \<Rightarrow> Arrival list \<Rightarrow> Dispatcher \<Rightarrow> (Wait \<times> Arrival list \<times> Dispatcher) option" where
  "dispatchWaitForMessage txn others [] d = Some (Waits, [], d)"
| "dispatchWaitForMessage txn others (a # arrivals) d = do {
     (pmsg, d) \<leftarrow> dispatchPoll a d;
     case pmsg of
       Some i \<Rightarrow>
         if pm_hdr (dp_messages d i) = \<lparr>hdr_handler = - 1, hdr_transaction = txn\<rparr>
         then do {
           (sw, d) \<leftarrow> process_others others d;
           Some (case sw of Some (t, m) \<Rightarrow> SwitchesTo t m | None \<Rightarrow> Got i, arrivals, d)
         }
         else do {
           (processed, d) \<leftarrow> dispatchProcessMessage i d;
           if dispatchShouldYield d then Some (Sleeps, arrivals, d)
           else dispatchWaitForMessage txn (if processed then others else others + 1) arrivals d
         }
     | None \<Rightarrow>
         if dispatchShouldYield d then Some (Sleeps, arrivals, d)
         else dispatchWaitForMessage txn others arrivals d
   }"

text \<open>\<^verbatim>\<open>dispatchReceive\<close>: the bytes and the channel, when the wait ends with the message.\<close>

datatype Receive = Received "u8 list" nat | NotYet Wait

definition dispatchReceive :: "int \<Rightarrow> Arrival list \<Rightarrow> Dispatcher \<Rightarrow> (Receive \<times> Arrival list \<times> Dispatcher) option" where
  "dispatchReceive txn arrivals d = do {
     (wait, arrivals, d) \<leftarrow>
       (case map_get MAX_TRANSACTIONS txn (dp_pending_response_map d) of
          Some i \<Rightarrow> Some (Got i, arrivals, d\<lparr>dp_pending_response_map := map_remove MAX_TRANSACTIONS txn (dp_pending_response_map d)\<rparr>)
        | None \<Rightarrow> dispatchWaitForMessage txn 0 arrivals d);
     case wait of
       Got i \<Rightarrow>
         if pm_hdr (dp_messages d i) \<noteq> \<lparr>hdr_handler = - 1, hdr_transaction = txn\<rparr> then None
         else do {
           pool \<leftarrow> pool_free i (dp_pending_pool d);
           Some (Received (pm_data (dp_messages d i)) (pm_from (dp_messages d i)), arrivals, d\<lparr>dp_pending_pool := pool\<rparr>)
         }
     | _ \<Rightarrow> Some (NotYet wait, arrivals, d)
   }"

section \<open>The main loop and the end\<close>

text \<open>One run of \<^verbatim>\<open>_dispatchMain\<close>: it ends with the call of a handler, of the idle function, or in another thread.  New
  channels are accepted at the first poll only.\<close>

datatype MainEnd = Calls "(nat \<times> nat \<times> int \<times> u8 list) option" | Resumes "(nat \<times> nat) option" | Idles "nat option"

fun dispatchMain :: "nat \<Rightarrow> nat list option \<Rightarrow> Arrival list \<Rightarrow> Dispatcher \<Rightarrow> (MainEnd \<times> Arrival list \<times> Dispatcher) option" where
  "dispatchMain MAX_CHANNELS accept_new arrivals d =
     (if q_size (dp_pending_requests d) > 0
      then do { (call, d) \<leftarrow> dispatchProcessRequests d; Some (Calls call, arrivals, d) }
      else if q_size (dp_pending_responses d) > 0
      then do { (sw, d) \<leftarrow> dispatchProcessResponses d; Some (Resumes sw, arrivals, d) }
      else do {
        d \<leftarrow> (case accept_new of Some accepted \<Rightarrow> dispatchAcceptChannels MAX_CHANNELS accepted d | None \<Rightarrow> Some d);
        case arrivals of
          [] \<Rightarrow> do { (_, d) \<leftarrow> dispatchPoll Nothing d; Some (Idles (dp_idle_target d), [], d) }
        | a # arrivals \<Rightarrow> do {
            (pmsg, d) \<leftarrow> dispatchPoll a d;
            case pmsg of
              Some i \<Rightarrow> do {
                (_, d) \<leftarrow> dispatchProcessMessage i d;
                dispatchMain MAX_CHANNELS None arrivals d
              }
            | None \<Rightarrow> Some (Idles (dp_idle_target d), arrivals, d)
          }
      })"

declare dispatchMain.simps [simp del]

definition dispatchRegisterIdle :: "nat \<Rightarrow> Dispatcher \<Rightarrow> Dispatcher" where
  "dispatchRegisterIdle tgt d = d\<lparr>dp_idle_target := Some tgt\<rparr>"

definition dispatchUnregisterIdle :: "Dispatcher \<Rightarrow> Dispatcher" where
  "dispatchUnregisterIdle d = d\<lparr>dp_idle_target := None\<rparr>"

text \<open>\<^verbatim>\<open>free_resources\<close>, which is also the destructor and \<^verbatim>\<open>dispatcherFree\<close>.\<close>

definition free_resources :: "Arrival list \<Rightarrow> Dispatcher \<Rightarrow> Dispatcher option" where
  "free_resources arrivals d = do {
     (_, d) \<leftarrow> dispatchCheckNotifications arrivals d;
     Some (d\<lparr>dp_closed := dp_closed d @ map (dp_heap d) (dp_channels d), dp_channels := [],
             dp_response_endpoint := None, dp_running := False\<rparr>)
   }"

definition dispatchReset :: "Dispatcher \<Rightarrow> Dispatcher" where
  "dispatchReset d = d\<lparr>dp_request_endpoints := [], dp_response_endpoint := None, dp_channels := [], dp_openned_channels := [],
     dp_idle_target := None\<rparr>"

section \<open>The responses of a client\<close>

text \<open>A client process has not started the dispatcher and has no threads.  The objects of the pool in use are those in the
  map and in the queue of responses, the one kept for the next poll, and those of \<open>X\<close>, which the code holds in a local variable.\<close>

definition stored :: "Dispatcher \<Rightarrow> nat list" where
  "stored d = map e_value (cq_elems MAX_TRANSACTIONS (dp_pending_response_map d)) @ cq_elems MAX_TRANSACTIONS (dp_pending_responses d)"

definition client_inv :: "nat set \<Rightarrow> Dispatcher \<Rightarrow> bool" where
  "client_inv X d \<longleftrightarrow> \<not> dp_running d \<and> q_size (dp_threads d) = 0
     \<and> cq_invar MAX_TRANSACTIONS (dp_pending_responses d) \<and> map_invar MAX_TRANSACTIONS (dp_pending_response_map d)
     \<and> pool_invar MAX_TRANSACTIONS (dp_pending_pool d)
     \<and> distinct (stored d) \<and> set (stored d) \<inter> (set_option (dp_pmsg d) \<union> X) = {} \<and> set_option (dp_pmsg d) \<inter> X = {}
     \<and> pool_used MAX_TRANSACTIONS (dp_pending_pool d) = set (stored d) \<union> set_option (dp_pmsg d) \<union> X
     \<and> (\<forall>e \<in> set (cq_elems MAX_TRANSACTIONS (dp_pending_response_map d)).
          pm_hdr (dp_messages d (e_value e)) = \<lparr>hdr_handler = - 1, hdr_transaction = e_key e\<rparr>)
     \<and> (\<forall>i \<in> set (cq_elems MAX_TRANSACTIONS (dp_pending_responses d)). hdr_handler (pm_hdr (dp_messages d i)) = - 1)"

text \<open>What the client sees: the responses in the map and in the queue, by transaction, with their bytes and channel.\<close>

definition content_of :: "PendingMessage \<Rightarrow> u8 list \<times> nat" where
  "content_of m = (pm_data m, pm_from m)"

definition known :: "Dispatcher \<Rightarrow> int \<rightharpoonup> u8 list \<times> nat" where
  "known d txn = map_option (\<lambda>i. content_of (dp_messages d i)) (map_spec MAX_TRANSACTIONS (dp_pending_response_map d) txn)"

definition queued :: "Dispatcher \<Rightarrow> (int \<times> u8 list \<times> nat) list" where
  "queued d = map (\<lambda>i. (hdr_transaction (pm_hdr (dp_messages d i)), content_of (dp_messages d i)))
     (cq_elems MAX_TRANSACTIONS (dp_pending_responses d))"

definition load :: "Dispatcher \<Rightarrow> nat" where
  "load d = q_size (dp_pending_response_map d) + q_size (dp_pending_responses d)"

text \<open>Everything that a poll leaves as it is.\<close>

definition same_view :: "Dispatcher \<Rightarrow> Dispatcher \<Rightarrow> bool" where
  "same_view d d' \<longleftrightarrow> dp_pending_response_map d' = dp_pending_response_map d \<and> dp_pending_responses d' = dp_pending_responses d
     \<and> (\<forall>i \<in> set (stored d). dp_messages d' i = dp_messages d i) \<and> dp_notified d' = dp_notified d
     \<and> dp_notify_callback d' = dp_notify_callback d \<and> dp_channels d' = dp_channels d
     \<and> dp_openned_channels d' = dp_openned_channels d \<and> dp_heap d' = dp_heap d"

lemma length_stored: "length (stored d) = load d"
  by (simp add: stored_def load_def)

lemma map_spec_stored:
  "map_spec MAX_TRANSACTIONS (dp_pending_response_map d) txn = Some i \<Longrightarrow> i \<in> set (stored d)"
  by (auto simp: map_spec_def stored_def dest!: map_of_SomeD)

lemma same_view_facts:
  assumes "same_view d d'"
  shows "known d' = known d" "queued d' = queued d" "load d' = load d" "stored d' = stored d"
    "dp_notified d' = dp_notified d" "dp_notify_callback d' = dp_notify_callback d" "dp_channels d' = dp_channels d"
proof -
  have eq: "dp_pending_response_map d' = dp_pending_response_map d" "dp_pending_responses d' = dp_pending_responses d"
    "\<And>i. i \<in> set (stored d) \<Longrightarrow> dp_messages d' i = dp_messages d i" using assms by (simp_all add: same_view_def)
  show "known d' = known d"
  proof
    fix txn
    show "known d' txn = known d txn"
      by (cases "map_spec MAX_TRANSACTIONS (dp_pending_response_map d) txn")
        (auto simp: known_def eq dest!: map_spec_stored)
  qed
  show "queued d' = queued d" using eq(3) by (auto simp: queued_def eq(2) stored_def)
qed (use assms in \<open>simp_all add: same_view_def load_def stored_def\<close>)

section \<open>Steps\<close>

text \<open>An object is free for the next poll as long as fewer responses are stored than there are objects.\<close>

lemma poll_object:
  assumes "client_inv {} d" "load d < MAX_TRANSACTIONS"
  obtains i d1 where "poll_pmsg d = Some (i, d1)" "client_inv {} d1" "dp_pmsg d1 = Some i" "same_view d d1"
proof (cases "dp_pmsg d")
  case (Some i)
  then show thesis using assms that [of i d] by (simp add: same_view_def poll_pmsg_def)
next
  case None
  let ?p = "dp_pending_pool d"
  have inv: "pool_invar MAX_TRANSACTIONS ?p" "pool_used MAX_TRANSACTIONS ?p = set (stored d)"
    using assms(1) None by (simp_all add: client_inv_def)
  have "card (pool_used MAX_TRANSACTIONS ?p) = load d"
    using assms(1) inv(2) by (simp add: client_inv_def distinct_card length_stored)
  then have "0 < p_nfree ?p" using pool_available_card [OF inv(1)] assms(2) by (simp add: pool_available_def)
  from pool_allocate_Some [OF inv(1) this] obtain i p where
    p: "pool_allocate ?p = (Some i, p)" "i \<notin> set (stored d)" "pool_invar MAX_TRANSACTIONS p"
    "pool_used MAX_TRANSACTIONS p = insert i (set (stored d))" by (cases "pool_allocate ?p") (auto simp: inv(2))
  let ?d = "d\<lparr>dp_pending_pool := p, dp_pmsg := Some i\<rparr>"
  have "stored ?d = stored d" by (simp add: stored_def)
  then have "client_inv {} ?d" using assms(1) p(2-4) by (simp add: client_inv_def)
  then show thesis using that [of i ?d] None p(1) by (simp add: same_view_def poll_pmsg_def)
qed

lemma poll_nothing:
  assumes "client_inv {} d" "load d < MAX_TRANSACTIONS"
  obtains d1 where "dispatchPoll Nothing d = Some (None, d1)" "client_inv {} d1" "same_view d d1"
proof -
  obtain i d1 where "poll_pmsg d = Some (i, d1)" "client_inv {} d1" "same_view d d1" by (rule poll_object [OF assms])
  then show thesis using that by (simp add: dispatchPoll_def)
qed

lemma poll_incoming:
  assumes "client_inv {} d" "load d < MAX_TRANSACTIONS" "pos < length (dp_channels d)"
  obtains i d1 where "dispatchPoll (Incoming pos hdr data) d = Some (Some i, d1)" "client_inv {i} d1" "same_view d d1"
    "dp_messages d1 i = \<lparr>pm_hdr = hdr, pm_data = data, pm_from = dp_channels d ! pos\<rparr>" "dp_pmsg d1 = None"
proof -
  obtain i d1 where o1: "poll_pmsg d = Some (i, d1)" "client_inv {} d1" "dp_pmsg d1 = Some i" "same_view d d1" by (rule poll_object [OF assms(1,2)])
  let ?d = "d1\<lparr>dp_messages := (dp_messages d1)(i := \<lparr>pm_hdr = hdr, pm_data = data, pm_from = dp_channels d1 ! pos\<rparr>), dp_pmsg := None\<rparr>"
  have st: "stored ?d = stored d1" "stored d1 = stored d" using o1(4) by (simp_all add: stored_def same_view_def)
  have i: "i \<notin> set (stored d1)" using o1(2,3) by (auto simp: client_inv_def)
  have ne: "e_value e \<noteq> i" if "e \<in> set (cq_elems MAX_TRANSACTIONS (dp_pending_response_map d1))" for e
    using i that by (auto simp: stored_def)
  have nr: "j \<noteq> i" if "j \<in> set (cq_elems MAX_TRANSACTIONS (dp_pending_responses d1))" for j
    using i that by (auto simp: stored_def)
  have "client_inv {i} ?d" using o1(2,3) i ne nr st(1) by (auto simp: client_inv_def)
  moreover have "same_view d ?d" using o1(4) i st(2) by (auto simp: same_view_def)
  moreover have ch: "dp_channels d1 = dp_channels d" using o1(4) by (simp add: same_view_def)
  moreover have "dispatchPoll (Incoming pos hdr data) d = Some (Some i, ?d)" using o1(1) assms(3) ch by (simp add: dispatchPoll_def)
  ultimately show thesis using that [of i ?d] by simp
qed

text \<open>A response that is not waited for is queued, a notification is handed to the callback.\<close>

lemma queue_response:
  assumes "client_inv {i} d" "dp_pmsg d = None" "dp_messages d i = m" "hdr_handler (pm_hdr m) = - 1" "load d < MAX_TRANSACTIONS"
  obtains d1 where "dispatchProcessMessage i d = Some (False, d1)" "client_inv {} d1" "known d1 = known d"
    "queued d1 = queued d @ [(hdr_transaction (pm_hdr m), content_of m)]" "load d1 = load d + 1"
    "dp_notified d1 = dp_notified d" "dp_notify_callback d1 = dp_notify_callback d" "dp_channels d1 = dp_channels d"
proof -
  have cq: "cq_invar MAX_TRANSACTIONS (dp_pending_responses d)" "q_size (dp_pending_responses d) < MAX_TRANSACTIONS"
    using assms(1,5) by (simp_all add: client_inv_def load_def)
  obtain b q where push: "cq_push MAX_TRANSACTIONS i (dp_pending_responses d) = (b, q)" by (rule prod.exhaust)
  have q: "b" "cq_invar MAX_TRANSACTIONS q" "cq_elems MAX_TRANSACTIONS q = cq_elems MAX_TRANSACTIONS (dp_pending_responses d) @ [i]"
    using cq_push_room [OF cq, of i] push by simp_all
  let ?d = "d\<lparr>dp_pending_responses := q\<rparr>"
  have st: "stored ?d = stored d @ [i]" by (simp add: stored_def q(3))
  have "client_inv {} ?d" using assms(1-4) q(2) by (auto simp: client_inv_def st q(3))
  moreover have "q_size q = q_size (dp_pending_responses d) + 1" using arg_cong [OF q(3), of length] by simp
  moreover have "dispatchProcessMessage i d = Some (False, ?d)" using assms(3,4) push q(1) by (simp add: dispatchProcessMessage_def Let_def)
  ultimately show thesis
    using that [of ?d] assms(3) by (simp add: known_def [abs_def] queued_def q(3) load_def)
qed

lemma take_notification:
  assumes "client_inv {i} d" "dp_pmsg d = None" "dp_messages d i = m" "hdr_handler (pm_hdr m) = - 2"
  obtains d1 where "dispatchProcessMessage i d = Some (True, d1)" "client_inv {} d1" "known d1 = known d"
    "queued d1 = queued d" "load d1 = load d" "dp_notified d1 = dp_notified d @ (if dp_notify_callback d then [pm_data m] else [])"
    "dp_notify_callback d1 = dp_notify_callback d" "dp_channels d1 = dp_channels d"
proof -
  have inv: "pool_invar MAX_TRANSACTIONS (dp_pending_pool d)" "i \<in> pool_used MAX_TRANSACTIONS (dp_pending_pool d)"
    "pool_used MAX_TRANSACTIONS (dp_pending_pool d) - {i} = set (stored d)"
    using assms(1,2) by (auto simp: client_inv_def)
  from pool_free_used [OF inv(1,2)] obtain p where p: "pool_free i (dp_pending_pool d) = Some p" "pool_invar MAX_TRANSACTIONS p"
    "pool_used MAX_TRANSACTIONS p = set (stored d)" using inv(3) by auto
  let ?d = "d\<lparr>dp_notified := dp_notified d @ (if dp_notify_callback d then [pm_data m] else []),
      dp_freed := dp_freed d @ [(pm_from m, pm_data m)], dp_pending_pool := p\<rparr>"
  have "stored ?d = stored d" by (simp add: stored_def)
  then have "client_inv {} ?d" using assms(1,2) p(2,3) by (simp add: client_inv_def)
  moreover have "dispatchProcessMessage i d = Some (True, ?d)"
    using assms(3,4) p(1) by (simp add: dispatchProcessMessage_def Let_def)
  ultimately show thesis using that [of ?d] by (simp add: known_def [abs_def] queued_def load_def)
qed

text \<open>A response moves from the queue to the map.\<close>

lemma store_response:
  assumes "client_inv X d" "queued d = (txn, c) # rest" "known d txn = None"
  obtains d1 where "dispatchProcessResponses d = Some (None, d1)" "client_inv X d1" "known d1 = (known d)(txn \<mapsto> c)"
    "queued d1 = rest" "load d1 = load d" "dp_messages d1 = dp_messages d" "dp_pmsg d1 = dp_pmsg d" "dp_notified d1 = dp_notified d"
    "dp_notify_callback d1 = dp_notify_callback d" "dp_channels d1 = dp_channels d"
proof -
  let ?rs = "dp_pending_responses d" and ?rm = "dp_pending_response_map d"
  from assms(2) obtain i js where el: "cq_elems MAX_TRANSACTIONS ?rs = i # js" and i: "hdr_transaction (pm_hdr (dp_messages d i)) = txn"
    "content_of (dp_messages d i) = c" and rest: "rest = map (\<lambda>i. (hdr_transaction (pm_hdr (dp_messages d i)), content_of (dp_messages d i))) js"
    by (auto simp: queued_def Cons_eq_map_conv)
  have inv: "cq_invar MAX_TRANSACTIONS ?rs" "map_invar MAX_TRANSACTIONS ?rm" "q_size (dp_threads d) = 0" using assms(1) by (simp_all add: client_inv_def)
  have sz: "q_size ?rs = Suc (length js)" using arg_cong [OF el, of length] by simp
  have "load d \<le> MAX_TRANSACTIONS"
  proof -
    have "card (set (stored d)) \<le> card {..<MAX_TRANSACTIONS}"
      using assms(1) by (intro card_mono) (auto simp: client_inv_def pool_used_def)
    then show ?thesis using assms(1) by (simp add: client_inv_def distinct_card length_stored)
  qed
  then have room: "q_size ?rm < MAX_TRANSACTIONS" using sz by (simp add: load_def)
  have new: "map_spec MAX_TRANSACTIONS ?rm txn = None" using assms(3) by (simp add: known_def)
  note ins = map_insert_spec [OF inv(2) room new, of i]
  have push: "cq_elems MAX_TRANSACTIONS (map_insert MAX_TRANSACTIONS txn i ?rm) = cq_elems MAX_TRANSACTIONS ?rm @ [\<lparr>e_key = txn, e_value = i\<rparr>]"
    using cq_push_room(3) [of MAX_TRANSACTIONS ?rm "\<lparr>e_key = txn, e_value = i\<rparr>"] inv(2) room by (simp add: map_insert_def map_invar_def)
  have pop: "cq_invar MAX_TRANSACTIONS (cq_pop MAX_TRANSACTIONS ?rs)" "cq_elems MAX_TRANSACTIONS (cq_pop MAX_TRANSACTIONS ?rs) = js"
    using cq_pop_elems [OF inv(1)] sz by (simp_all add: el)
  let ?d = "d\<lparr>dp_pending_responses := cq_pop MAX_TRANSACTIONS ?rs, dp_pending_response_map := map_insert MAX_TRANSACTIONS txn i ?rm\<rparr>"
  have st: "mset (stored ?d) = mset (stored d)" by (simp add: stored_def push pop(2) el)
  have st': "set (stored ?d) = set (stored d)" "distinct (stored ?d) = distinct (stored d)"
    using mset_eq_setD [OF st] mset_eq_imp_distinct_iff [OF st] by simp_all
  have hdr: "pm_hdr (dp_messages d i) = \<lparr>hdr_handler = - 1, hdr_transaction = txn\<rparr>"
    using assms(1) i(1) el by (auto simp: client_inv_def intro: DispatchHeader.equality)
  have "client_inv X ?d" using assms(1) ins(1) pop(1) hdr by (auto simp: client_inv_def st' push pop(2) el)
  moreover have "dispatchProcessResponses d = Some (None, ?d)"
    using inv i(1) new room el sz
    by (simp add: dispatchProcessResponses_def Let_def cq_front_elems [of MAX_TRANSACTIONS] map_get_spec)
       (simp add: map_get_def map_find_def map_find_from.simps Let_def)
  moreover have "known ?d = (known d)(txn \<mapsto> c)" using i(2) by (auto simp: known_def ins(2) fun_eq_iff)
  moreover have "queued ?d = rest" by (simp add: queued_def pop(2) rest)
  moreover have "load ?d = load d" using arg_cong [OF st, of size] by (simp add: length_stored)
  ultimately show thesis using that [of ?d] by simp
qed

lemma store_all:
  assumes "client_inv X d" "distinct (map fst (queued d))" "fst ` set (queued d) \<inter> dom (known d) = {}"
  obtains d1 where "process_others (length (queued d)) d = Some (None, d1)" "client_inv X d1" "known d1 = known d ++ map_of (queued d)"
    "queued d1 = []" "load d1 = load d" "dp_messages d1 = dp_messages d" "dp_pmsg d1 = dp_pmsg d" "dp_notified d1 = dp_notified d"
    "dp_notify_callback d1 = dp_notify_callback d" "dp_channels d1 = dp_channels d"
  using assms
proof (induction "queued d" arbitrary: d thesis)
  case Nil
  then show ?case by simp
next
  case (Cons q rest)
  obtain txn c where q: "q = (txn, c)" by (cases q)
  have qd: "queued d = (txn, c) # rest" using Cons.hyps(2) q by simp
  have "known d txn = None" using Cons.prems(4) qd by auto
  from store_response [OF Cons.prems(2) qd this] obtain d1 where
    d1: "dispatchProcessResponses d = Some (None, d1)" "client_inv X d1" "known d1 = (known d)(txn \<mapsto> c)"
    "queued d1 = rest" "load d1 = load d" "dp_messages d1 = dp_messages d" "dp_pmsg d1 = dp_pmsg d" "dp_notified d1 = dp_notified d"
    "dp_notify_callback d1 = dp_notify_callback d" "dp_channels d1 = dp_channels d" by blast
  have dis: "distinct (map fst (queued d1))" "fst ` set (queued d1) \<inter> dom (known d1) = {}"
    using Cons.prems(3,4) qd d1(3,4) by auto
  obtain d2 where d2: "process_others (length (queued d1)) d1 = Some (None, d2)" "client_inv X d2" "known d2 = known d1 ++ map_of (queued d1)"
    "queued d2 = []" "load d2 = load d1" "dp_messages d2 = dp_messages d1" "dp_pmsg d2 = dp_pmsg d1" "dp_notified d2 = dp_notified d1"
    "dp_notify_callback d2 = dp_notify_callback d1" "dp_channels d2 = dp_channels d1"
    by (rule Cons.hyps(1) [OF d1(4) [symmetric] _ d1(2) dis])
  have "txn \<notin> dom (map_of rest)" using Cons.prems(3) by (simp add: qd dom_map_of_conv_image_fst)
  then have "known d2 = known d ++ map_of (queued d)" by (simp add: d2(3) d1(3,4) qd map_add_upd_left)
  then show ?case using Cons.prems(1) [of d2] d1 d2 by (simp add: qd)
qed

text \<open>The arrivals a client can meet, the responses among them and the notifications.\<close>

definition client_arrival :: "Dispatcher \<Rightarrow> Arrival \<Rightarrow> bool" where
  "client_arrival d a \<longleftrightarrow> (case a of
       Nothing \<Rightarrow> True
     | Incoming pos hdr data \<Rightarrow> pos < length (dp_channels d) \<and> (hdr_handler hdr = - 1 \<or> hdr_handler hdr = - 2)
     | ChannelClosed pos \<Rightarrow> False)"

fun responses_in :: "nat list \<Rightarrow> Arrival list \<Rightarrow> (int \<times> u8 list \<times> nat) list" where
  "responses_in chans [] = []"
| "responses_in chans (Incoming pos hdr data # as) =
     (if hdr_handler hdr = - 1 then [(hdr_transaction hdr, data, chans ! pos)] else []) @ responses_in chans as"
| "responses_in chans (a # as) = responses_in chans as"

fun notes_in :: "Arrival list \<Rightarrow> u8 list list" where
  "notes_in [] = []"
| "notes_in (Incoming pos hdr data # as) = (if hdr_handler hdr = - 2 then [data] else []) @ notes_in as"
| "notes_in (a # as) = notes_in as"

lemma responses_in_append: "responses_in chans (as @ bs) = responses_in chans as @ responses_in chans bs"
  by (induction chans as rule: responses_in.induct) simp_all

lemma not_running: "client_inv X d \<Longrightarrow> \<not> dispatchShouldYield d"
  by (simp add: client_inv_def dispatchShouldYield_def dispatchIsRunning_def)

text \<open>The wait sorts an arrival that it is not for.\<close>

definition is_for :: "int \<Rightarrow> Arrival \<Rightarrow> bool" where
  "is_for txn a \<longleftrightarrow> (\<exists>pos data. a = Incoming pos \<lparr>hdr_handler = - 1, hdr_transaction = txn\<rparr> data)"

lemma wait_sorts:
  assumes "client_inv {} d" "client_arrival d a" "\<not> is_for txn a" "load d < MAX_TRANSACTIONS"
  obtains d1 where
    "\<And>n as. dispatchWaitForMessage txn n (a # as) d = dispatchWaitForMessage txn (n + length (responses_in (dp_channels d) [a])) as d1"
    "client_inv {} d1" "known d1 = known d" "queued d1 = queued d @ responses_in (dp_channels d) [a]"
    "load d1 = load d + length (responses_in (dp_channels d) [a])"
    "dp_notified d1 = dp_notified d @ (if dp_notify_callback d then notes_in [a] else [])"
    "dp_notify_callback d1 = dp_notify_callback d" "dp_channels d1 = dp_channels d"
proof (cases a)
  case Nothing
  obtain d1 where p: "dispatchPoll Nothing d = Some (None, d1)" "client_inv {} d1" "same_view d d1" by (rule poll_nothing [OF assms(1,4)])
  show thesis using p Nothing not_running [OF p(2)] same_view_facts [OF p(3)] by (intro that [of d1]) simp_all
next
  case (Incoming pos hdr data)
  let ?m = "\<lparr>pm_hdr = hdr, pm_data = data, pm_from = dp_channels d ! pos\<rparr>"
  have pos: "pos < length (dp_channels d)" and h: "hdr_handler hdr = - 1 \<or> hdr_handler hdr = - 2"
    using assms(2) Incoming by (simp_all add: client_arrival_def)
  obtain i d1 where p: "dispatchPoll a d = Some (Some i, d1)" "client_inv {i} d1" "same_view d d1"
    "dp_messages d1 i = ?m" "dp_pmsg d1 = None" unfolding Incoming by (rule poll_incoming [OF assms(1,4) pos])
  note same = same_view_facts [OF p(3)]
  have ne: "hdr \<noteq> \<lparr>hdr_handler = - 1, hdr_transaction = txn\<rparr>" using assms(3) Incoming by (auto simp: is_for_def)
  from h show thesis
  proof
    assume r: "hdr_handler hdr = - 1"
    obtain d2 where d2: "dispatchProcessMessage i d1 = Some (False, d2)" "client_inv {} d2" "known d2 = known d1"
      "queued d2 = queued d1 @ [(hdr_transaction (pm_hdr ?m), content_of ?m)]" "load d2 = load d1 + 1"
      "dp_notified d2 = dp_notified d1" "dp_notify_callback d2 = dp_notify_callback d1" "dp_channels d2 = dp_channels d1"
      by (rule queue_response [OF p(2,5,4)]) (use r assms(4) same in simp_all)
    show thesis using p d2 same ne r not_running [OF d2(2)] Incoming by (intro that [of d2]) (simp_all add: content_of_def)
  next
    assume r: "hdr_handler hdr = - 2"
    obtain d2 where d2: "dispatchProcessMessage i d1 = Some (True, d2)" "client_inv {} d2" "known d2 = known d1"
      "queued d2 = queued d1" "load d2 = load d1" "dp_notified d2 = dp_notified d1 @ (if dp_notify_callback d1 then [pm_data ?m] else [])"
      "dp_notify_callback d2 = dp_notify_callback d1" "dp_channels d2 = dp_channels d1"
      by (rule take_notification [OF p(2,5,4)]) (use r in simp_all)
    show thesis using p d2 same ne r not_running [OF d2(2)] Incoming by (intro that [of d2]) simp_all
  qed
next
  case (ChannelClosed pos)
  then show thesis using assms(2) by (simp add: client_arrival_def)
qed

text \<open>The wait sorts everything that arrives before the response.\<close>

lemma wait_gets:
  assumes "client_inv {} d" "n = length (queued d)" "list_all (client_arrival d) (pre @ [Incoming pos \<lparr>hdr_handler = - 1, hdr_transaction = txn\<rparr> data])"
    and "distinct (map fst (queued d @ responses_in (dp_channels d) pre))" "txn \<notin> fst ` set (responses_in (dp_channels d) pre)"
    and "fst ` set (queued d @ responses_in (dp_channels d) pre) \<inter> dom (known d) = {}"
    and "load d + length (responses_in (dp_channels d) pre) < MAX_TRANSACTIONS"
  shows "\<exists>i d'. dispatchWaitForMessage txn n (pre @ Incoming pos \<lparr>hdr_handler = - 1, hdr_transaction = txn\<rparr> data # post) d = Some (Got i, post, d')
     \<and> client_inv {i} d' \<and> dp_messages d' i = \<lparr>pm_hdr = \<lparr>hdr_handler = - 1, hdr_transaction = txn\<rparr>, pm_data = data, pm_from = dp_channels d ! pos\<rparr>
     \<and> dp_pmsg d' = None \<and> known d' = known d ++ map_of (queued d @ responses_in (dp_channels d) pre) \<and> queued d' = []
     \<and> load d' = load d + length (responses_in (dp_channels d) pre)
     \<and> dp_notified d' = dp_notified d @ (if dp_notify_callback d then notes_in pre else [])
     \<and> dp_notify_callback d' = dp_notify_callback d \<and> dp_channels d' = dp_channels d"
  using assms
proof (induction pre arbitrary: d n)
  case Nil
  have c: "load d < MAX_TRANSACTIONS" "pos < length (dp_channels d)" using Nil.prems by (simp_all add: client_arrival_def)
  obtain i d1 where p: "dispatchPoll (Incoming pos \<lparr>hdr_handler = - 1, hdr_transaction = txn\<rparr> data) d = Some (Some i, d1)" "client_inv {i} d1" "same_view d d1"
    "dp_messages d1 i = \<lparr>pm_hdr = \<lparr>hdr_handler = - 1, hdr_transaction = txn\<rparr>, pm_data = data, pm_from = dp_channels d ! pos\<rparr>" "dp_pmsg d1 = None"
    by (rule poll_incoming [OF Nil.prems(1) c])
  note same = same_view_facts [OF p(3)]
  obtain d2 where "process_others (length (queued d1)) d1 = Some (None, d2)" "client_inv {i} d2" "known d2 = known d1 ++ map_of (queued d1)"
    "queued d2 = []" "load d2 = load d1" "dp_messages d2 = dp_messages d1" "dp_pmsg d2 = dp_pmsg d1" "dp_notified d2 = dp_notified d1"
    "dp_notify_callback d2 = dp_notify_callback d1" "dp_channels d2 = dp_channels d1"
    by (rule store_all [OF p(2)]) (use Nil.prems same in simp_all)
  then show ?case using p same Nil.prems(2) by simp
next
  case (Cons a pre)
  let ?ch = "dp_channels d"
  have a: "client_arrival d a" "load d < MAX_TRANSACTIONS" using Cons.prems(3,7) by simp_all
  have nf: "\<not> is_for txn a" using Cons.prems(5) by (cases a) (auto simp: is_for_def)
  have cons: "responses_in ?ch (a # pre) = responses_in ?ch [a] @ responses_in ?ch pre" "notes_in (a # pre) = notes_in [a] @ notes_in pre"
    by (cases a; simp)+
  obtain d1 where d1:
    "\<And>n as. dispatchWaitForMessage txn n (a # as) d = dispatchWaitForMessage txn (n + length (responses_in ?ch [a])) as d1"
    "client_inv {} d1" "known d1 = known d" "queued d1 = queued d @ responses_in ?ch [a]" "load d1 = load d + length (responses_in ?ch [a])"
    "dp_notified d1 = dp_notified d @ (if dp_notify_callback d then notes_in [a] else [])"
    "dp_notify_callback d1 = dp_notify_callback d" "dp_channels d1 = ?ch" by (rule wait_sorts [OF Cons.prems(1) a(1) nf a(2)]) (rule that)
  have ca: "client_arrival d1 = client_arrival d" using d1(8) by (simp add: client_arrival_def [abs_def])
  have "txn \<notin> fst ` set (responses_in ?ch pre)" using Cons.prems(5) by (auto simp: cons)
  then show ?case
    using Cons.IH [of d1 "n + length (responses_in ?ch [a])", OF d1(2)] Cons.prems(2-4,6,7)
    unfolding append_Cons d1(1) d1(3-8) ca cons by (cases "dp_notify_callback d") (simp_all add: add.assoc)
qed

text \<open>The object of a message is released when the message has been received.\<close>

lemma release_message:
  assumes "client_inv {i} d"
  obtains p where "pool_free i (dp_pending_pool d) = Some p" "client_inv {} (d\<lparr>dp_pending_pool := p\<rparr>)"
    "known (d\<lparr>dp_pending_pool := p\<rparr>) = known d" "queued (d\<lparr>dp_pending_pool := p\<rparr>) = queued d" "load (d\<lparr>dp_pending_pool := p\<rparr>) = load d"
proof -
  have inv: "pool_invar MAX_TRANSACTIONS (dp_pending_pool d)" "i \<in> pool_used MAX_TRANSACTIONS (dp_pending_pool d)"
    "pool_used MAX_TRANSACTIONS (dp_pending_pool d) - {i} = set (stored d) \<union> set_option (dp_pmsg d)"
    using assms by (auto simp: client_inv_def)
  from pool_free_used [OF inv(1,2)] obtain p where p: "pool_free i (dp_pending_pool d) = Some p" "pool_invar MAX_TRANSACTIONS p"
    "pool_used MAX_TRANSACTIONS p = set (stored d) \<union> set_option (dp_pmsg d)" using inv(3) by auto
  let ?d = "d\<lparr>dp_pending_pool := p\<rparr>"
  have "stored ?d = stored d" by (simp add: stored_def)
  then have "client_inv {} ?d" using assms p(2,3) by (auto simp: client_inv_def)
  then show thesis using that p(1) by (simp add: known_def [abs_def] queued_def load_def)
qed

text \<open>Taking an entry out of the map leaves the others, in some order.\<close>

lemma map_remove_values:
  assumes "map_invar C m" "map_spec C m k = Some v" "distinct (map e_value (cq_elems C m))"
  shows "set (cq_elems C (map_remove C k m)) = set (cq_elems C m) - {\<lparr>e_key = k, e_value = v\<rparr>}"
    "distinct (map e_value (cq_elems C (map_remove C k m)))"
    "e_value ` set (cq_elems C (map_remove C k m)) = e_value ` set (cq_elems C m) - {v}"
proof -
  let ?m = "map_remove C k m" and ?e = "\<lparr>e_key = k, e_value = v\<rparr>"
  note r = map_remove_spec [OF assms(1), of k, unfolded assms(2), simplified]
  have "e \<in> set (cq_elems C ?m) \<longleftrightarrow> e \<in> set (cq_elems C m) - {?e}" for e
  proof -
    have e: "\<lparr>e_key = e_key e, e_value = e_value e\<rparr> = e" by (cases e) simp
    have "e \<in> set (cq_elems C ?m) \<longleftrightarrow> map_spec C ?m (e_key e) = Some (e_value e)" using map_spec_Some [OF r(1), of "e_key e" "e_value e"] by (simp only: e)
    also have "\<dots> \<longleftrightarrow> map_spec C m (e_key e) = Some (e_value e) \<and> e \<noteq> ?e" using r(3) assms(2) by (auto intro: Entry.equality)
    also have "\<dots> \<longleftrightarrow> e \<in> set (cq_elems C m) - {?e}" using map_spec_Some [OF assms(1), of "e_key e" "e_value e"] by (simp only: e Diff_iff singleton_iff)
    finally show ?thesis .
  qed
  then show set: "set (cq_elems C ?m) = set (cq_elems C m) - {?e}" by blast
  have inj: "inj_on e_value (set (cq_elems C m))" using assms(3) by (simp add: distinct_map)
  have "distinct (cq_elems C ?m)" using r(1) by (auto simp: map_invar_def map_keys_def distinct_map)
  then show "distinct (map e_value (cq_elems C ?m))" using inj by (auto simp: distinct_map set intro: inj_on_subset)
  have "?e \<in> set (cq_elems C m)" using map_spec_Some [OF assms(1)] assms(2) by blast
  then show "e_value ` set (cq_elems C ?m) = e_value ` set (cq_elems C m) - {v}"
    unfolding set using inj by (simp add: inj_on_image_set_diff [OF inj])
qed

text \<open>A response that has arrived before it is asked for.\<close>

lemma receive_known:
  assumes "client_inv {} d" "known d txn = Some (data, from)" "load d < MAX_TRANSACTIONS"
  shows "\<exists>d'. dispatchReceive txn as d = Some (Received data from, as, d') \<and> client_inv {} d' \<and> known d' = (known d)(txn := None)
     \<and> queued d' = queued d \<and> load d' < load d \<and> dp_notified d' = dp_notified d
     \<and> dp_notify_callback d' = dp_notify_callback d \<and> dp_channels d' = dp_channels d"
proof -
  let ?rm = "dp_pending_response_map d"
  from assms(2) obtain i where i: "map_spec MAX_TRANSACTIONS ?rm txn = Some i" "content_of (dp_messages d i) = (data, from)"
    by (auto simp: known_def)
  have inv: "map_invar MAX_TRANSACTIONS ?rm" "q_size ?rm < MAX_TRANSACTIONS" using assms(1,3) by (simp_all add: client_inv_def load_def)
  have dis: "distinct (map e_value (cq_elems MAX_TRANSACTIONS ?rm))" using assms(1) by (simp add: client_inv_def stored_def)
  note rem = map_remove_spec [OF inv(1), of txn, unfolded i(1), simplified] map_remove_values [OF inv(1) i(1) dis]
  have e: "\<lparr>e_key = txn, e_value = i\<rparr> \<in> set (cq_elems MAX_TRANSACTIONS ?rm)" using map_spec_Some [OF inv(1)] i(1) by blast
  then have hdr: "pm_hdr (dp_messages d i) = \<lparr>hdr_handler = - 1, hdr_transaction = txn\<rparr>" using assms(1) by (auto simp: client_inv_def)
  let ?d = "d\<lparr>dp_pending_response_map := map_remove MAX_TRANSACTIONS txn ?rm\<rparr>"
  have i': "i \<in> set (stored d)" using i(1) by (rule map_spec_stored)
  have nr: "i \<notin> set (cq_elems MAX_TRANSACTIONS (dp_pending_responses d))" using assms(1) e by (auto simp: client_inv_def stored_def)
  have st: "set (stored ?d) = set (stored d) - {i}" "distinct (stored ?d)"
    using assms(1) nr rem(5,6) by (auto simp: stored_def client_inv_def)
  have pm: "i \<notin> set_option (dp_pmsg d)" using assms(1) i' by (auto simp: client_inv_def)
  have "client_inv {i} ?d" using assms(1) rem(1,4) st i' pm by (auto simp: client_inv_def)
  then obtain p where p: "pool_free i (dp_pending_pool ?d) = Some p" "client_inv {} (?d\<lparr>dp_pending_pool := p\<rparr>)"
    "known (?d\<lparr>dp_pending_pool := p\<rparr>) = known ?d" "queued (?d\<lparr>dp_pending_pool := p\<rparr>) = queued ?d" "load (?d\<lparr>dp_pending_pool := p\<rparr>) = load ?d"
    by (rule release_message)
  have "dispatchReceive txn as d = Some (Received data from, as, ?d\<lparr>dp_pending_pool := p\<rparr>)"
    using p(1) i hdr by (simp add: dispatchReceive_def map_get_spec [OF inv] content_of_def)
  moreover have "known ?d = (known d)(txn := None)" by (auto simp: known_def rem(3) fun_eq_iff)
  moreover have "load ?d < load d" using length_pos_if_in_set [OF e] by (simp add: load_def rem(2))
  ultimately show ?thesis using p(2-5) by (simp add: queued_def)
qed

section \<open>Every transaction gets its response\<close>

text \<open>A client with what is going to arrive: responses to different transactions, no more than fit, and notifications.\<close>

definition client_ready :: "Dispatcher \<Rightarrow> Arrival list \<Rightarrow> bool" where
  "client_ready d as \<longleftrightarrow> client_inv {} d \<and> queued d = [] \<and> list_all (client_arrival d) as
     \<and> distinct (map fst (responses_in (dp_channels d) as)) \<and> fst ` set (responses_in (dp_channels d) as) \<inter> dom (known d) = {}
     \<and> load d + length (responses_in (dp_channels d) as) < MAX_TRANSACTIONS"

text \<open>The response to each transaction, here already or still to arrive, and the notifications, past and still to arrive.\<close>

definition answers :: "Dispatcher \<Rightarrow> Arrival list \<Rightarrow> int \<rightharpoonup> u8 list \<times> nat" where
  "answers d as = known d ++ map_of (responses_in (dp_channels d) as)"

definition news :: "Dispatcher \<Rightarrow> Arrival list \<Rightarrow> u8 list list" where
  "news d as = dp_notified d @ (if dp_notify_callback d then notes_in as else [])"

lemma notes_in_append: "notes_in (as @ bs) = notes_in as @ notes_in bs"
  by (induction as rule: notes_in.induct) simp_all

lemma split_response:
  "(txn, data, from) \<in> set (responses_in chans as) \<Longrightarrow>
     \<exists>pre pos post. as = pre @ Incoming pos \<lparr>hdr_handler = - 1, hdr_transaction = txn\<rparr> data # post \<and> from = chans ! pos"
proof (induction as)
  case (Cons a as)
  show ?case
  proof (cases "(txn, data, from) \<in> set (responses_in chans as)")
    case True
    then show ?thesis using Cons.IH by (metis append_Cons)
  next
    case False
    then obtain pos hdr where "a = Incoming pos hdr data" "hdr_handler hdr = - 1" "hdr_transaction hdr = txn" "from = chans ! pos"
      using Cons.prems by (cases a) (auto split: if_splits)
    moreover from this have "hdr = \<lparr>hdr_handler = - 1, hdr_transaction = txn\<rparr>" by (cases hdr) simp
    ultimately show ?thesis by (intro exI [of _ "[]"]) simp
  qed
qed simp

lemma map_of_take_out:
  assumes "distinct (map fst (xs @ (k, v) # ys))" "m k = None"
  shows "m ++ map_of xs ++ map_of ys = (m ++ map_of (xs @ (k, v) # ys))(k := None)"
proof
  fix x
  have k: "map_of xs k = None" "map_of ys k = None" using assms(1) by (simp_all add: map_of_eq_None_iff)
  have "map_of xs x = None \<or> map_of ys x = None" using assms(1) by (auto simp: map_of_eq_None_iff)
  then show "(m ++ map_of xs ++ map_of ys) x = ((m ++ map_of (xs @ (k, v) # ys))(k := None)) x"
    using k assms(2) by (cases "x = k"; cases "map_of xs x"; cases "map_of ys x") (simp_all add: map_add_def)
qed

lemma receive_new:
  fixes txn data pos
  defines "own \<equiv> Incoming pos \<lparr>hdr_handler = - 1, hdr_transaction = txn\<rparr> data"
  assumes "client_ready d (pre @ own # post)" "known d txn = None"
  shows "\<exists>d'. dispatchReceive txn (pre @ own # post) d = Some (Received data (dp_channels d ! pos), post, d') \<and> client_inv {} d' \<and> queued d' = []
     \<and> known d' = known d ++ map_of (responses_in (dp_channels d) pre) \<and> load d' = load d + length (responses_in (dp_channels d) pre)
     \<and> dp_notified d' = dp_notified d @ (if dp_notify_callback d then notes_in pre else [])
     \<and> dp_notify_callback d' = dp_notify_callback d \<and> dp_channels d' = dp_channels d"
proof -
  let ?ch = "dp_channels d"
  have rdy: "client_inv {} d" "queued d = []" "list_all (client_arrival d) (pre @ [own])" "distinct (map fst (responses_in ?ch pre))"
    "txn \<notin> fst ` set (responses_in ?ch pre)" "fst ` set (responses_in ?ch pre) \<inter> dom (known d) = {}" "load d + length (responses_in ?ch pre) < MAX_TRANSACTIONS"
    using assms(2) by (auto simp: client_ready_def responses_in_append own_def)
  have get: "map_get MAX_TRANSACTIONS txn (dp_pending_response_map d) = None"
    using assms(3) rdy(1,7) by (simp add: map_get_spec client_inv_def load_def known_def)
  have "\<exists>i d'. dispatchWaitForMessage txn 0 (pre @ own # post) d = Some (Got i, post, d')
     \<and> client_inv {i} d' \<and> dp_messages d' i = \<lparr>pm_hdr = \<lparr>hdr_handler = - 1, hdr_transaction = txn\<rparr>, pm_data = data, pm_from = ?ch ! pos\<rparr>
     \<and> dp_pmsg d' = None \<and> known d' = known d ++ map_of (queued d @ responses_in ?ch pre) \<and> queued d' = []
     \<and> load d' = load d + length (responses_in ?ch pre) \<and> dp_notified d' = dp_notified d @ (if dp_notify_callback d then notes_in pre else [])
     \<and> dp_notify_callback d' = dp_notify_callback d \<and> dp_channels d' = ?ch"
    unfolding own_def by (rule wait_gets) (use rdy in \<open>simp_all add: own_def\<close>)
  then obtain i d1 where w: "dispatchWaitForMessage txn 0 (pre @ own # post) d = Some (Got i, post, d1)" "client_inv {i} d1"
    "dp_messages d1 i = \<lparr>pm_hdr = \<lparr>hdr_handler = - 1, hdr_transaction = txn\<rparr>, pm_data = data, pm_from = ?ch ! pos\<rparr>"
    "known d1 = known d ++ map_of (responses_in ?ch pre)" "queued d1 = []" "load d1 = load d + length (responses_in ?ch pre)"
    "dp_notified d1 = dp_notified d @ (if dp_notify_callback d then notes_in pre else [])"
    "dp_notify_callback d1 = dp_notify_callback d" "dp_channels d1 = ?ch" unfolding rdy(2) append_Nil by (elim exE conjE) (rule that)
  obtain p where p: "pool_free i (dp_pending_pool d1) = Some p" "client_inv {} (d1\<lparr>dp_pending_pool := p\<rparr>)"
    "known (d1\<lparr>dp_pending_pool := p\<rparr>) = known d1" "queued (d1\<lparr>dp_pending_pool := p\<rparr>) = queued d1" "load (d1\<lparr>dp_pending_pool := p\<rparr>) = load d1"
    by (rule release_message [OF w(2)])
  have "dispatchReceive txn (pre @ own # post) d = Some (Received data (?ch ! pos), post, d1\<lparr>dp_pending_pool := p\<rparr>)"
    using get w(1,3) p(1) by (simp add: dispatchReceive_def)
  then show ?thesis using p(2-5) w(4-9) by simp
qed

lemma receive_step:
  assumes "client_ready d as" "answers d as txn = Some (data, from)"
  shows "\<exists>as' d'. dispatchReceive txn as d = Some (Received data from, as', d') \<and> client_ready d' as'
     \<and> answers d' as' = (answers d as)(txn := None) \<and> news d' as' = news d as"
proof -
  let ?ch = "dp_channels d"
  have rdy: "client_inv {} d" "queued d = []" "list_all (client_arrival d) as" "distinct (map fst (responses_in ?ch as))"
    "fst ` set (responses_in ?ch as) \<inter> dom (known d) = {}" "load d + length (responses_in ?ch as) < MAX_TRANSACTIONS"
    using assms(1) by (simp_all add: client_ready_def)
  have arr: "client_arrival d' = client_arrival d" if "dp_channels d' = ?ch" for d' using that by (simp add: client_arrival_def [abs_def])
  show ?thesis
  proof (cases "known d txn")
    case (Some c)
    then have no: "map_of (responses_in ?ch as) txn = None" using rdy(5) by (auto simp: map_of_eq_None_iff)
    then have "known d txn = Some (data, from)" using assms(2) by (simp add: answers_def map_add_def)
    from receive_known [OF rdy(1) this] rdy(6) obtain d' where
      d': "dispatchReceive txn as d = Some (Received data from, as, d')" "client_inv {} d'" "known d' = (known d)(txn := None)"
      "queued d' = queued d" "load d' < load d" "dp_notified d' = dp_notified d" "dp_notify_callback d' = dp_notify_callback d" "dp_channels d' = ?ch"
      by auto
    have "client_ready d' as" using rdy d' arr [OF d'(8)] by (auto simp: client_ready_def)
    moreover have "answers d' as = (answers d as)(txn := None)" using no by (auto simp: answers_def d'(3,8) map_add_def fun_eq_iff split: option.splits)
    ultimately show ?thesis using d' by (auto simp: news_def)
  next
    case None
    then have "map_of (responses_in ?ch as) txn = Some (data, from)" using assms(2) by (auto simp: answers_def)
    then have mem: "(txn, data, from) \<in> set (responses_in ?ch as)" by (rule map_of_SomeD)
    then obtain pre pos post where as: "as = pre @ Incoming pos \<lparr>hdr_handler = - 1, hdr_transaction = txn\<rparr> data # post" "from = ?ch ! pos"
      using split_response by blast
    from receive_new [OF assms(1) [unfolded as(1)] None, folded as] obtain d' where
      d': "dispatchReceive txn as d = Some (Received data from, post, d')" "client_inv {} d'" "queued d' = []"
      "known d' = known d ++ map_of (responses_in ?ch pre)" "load d' = load d + length (responses_in ?ch pre)"
      "dp_notified d' = dp_notified d @ (if dp_notify_callback d then notes_in pre else [])"
      "dp_notify_callback d' = dp_notify_callback d" "dp_channels d' = ?ch" by (elim exE conjE) (rule that)
    have resp: "responses_in ?ch as = responses_in ?ch pre @ (txn, data, from) # responses_in ?ch post"
      by (simp add: as responses_in_append)
    have "client_ready d' post"
      using rdy(3-6) d'(2-5) arr [OF d'(8)] unfolding resp client_ready_def d'(8) by (auto simp: as(1) dom_map_of_conv_image_fst)
    moreover have "answers d' post = (answers d as)(txn := None)"
      using rdy(4) None unfolding resp answers_def d'(4,8) by (rule map_of_take_out)
    moreover have "news d' post = news d as" by (simp add: news_def d'(6,7) as(1) notes_in_append)
    ultimately show ?thesis using d'(1) by blast
  qed
qed

primrec receive_all :: "int list \<Rightarrow> Arrival list \<Rightarrow> Dispatcher \<Rightarrow> (Receive list \<times> Arrival list \<times> Dispatcher) option" where
  "receive_all [] as d = Some ([], as, d)"
| "receive_all (txn # txns) as d = do {
     (r, as, d) \<leftarrow> dispatchReceive txn as d;
     (rs, as, d) \<leftarrow> receive_all txns as d;
     Some (r # rs, as, d)
   }"

text \<open>C9. Every transaction gets its own response.  When a client has several requests outstanding, whose responses and any
  notifications arrive in any order over any of its channels, then asking for the responses in any other order returns,
  for each transaction, the bytes of its response and the channel it came on; none is lost or given twice, every wait ends,
  the objects of the pool are accounted for, and the notifications are handed over in the order in which they arrive.\<close>

theorem responses_demultiplexed:
  assumes "client_ready d as" "distinct txns" "set txns \<subseteq> dom (answers d as)"
  shows "\<exists>as' d'. receive_all txns as d = Some (map (\<lambda>txn. case_prod Received (the (answers d as txn))) txns, as', d')
     \<and> client_ready d' as' \<and> answers d' as' = answers d as |` (- set txns) \<and> news d' as' = news d as"
  using assms
proof (induction txns arbitrary: d as)
  case Nil
  have "answers d as |` UNIV = answers d as" by (simp add: restrict_map_def)
  then show ?case using Nil.prems(1) by simp
next
  case (Cons txn txns)
  then obtain data fr where a: "answers d as txn = Some (data, fr)" by auto
  from receive_step [OF Cons.prems(1) this] obtain as1 d1 where
    d1: "dispatchReceive txn as d = Some (Received data fr, as1, d1)" "client_ready d1 as1"
    "answers d1 as1 = (answers d as)(txn := None)" "news d1 as1 = news d as" by blast
  have same: "answers d1 as1 u = answers d as u" if "u \<in> set txns" for u using that Cons.prems(2) d1(3) by auto
  have "set txns \<subseteq> dom (answers d1 as1)" using Cons.prems(2,3) d1(3) by auto
  from Cons.IH [OF d1(2) _ this] Cons.prems(2) obtain as2 d2 where
    d2: "receive_all txns as1 d1 = Some (map (\<lambda>txn. case_prod Received (the (answers d1 as1 txn))) txns, as2, d2)"
    "client_ready d2 as2" "answers d2 as2 = answers d1 as1 |` (- set txns)" "news d2 as2 = news d1 as1" by auto
  have "answers d2 as2 = answers d as |` (- set (txn # txns))" using d2(3) d1(3) by (auto simp: restrict_map_def fun_eq_iff)
  moreover have "receive_all (txn # txns) as d = Some (map (\<lambda>txn. case_prod Received (the (answers d as txn))) (txn # txns), as2, d2)"
    using d1(1) d2(1) a same by simp
  ultimately show ?case using d2(2,4) d1(4) by simp
qed

section \<open>Two ways to go wrong\<close>

lemma wait_goes_on:
  assumes "client_inv {} d" "list_all (client_arrival d) as" "\<forall>a \<in> set as. \<not> is_for txn a"
    and "load d + length (responses_in (dp_channels d) as) < MAX_TRANSACTIONS"
  shows "\<exists>d'. dispatchWaitForMessage txn n as d = Some (Waits, [], d')"
  using assms
proof (induction as arbitrary: d n)
  case (Cons a as)
  let ?ch = "dp_channels d"
  have a: "client_arrival d a" "\<not> is_for txn a" "load d < MAX_TRANSACTIONS" using Cons.prems(2-4) by simp_all
  have cons: "responses_in ?ch (a # as) = responses_in ?ch [a] @ responses_in ?ch as" by (cases a) simp_all
  obtain d1 where d1:
    "\<And>n as. dispatchWaitForMessage txn n (a # as) d = dispatchWaitForMessage txn (n + length (responses_in ?ch [a])) as d1"
    "client_inv {} d1" "load d1 = load d + length (responses_in ?ch [a])" "dp_channels d1 = ?ch"
    by (rule wait_sorts [OF Cons.prems(1) a]) (rule that)
  have "client_arrival d1 = client_arrival d" using d1(4) by (simp add: client_arrival_def [abs_def])
  then show ?case using Cons.IH [OF d1(2)] Cons.prems(2-4) unfolding d1(1) cons d1(3,4) by simp
qed simp

text \<open>C26. A response that arrives while a client looks for notifications is lost: \<^verbatim>\<open>dispatchCheckNotifications\<close> puts it into the
  queue of responses, where \<^verbatim>\<open>dispatchReceive\<close> does not look, and the client polls for it for ever, whatever else
  arrives.\<close>

theorem check_notifications_loses_response:
  fixes txn data
  assumes "client_ready d []" "known d txn = None" "pos < length (dp_channels d)"
    and "list_all (client_arrival d) as" "\<forall>a \<in> set as. \<not> is_for txn a" "load d + length (responses_in (dp_channels d) as) + 1 < MAX_TRANSACTIONS"
  shows "\<exists>d1 d2. dispatchCheckNotifications [Incoming pos \<lparr>hdr_handler = - 1, hdr_transaction = txn\<rparr> data] d = Some ([], d1)
     \<and> queued d1 = [(txn, data, dp_channels d ! pos)] \<and> dispatchReceive txn as d1 = Some (NotYet Waits, [], d2)"
proof -
  let ?m = "\<lparr>pm_hdr = \<lparr>hdr_handler = - 1, hdr_transaction = txn\<rparr>, pm_data = data, pm_from = dp_channels d ! pos\<rparr>"
  have rdy: "client_inv {} d" "load d < MAX_TRANSACTIONS" "queued d = []" using assms(1) by (simp_all add: client_ready_def)
  obtain i d1 where p: "dispatchPoll (Incoming pos (pm_hdr ?m) data) d = Some (Some i, d1)" "client_inv {i} d1" "same_view d d1"
    "dp_messages d1 i = \<lparr>pm_hdr = pm_hdr ?m, pm_data = data, pm_from = dp_channels d ! pos\<rparr>" "dp_pmsg d1 = None"
    by (rule poll_incoming [OF rdy(1,2) assms(3)])
  note same = same_view_facts [OF p(3)]
  obtain d2 where d2: "dispatchProcessMessage i d1 = Some (False, d2)" "client_inv {} d2" "known d2 = known d1"
    "queued d2 = queued d1 @ [(hdr_transaction (pm_hdr ?m), content_of ?m)]" "load d2 = load d1 + 1" "dp_channels d2 = dp_channels d1"
    by (rule queue_response [OF p(2,5), of ?m]) (use p(4) rdy(2) same in simp_all)
  obtain d3 where d3: "dispatchPoll Nothing d2 = Some (None, d3)" "client_inv {} d3" "same_view d2 d3"
    by (rule poll_nothing [OF d2(2)]) (use d2(5) same(3) assms(6) in simp)
  note same3 = same_view_facts [OF d3(3)]
  have "client_arrival d3 = client_arrival d" using d2(6) same(7) same3(7) by (simp add: client_arrival_def [abs_def])
  then have "\<exists>d'. dispatchWaitForMessage txn 0 as d3 = Some (Waits, [], d')"
    using assms(4-6) d2(5,6) same(3,7) same3(3,7) by (intro wait_goes_on [OF d3(2)]) simp_all
  then obtain d4 where w: "dispatchWaitForMessage txn 0 as d3 = Some (Waits, [], d4)" by blast
  have "known d3 txn = None" "load d3 < MAX_TRANSACTIONS" using assms(2,6) d2(3,5) same(1,3) same3(1,3) by simp_all
  then have "map_get MAX_TRANSACTIONS txn (dp_pending_response_map d3) = None"
    using d3(2) by (simp add: map_get_spec client_inv_def load_def known_def)
  then have "dispatchReceive txn as d3 = Some (NotYet Waits, [], d4)" using w by (simp add: dispatchReceive_def)
  then show ?thesis using p(1) d2(1,4) d3(1) same(2) same3(2) rdy(3) by (simp add: content_of_def)
qed

text \<open>C27. When a peer closes its channel, later requests to it go to another peer: the last channel of the process is copied over the
  closed one, but the entry of the closed peer in \<^verbatim>\<open>openned_channels\<close> stays, so \<^verbatim>\<open>dispatchOpen\<close> returns for it the
  channel of the peer that was last.\<close>

theorem closed_channel_misroutes:
  assumes "client_inv {} d" "load d < MAX_TRANSACTIONS"
    and "dp_channels d = before @ a # between @ [b]" "a \<noteq> b"
    and "map_of (dp_openned_channels d) p = Some a" "map_of (dp_openned_channels d) q = Some b"
  shows "\<exists>d'. dispatchPoll (ChannelClosed (length before)) d = Some (None, d')
     \<and> fst (dispatchOpen MAX_CHANNELS ep conn p d') = Some a \<and> dp_heap d' a = dp_heap d b
     \<and> fst (dispatchOpen MAX_CHANNELS ep conn q d') = Some a"
proof -
  have upd: "map_of (map (\<lambda>(x, c). (x, f c)) xs) k = map_option f (map_of xs k)" for f :: "nat \<Rightarrow> nat" and xs k
    by (induction xs) auto
  obtain i d1 where o1: "poll_pmsg d = Some (i, d1)" "same_view d d1" by (rule poll_object [OF assms(1,2)])
  have d1: "dp_channels d1 = before @ a # between @ [b]" "dp_openned_channels d1 = dp_openned_channels d" "dp_heap d1 = dp_heap d"
    using o1(2) assms(3) by (simp_all add: same_view_def)
  let ?d = "dispatchCloseChannel (length before) (dispatchCloseChannelCallback (length before) d1)"
  have "dispatchPoll (ChannelClosed (length before)) d = Some (None, ?d)" using o1(1) d1(1) by (simp add: dispatchPoll_def)
  moreover have "dp_openned_channels ?d = map (\<lambda>(x, c). (x, redirect b a c)) (dp_openned_channels d)" "dp_heap ?d = (dp_heap d)(a := dp_heap d b)"
    using d1 by (simp_all add: dispatchCloseChannel_def dispatchCloseChannelCallback_def Let_def nth_append)
  ultimately show ?thesis using assms(4-6) by (simp add: dispatchOpen_def Let_def upd redirect_def)
qed

section \<open>Instances\<close>

definition client_ex :: Dispatcher where
  "client_ex = Dispatcher_new\<lparr>dp_channels := [100, 200], dp_openned_channels := [(1, 100), (2, 200)], dp_notify_callback := True\<rparr>"

lemma client_ex_inv: "client_inv {} client_ex" "known client_ex = Map.empty" "queued client_ex = []" "load client_ex = 0"
proof -
  have e: "cq_elems C (cq_new xs) = []" "cq_invar C (cq_new xs) \<longleftrightarrow> 0 < C \<and> C < 2 ^ 62 \<and> length xs = C" for C xs
    by (auto simp: cq_elems_def cq_new_def cq_invar_def)
  have "map_invar MAX_TRANSACTIONS (cq_new (replicate MAX_TRANSACTIONS x))" for x :: "(int, nat) Entry"
    by (simp add: map_invar_def map_keys_def e)
  then show "client_inv {} client_ex"
    using pool_new_invar [of MAX_TRANSACTIONS]
    by (simp add: client_ex_def Dispatcher_new_def client_inv_def stored_def e) (simp add: cq_new_def)
qed (simp_all add: client_ex_def Dispatcher_new_def known_def queued_def load_def map_spec_def cq_elems_def cq_new_def fun_eq_iff)

definition arrivals_ex :: "Arrival list" where
  "arrivals_ex = [Incoming 0 \<lparr>hdr_handler = - 1, hdr_transaction = 7\<rparr> [70], Nothing,
     Incoming 1 \<lparr>hdr_handler = - 2, hdr_transaction = - 1\<rparr> [99], Incoming 1 \<lparr>hdr_handler = - 1, hdr_transaction = 5\<rparr> [50, 51]]"

lemma client_ready_ex: "client_ready client_ex arrivals_ex" "answers client_ex arrivals_ex = [5 \<mapsto> ([50, 51], 200), 7 \<mapsto> ([70], 100)]"
  "news client_ex arrivals_ex = [[99]]"
  by (simp_all add: client_ready_def answers_def news_def client_ex_inv arrivals_ex_def)
     (simp_all add: client_ex_def Dispatcher_new_def client_arrival_def)

theorem responses_demultiplexed_witness:
  "\<exists>as' d'. receive_all [5, 7] arrivals_ex client_ex = Some ([Received [50, 51] 200, Received [70] 100], as', d') \<and> news d' as' = [[99]]"
  using responses_demultiplexed [OF client_ready_ex(1), of "[5, 7]"] by (auto simp: client_ready_ex(2,3))

theorem check_notifications_loses_response_witness:
  "\<exists>d1 d2. dispatchCheckNotifications [Incoming 1 \<lparr>hdr_handler = - 1, hdr_transaction = 5\<rparr> [50]] client_ex = Some ([], d1)
     \<and> dispatchReceive 5 [Nothing, Nothing] d1 = Some (NotYet Waits, [], d2)"
proof -
  have "client_ready client_ex []" by (simp add: client_ready_def client_ex_inv)
  then show ?thesis
    using check_notifications_loses_response [of client_ex 5 1 "[Nothing, Nothing]" "[50]"]
    by (auto simp: client_ex_inv client_arrival_def is_for_def) (auto simp: client_ex_def)
qed

theorem closed_channel_misroutes_witness:
  "\<exists>d'. dispatchPoll (ChannelClosed 0) client_ex = Some (None, d') \<and> fst (dispatchOpen 1000 9 (300, \<lparr>ch_owned = False, ch_remote_ep_addr = 3\<rparr>) 1 d') = Some 100
     \<and> dp_heap d' 100 = dp_heap client_ex 200"
  using closed_channel_misroutes [of client_ex "[]" 100 "[]" 200 1 2 1000 9 "(300, \<lparr>ch_owned = False, ch_remote_ep_addr = 3\<rparr>)"]
  by (simp add: client_ex_inv) (auto simp: client_ex_def)

end
