(* ===== verification/Space_Alloc.thy ===== *)
theory Space_Alloc
  imports Faux_Prelude
begin

text \<open>
  Bit arrays (\<open>libs/utilities/include/bitarray.h\<close>) and the number-space allocator built on
  them (\<open>libs/utilities/space_alloc.c\<close>, \<open>include/space_alloc.h\<close>).

  An \<^verbatim>\<open>unsigned long *\<close> array is a list of 64-bit words, exactly as long as the storage
  behind it; \<^term>\<open>None\<close> is an access outside that storage or a failed \<^verbatim>\<open>assert\<close>.  The cast of
  the array to \<^verbatim>\<open>const unsigned int *\<close> is the little-endian view \<open>int_view\<close>.  The results of
  \<^verbatim>\<open>malloc\<close> and \<^verbatim>\<open>realloc\<close> (success, contents of fresh storage) are arguments.
\<close>

unbundle bit_operations_syntax

section \<open>Bit arrays\<close>

definition BITARRAY_BITS_PER_INT :: nat where
  "BITARRAY_BITS_PER_INT = 32"

definition BITARRAY_CREATE_MASK :: "nat \<Rightarrow> u64" where
  "BITARRAY_CREATE_MASK b = push_bit (b mod BITARRAY_BITS_PER_INT) 1"

definition BITARRAY_NINTS :: "nat \<Rightarrow> nat" where
  "BITARRAY_NINTS nbits = nbits div BITARRAY_BITS_PER_INT"

definition fosBitArrayIsSet :: "u64 list \<Rightarrow> nat \<Rightarrow> bool option" where
  "fosBitArrayIsSet ba b =
     (let i = b div BITARRAY_BITS_PER_INT
      in if i < length ba then Some (ba ! i AND BITARRAY_CREATE_MASK b \<noteq> 0) else None)"

definition fosBitArrayIsClear :: "u64 list \<Rightarrow> nat \<Rightarrow> bool option" where
  "fosBitArrayIsClear ba b =
     (let i = b div BITARRAY_BITS_PER_INT
      in if i < length ba then Some (NOT (ba ! i) AND BITARRAY_CREATE_MASK b \<noteq> 0) else None)"

definition fosBitArraySet :: "u64 list \<Rightarrow> nat \<Rightarrow> u64 list option" where
  "fosBitArraySet ba b =
     (let i = b div BITARRAY_BITS_PER_INT
      in if i < length ba then Some (ba[i := ba ! i OR BITARRAY_CREATE_MASK b]) else None)"

definition fosBitArrayClear :: "u64 list \<Rightarrow> nat \<Rightarrow> u64 list option" where
  "fosBitArrayClear ba b =
     (let i = b div BITARRAY_BITS_PER_INT
      in if i < length ba then Some (ba[i := ba ! i AND NOT (BITARRAY_CREATE_MASK b)]) else None)"

text \<open>The loop runs while the mask \<^verbatim>\<open>1 << index\<close> is non-zero in 64 bits.\<close>

lemma mask_ne_0: "push_bit i (1 :: u64) \<noteq> 0 \<Longrightarrow> i < 64"
  by (rule ccontr) (simp add: push_bit_eq_0_iff)

function find_first_from :: "u64 \<Rightarrow> nat \<Rightarrow> nat" where
  "find_first_from v index =
     (if push_bit index (1 :: u64) \<noteq> 0 then
        (if v AND push_bit index 1 \<noteq> 0 then index else find_first_from v (Suc index))
      else BITARRAY_BITS_PER_INT)"
  by pat_completeness auto
termination
  by (relation "measure (\<lambda>(v, i). 64 - i)") (auto dest: mask_ne_0)

declare find_first_from.simps [simp del]

definition fosBitArrayFindFirstSet :: "u64 \<Rightarrow> nat" where
  "fosBitArrayFindFirstSet v = find_first_from v 0"

function find_set_from :: "u64 list \<Rightarrow> nat \<Rightarrow> nat \<Rightarrow> nat option" where
  "find_set_from ba nbits i =
     (if i < BITARRAY_NINTS nbits then
        (if i < length ba then
           (if ba ! i \<noteq> 0 then Some (i * BITARRAY_BITS_PER_INT + fosBitArrayFindFirstSet (ba ! i))
            else find_set_from ba nbits (Suc i))
         else None)
      else Some nbits)"
  by pat_completeness auto
termination
  by (relation "measure (\<lambda>(ba, nbits, i). BITARRAY_NINTS nbits - i)") auto

declare find_set_from.simps [simp del]

definition fosBitArrayFindSet :: "u64 list \<Rightarrow> nat \<Rightarrow> nat option" where
  "fosBitArrayFindSet ba nbits =
     (if nbits \<noteq> 0 \<and> nbits mod BITARRAY_BITS_PER_INT = 0 then find_set_from ba nbits 0 else None)"

definition int_view :: "u64 list \<Rightarrow> nat \<Rightarrow> u32 option" where
  "int_view ba i =
     (if i div 2 < length ba
      then Some (if even i then ucast (ba ! (i div 2)) else ucast (drop_bit 32 (ba ! (i div 2))))
      else None)"

function find_clear_from :: "u64 list \<Rightarrow> nat \<Rightarrow> nat \<Rightarrow> nat option" where
  "find_clear_from ba nbits i =
     (if i < BITARRAY_NINTS nbits then
        (case int_view ba i of
           None \<Rightarrow> None
         | Some w \<Rightarrow>
             if w \<noteq> 0xFFFFFFFF
             then Some (i * BITARRAY_BITS_PER_INT + fosBitArrayFindFirstSet (ucast (NOT w)))
             else find_clear_from ba nbits (Suc i))
      else Some nbits)"
  by pat_completeness auto
termination
  by (relation "measure (\<lambda>(ba, nbits, i). BITARRAY_NINTS nbits - i)") auto

declare find_clear_from.simps [simp del]

definition fosBitArrayFindClear :: "u64 list \<Rightarrow> nat \<Rightarrow> nat option" where
  "fosBitArrayFindClear ba nbits =
     (if nbits \<noteq> 0 \<and> nbits mod BITARRAY_BITS_PER_INT = 0 then find_clear_from ba nbits 0 else None)"

section \<open>Number-space allocation\<close>

definition UINT_MAX :: nat where
  "UINT_MAX = 2 ^ 32 - 1"

abbreviation LINEAR_COUNTER_DISABLED :: nat where
  "LINEAR_COUNTER_DISABLED \<equiv> UINT_MAX"

record SpaceAllocState =
  sa_counter :: nat
  sa_bit_array :: "u64 list"
  sa_array_size :: nat
  sa_expansion_size :: nat

text \<open>\<^verbatim>\<open>memset(p, 0, n)\<close> on the bytes \<open>[b, b + n)\<close> of an array of longs, both multiples of
  eight.\<close>

definition memset_longs :: "u64 list \<Rightarrow> nat \<Rightarrow> nat \<Rightarrow> u64 list option" where
  "memset_longs ba b n =
     (if n = 0 then Some ba
      else if b + n \<le> 8 * length ba
      then Some (map (\<lambda>i. if b \<le> 8 * i \<and> 8 * i < b + n then 0 else ba ! i) [0..<length ba])
      else None)"

text \<open>\<open>fresh\<close> is what \<^verbatim>\<open>realloc\<close> returned: \<^term>\<open>None\<close> for a null pointer, otherwise the contents
  of the added storage.\<close>

definition spaceAllocExpandTable ::
    "(nat \<Rightarrow> u64 list) option \<Rightarrow> SpaceAllocState \<Rightarrow> (int \<times> SpaceAllocState) option" where
  "spaceAllocExpandTable fresh st =
     (let result = int (sa_array_size st);
          current_bytes = sa_array_size st div 8;
          new_size = (current_bytes + sa_expansion_size st) mod 2 ^ 32
      in case fresh of
           None \<Rightarrow> Some (- 1, st)
         | Some f \<Rightarrow>
             (let grown = take (new_size div 8)
                    (sa_bit_array st @ f (new_size div 8 - length (sa_bit_array st)))
              in case memset_longs grown (8 * current_bytes) (sa_expansion_size st) of
                   None \<Rightarrow> None
                 | Some zeroed \<Rightarrow>
                     Some (result, st\<lparr>sa_bit_array := zeroed,
                       sa_array_size := (new_size * 8) mod 2 ^ 32,
                       sa_counter := (if sa_counter st \<noteq> LINEAR_COUNTER_DISABLED
                                      then (sa_counter st + 1) mod 2 ^ 32 else sa_counter st)\<rparr>)))"

definition spaceAllocInit ::
    "nat \<Rightarrow> nat \<Rightarrow> bool \<Rightarrow> bool \<Rightarrow> SpaceAllocState \<Rightarrow> (int \<times> SpaceAllocState) option" where
  "spaceAllocInit initial_size expansion_size always_lowest malloc_ok st =
     (if initial_size = 0 \<or> initial_size mod 64 \<noteq> 0 \<or> expansion_size mod 64 \<noteq> 0 then None
      else if \<not> malloc_ok then Some (- 1, st\<lparr>sa_bit_array := []\<rparr>)
      else Some (0, \<lparr>sa_counter = (if always_lowest then LINEAR_COUNTER_DISABLED else 0),
                     sa_bit_array = replicate (initial_size div 64) 0,
                     sa_array_size = initial_size,
                     sa_expansion_size = expansion_size div 8\<rparr>))"

definition spaceAllocDestroy :: "SpaceAllocState \<Rightarrow> SpaceAllocState" where
  "spaceAllocDestroy st = st\<lparr>sa_bit_array := []\<rparr>"

definition spaceAllocAllocate ::
    "(nat \<Rightarrow> u64 list) option \<Rightarrow> SpaceAllocState \<Rightarrow> (int \<times> SpaceAllocState) option" where
  "spaceAllocAllocate fresh st =
     (if sa_counter st < sa_array_size st
      then Some (int (sa_counter st), st\<lparr>sa_counter := (sa_counter st + 1) mod 2 ^ 32\<rparr>)
      else do {
        result \<leftarrow> fosBitArrayFindClear (sa_bit_array st) (sa_array_size st);
        if result < sa_array_size st
        then do {
          ba \<leftarrow> fosBitArraySet (sa_bit_array st) result;
          Some (int result, st\<lparr>sa_bit_array := ba\<rparr>)
        }
        else if sa_expansion_size st \<noteq> 0 then spaceAllocExpandTable fresh st
        else Some (- 1, st)
      })"

definition spaceAllocRelease :: "nat \<Rightarrow> SpaceAllocState \<Rightarrow> SpaceAllocState option" where
  "spaceAllocRelease v st = do {
     ba \<leftarrow> fosBitArrayClear (sa_bit_array st) v;
     Some (st\<lparr>sa_bit_array := ba,
              sa_counter := (if v = (sa_counter st + UINT_MAX) mod 2 ^ 32 then v
                             else sa_counter st)\<rparr>)
   }"

definition spaceAllocGetSize :: "SpaceAllocState \<Rightarrow> nat" where
  "spaceAllocGetSize st = sa_array_size st"

definition spaceAllocIsAllocated :: "SpaceAllocState \<Rightarrow> nat \<Rightarrow> bool option" where
  "spaceAllocIsAllocated st v =
     (if v < sa_array_size st then fosBitArrayIsSet (sa_bit_array st) v else Some False)"

section \<open>Lemmas on bits\<close>

lemmas bitarray_defs =
  BITARRAY_BITS_PER_INT_def BITARRAY_CREATE_MASK_def BITARRAY_NINTS_def
  fosBitArrayIsSet_def fosBitArrayIsClear_def fosBitArraySet_def fosBitArrayClear_def Let_def

lemma and_mask_iff: "x AND push_bit n 1 \<noteq> 0 \<longleftrightarrow> bit x n" for x :: u64
  by (simp add: push_bit_eq_mult and_exp_eq_0_iff_not_bit)

lemma IsSet_iff: "b div 32 < length ba \<Longrightarrow>
    fosBitArrayIsSet ba b = Some (bit (ba ! (b div 32)) (b mod 32))"
  by (simp add: bitarray_defs and_exp_eq_0_iff_not_bit)

lemma IsClear_iff: "b div 32 < length ba \<Longrightarrow>
    fosBitArrayIsClear ba b = Some (\<not> bit (ba ! (b div 32)) (b mod 32))"
proof -
  have "b mod 32 < 64" by (rule less_trans [of _ 32]) simp_all
  then show "b div 32 < length ba \<Longrightarrow> ?thesis"
    by (simp add: bitarray_defs and_exp_eq_0_iff_not_bit bit_not_iff)
qed

lemma Set_eq: "b div 32 < length ba \<Longrightarrow>
    fosBitArraySet ba b = Some (ba[b div 32 := set_bit (b mod 32) (ba ! (b div 32))])"
  by (simp add: bitarray_defs set_bit_eq_or)

lemma Clear_eq: "b div 32 < length ba \<Longrightarrow>
    fosBitArrayClear ba b = Some (ba[b div 32 := unset_bit (b mod 32) (ba ! (b div 32))])"
  by (simp add: bitarray_defs unset_bit_eq_and_not)

lemma find_first_hit:
  assumes "bit v n" and "\<And>m. i \<le> m \<Longrightarrow> m < n \<Longrightarrow> \<not> bit v m" and "i \<le> n"
  shows "find_first_from v i = n"
  using assms
proof (induction v i rule: find_first_from.induct)
  case (1 v i)
  have "n < 64" using 1(2) bit_imp_le_length by force
  then have m: "push_bit i (1 :: u64) \<noteq> 0" using 1(4) by (simp add: push_bit_eq_0_iff)
  show ?case
  proof (cases "i = n")
    case True
    with 1(2) m show ?thesis by (subst find_first_from.simps) (simp add: and_exp_eq_0_iff_not_bit)
  next
    case False
    then have nb: "\<not> bit v i" using 1(3,4) by simp
    then have "find_first_from v (Suc i) = n"
      using 1 m False by (intro 1) (auto simp: and_exp_eq_0_iff_not_bit)
    with nb m show ?thesis by (subst find_first_from.simps) (simp add: and_exp_eq_0_iff_not_bit)
  qed
qed

lemma FindFirstSet_least:
  "bit v n \<Longrightarrow> (\<And>m. m < n \<Longrightarrow> \<not> bit v m) \<Longrightarrow> fosBitArrayFindFirstSet v = n"
  unfolding fosBitArrayFindFirstSet_def by (rule find_first_hit) auto

section \<open>Where the search for a clear bit stops\<close>

lemma ucast_all_ones: "(ucast x = (0xFFFFFFFF :: u32)) \<longleftrightarrow> (\<forall>n<32. bit x n)" for x :: u64
proof -
  have "(0xFFFFFFFF :: u32) = - 1" by (simp add: eq_neg_iff_add_eq_0)
  then have "(ucast x = (0xFFFFFFFF :: u32)) \<longleftrightarrow> (ucast x = (- 1 :: u32))" by (simp only:)
  also have "\<dots> \<longleftrightarrow> (\<forall>n<32. bit x n)" by (auto simp: bit_eq_iff bit_ucast_iff)
  finally show ?thesis .
qed

lemma FindClear_low:
  assumes "ba \<noteq> []" "nbits \<noteq> 0" "nbits mod 32 = 0" "n < 32" "\<not> bit (ba ! 0) n"
    and low: "\<And>m. m < n \<Longrightarrow> bit (ba ! 0) m"
  shows "fosBitArrayFindClear ba nbits = Some n"
proof -
  have f: "fosBitArrayFindFirstSet (ucast (NOT (ucast (ba ! 0) :: u32))) = n"
    using assms by (intro FindFirstSet_least) (auto simp: bit_ucast_iff bit_not_iff)
  have "(ucast (ba ! 0) :: u32) \<noteq> 0xFFFFFFFF" using assms by (auto simp: ucast_all_ones)
  moreover have "0 < nbits div 32" using assms(2,3) by (auto simp: div_eq_0_iff)
  ultimately show ?thesis using f assms(1-3)
    by (simp add: fosBitArrayFindClear_def bitarray_defs int_view_def
        find_clear_from.simps [of ba nbits 0])
qed

lemma FindClear_high:
  assumes "ba \<noteq> []" "64 \<le> nbits" "nbits mod 32 = 0"
    and lo: "\<And>n. n < 32 \<Longrightarrow> bit (ba ! 0) n" and hi: "\<And>n. 32 \<le> n \<Longrightarrow> \<not> bit (ba ! 0) n"
  shows "fosBitArrayFindClear ba nbits = Some 32"
proof -
  have 0: "(ucast (ba ! 0) :: u32) = 0xFFFFFFFF" using lo by (simp add: ucast_all_ones)
  have 1: "drop_bit 32 (ba ! 0) = 0" using hi by (auto simp: bit_eq_iff bit_drop_bit_eq)
  have f: "fosBitArrayFindFirstSet (ucast (- 1 :: u32)) = 0"
    by (rule FindFirstSet_least) (auto simp: bit_ucast_iff)
  have n: "1 < nbits div 32" "0 < nbits div 32" "nbits \<noteq> 0" using assms(2) by auto
  show ?thesis
    using assms(1,3) 0 1 f n
    by (simp add: fosBitArrayFindClear_def bitarray_defs int_view_def
        find_clear_from.simps [of ba nbits 0] find_clear_from.simps [of ba nbits "Suc 0"])
qed

section \<open>The allocator in lowest-first mode\<close>

definition sa_wf :: "SpaceAllocState \<Rightarrow> bool" where
  "sa_wf st \<longleftrightarrow> sa_bit_array st \<noteq> [] \<and> sa_array_size st = 64 * length (sa_bit_array st)"

lemma IsAllocated_low: "sa_wf st \<Longrightarrow> m < 32 \<Longrightarrow>
    spaceAllocIsAllocated st m = Some (bit (sa_bit_array st ! 0) m)"
  by (cases "sa_bit_array st") (auto simp: sa_wf_def spaceAllocIsAllocated_def IsSet_iff)

lemma Init_wf:
  assumes "spaceAllocInit n e al True st0 = Some (0, st)"
  shows "sa_wf st" "sa_array_size st = n" "m < n div 64 \<Longrightarrow> sa_bit_array st ! m = 0"
    "al \<Longrightarrow> sa_counter st = LINEAR_COUNTER_DISABLED" "0 < n"
  using assms by (auto simp: spaceAllocInit_def sa_wf_def split: if_splits)

lemma Allocate_low:
  assumes "sa_wf st" "sa_counter st = LINEAR_COUNTER_DISABLED" "sa_array_size st \<le> UINT_MAX"
    and "n < 32" "\<not> bit (sa_bit_array st ! 0) n" "\<And>m. m < n \<Longrightarrow> bit (sa_bit_array st ! 0) m"
  shows "spaceAllocAllocate fresh st =
    Some (int n, st\<lparr>sa_bit_array := (sa_bit_array st)[0 := set_bit n (sa_bit_array st ! 0)]\<rparr>)"
proof -
  from assms(1) have ne: "sa_bit_array st \<noteq> []" "sa_array_size st mod 32 = 0"
    "32 < sa_array_size st" by (cases "sa_bit_array st"; simp add: sa_wf_def)+
  with assms FindClear_low [OF ne(1), of "sa_array_size st" n] show ?thesis
    by (simp add: spaceAllocAllocate_def Set_eq)
qed

text \<open>A run of allocations with no release in between, and the values it hands out.\<close>

fun alloc_run :: "nat \<Rightarrow> SpaceAllocState \<Rightarrow> int list option" where
  "alloc_run 0 st = Some []"
| "alloc_run (Suc k) st = do {
     (r, st') \<leftarrow> spaceAllocAllocate None st;
     rs \<leftarrow> alloc_run k st';
     Some (r # rs)
   }"

text \<open>The states such a run goes through: the low half of the first long fills up, and nothing
  ever touches its high half, which the search then keeps reading as bits 32 to 63.\<close>

definition low_filled :: "nat \<Rightarrow> SpaceAllocState \<Rightarrow> bool" where
  "low_filled i st \<longleftrightarrow> sa_wf st \<and> 2 \<le> length (sa_bit_array st)
     \<and> sa_counter st = LINEAR_COUNTER_DISABLED \<and> sa_array_size st \<le> UINT_MAX
     \<and> (\<forall>n. bit (sa_bit_array st ! 0) n \<longleftrightarrow> n < i \<and> n < 32)"

lemma low_filled_set:
  assumes "low_filled i st" "\<And>n. bit w n \<longleftrightarrow> n < Suc i \<and> n < 32" "ba ! 0 = w"
    and "length ba = length (sa_bit_array st)"
  shows "low_filled (Suc i) (st\<lparr>sa_bit_array := ba\<rparr>)"
proof -
  have "sa_bit_array st \<noteq> []" "2 \<le> length (sa_bit_array st)" "sa_counter st = UINT_MAX"
    "sa_array_size st \<le> UINT_MAX" "sa_array_size st = 64 * length (sa_bit_array st)"
    using assms(1) unfolding low_filled_def sa_wf_def by blast+
  moreover from this assms(4) have "ba \<noteq> []" by force
  ultimately show ?thesis
    using assms(2-4) by (simp add: low_filled_def sa_wf_def)
qed

lemma Allocate_low_filled:
  assumes "low_filled i st"
  shows "\<exists>st'. spaceAllocAllocate fresh st = Some (int (min i 32), st') \<and> low_filled (Suc i) st'"
proof -
  let ?ba = "sa_bit_array st"
  have st: "sa_wf st" "2 \<le> length ?ba" "sa_counter st = UINT_MAX" "sa_array_size st \<le> UINT_MAX"
    and b: "bit (?ba ! 0) n \<longleftrightarrow> n < i \<and> n < 32" for n
    using assms by (simp_all add: low_filled_def)
  then have ne: "?ba \<noteq> []" "64 \<le> sa_array_size st" "sa_array_size st mod 32 = 0"
    by (auto simp: sa_wf_def)
  show ?thesis
  proof (cases "i < 32")
    case True
    have "spaceAllocAllocate fresh st = Some (int i, st\<lparr>sa_bit_array := ?ba[0 := set_bit i (?ba ! 0)]\<rparr>)"
      by (rule Allocate_low [OF st(1,3,4) True]) (use True in \<open>simp_all add: b\<close>)
    moreover have "low_filled (Suc i) (st\<lparr>sa_bit_array := ?ba[0 := set_bit i (?ba ! 0)]\<rparr>)"
      by (rule low_filled_set [OF assms, of "set_bit i (?ba ! 0)"])
        (use ne True in \<open>auto simp: bit_set_bit_iff b\<close>)
    ultimately show ?thesis using True by simp
  next
    case False
    have "fosBitArrayFindClear ?ba (sa_array_size st) = Some 32"
      by (rule FindClear_high [OF ne]) (use False in \<open>simp_all add: b\<close>)
    then have "spaceAllocAllocate fresh st = Some (32, st\<lparr>sa_bit_array := ?ba[1 := set_bit 0 (?ba ! 1)]\<rparr>)"
      using st ne by (simp add: spaceAllocAllocate_def Set_eq)
    moreover have "low_filled (Suc i) (st\<lparr>sa_bit_array := ?ba[1 := set_bit 0 (?ba ! 1)]\<rparr>)"
      by (rule low_filled_set [OF assms, of "?ba ! 0"]) (use False in \<open>auto simp: b\<close>)
    ultimately show ?thesis using False by simp
  qed
qed

lemma alloc_run_low_filled:
  "low_filled i st \<Longrightarrow> alloc_run k st = Some (map (\<lambda>j. int (min j 32)) [i..<i + k])"
proof (induction k arbitrary: i st)
  case (Suc k)
  obtain st' where st': "spaceAllocAllocate None st = Some (int (min i 32), st')"
    "low_filled (Suc i) st'" using Allocate_low_filled [OF Suc.prems, of None] by blast
  with Suc.IH [OF st'(2)] show ?case
    by (simp del: upt_Suc add: upt_conv_Cons)
qed simp

section \<open>Properties\<close>

text \<open>C35. In lowest-first mode, as long as one of the numbers 0 to 31 is free,
  \<^verbatim>\<open>spaceAllocAllocate\<close> returns the lowest free number, marks it, and changes the mark of no other
  number.\<close>

theorem space_alloc_lowest_free:
  assumes "sa_wf st" "sa_counter st = LINEAR_COUNTER_DISABLED" "sa_array_size st \<le> UINT_MAX"
    and "n < 32" "spaceAllocIsAllocated st n = Some False"
    and "\<forall>m<n. spaceAllocIsAllocated st m = Some True"
  shows "\<exists>st'. spaceAllocAllocate fresh st = Some (int n, st')
     \<and> spaceAllocIsAllocated st' n = Some True
     \<and> (\<forall>m. m \<noteq> n \<longrightarrow> spaceAllocIsAllocated st' m = spaceAllocIsAllocated st m)
     \<and> sa_wf st'"
proof -
  let ?ba = "sa_bit_array st"
  let ?st = "st\<lparr>sa_bit_array := ?ba[0 := set_bit n (?ba ! 0)]\<rparr>"
  have wf: "sa_wf ?st" using assms(1) by (simp add: sa_wf_def)
  have alloc: "spaceAllocAllocate fresh st = Some (int n, ?st)"
    using assms by (intro Allocate_low) (auto simp: IsAllocated_low)
  have other: "spaceAllocIsAllocated ?st m = spaceAllocIsAllocated st m" if "m \<noteq> n" for m
  proof (cases "m < 32")
    case True
    with assms(1) that wf show ?thesis
      by (auto simp: IsAllocated_low sa_wf_def bit_set_bit_iff)
  next
    case False
    then show ?thesis by (simp add: spaceAllocIsAllocated_def bitarray_defs)
  qed
  have "spaceAllocIsAllocated ?st n = Some True"
    using assms(1,4) IsAllocated_low [OF wf assms(4)] by (simp add: sa_wf_def bit_set_bit_iff)
  with alloc other wf show ?thesis by blast
qed

theorem space_alloc_lowest_free_witness:
  "\<exists>st'. spaceAllocAllocate None
      \<lparr>sa_counter = UINT_MAX, sa_bit_array = [5, 0], sa_array_size = 128, sa_expansion_size = 16\<rparr>
      = Some (1, st') \<and> spaceAllocIsAllocated st' 1 = Some True"
proof -
  let ?st = "\<lparr>sa_counter = UINT_MAX, sa_bit_array = [5, 0], sa_array_size = 128,
    sa_expansion_size = 16\<rparr>"
  have "spaceAllocIsAllocated ?st 1 = Some False" "\<forall>m<1. spaceAllocIsAllocated ?st m = Some True"
    by (simp_all add: spaceAllocIsAllocated_def bitarray_defs)
  with space_alloc_lowest_free [of ?st 1 None] show ?thesis
    by (auto simp: sa_wf_def UINT_MAX_def)
qed

text \<open>C36. A freshly initialised allocator in lowest-first mode hands out the numbers 0 to 31 and
  from then on the number 32 for ever, although it is never released: the marks are written to
  64-bit words and searched in 32-bit words.\<close>

theorem space_alloc_repeats_32:
  assumes "spaceAllocInit n e True True st0 = Some (0, st)" "128 \<le> n" "n \<le> UINT_MAX"
  shows "alloc_run k st = Some (map (\<lambda>j. int (min j 32)) [0..<k])"
proof -
  have "low_filled 0 st"
    using assms Init_wf [OF assms(1)] by (auto simp: low_filled_def sa_wf_def)
  from alloc_run_low_filled [OF this, of k] show ?thesis by simp
qed

theorem space_alloc_repeats_32_witness:
  "\<exists>st. spaceAllocInit 128 128 True True \<lparr>sa_counter = 0, sa_bit_array = [], sa_array_size = 0,
      sa_expansion_size = 0\<rparr> = Some (0, st)
    \<and> alloc_run 40 st = Some (map (\<lambda>j. int (min j 32)) [0..<40])"
proof -
  obtain st where st: "spaceAllocInit 128 128 True True \<lparr>sa_counter = 0, sa_bit_array = [],
      sa_array_size = 0, sa_expansion_size = 0\<rparr> = Some (0, st)"
    by (simp add: spaceAllocInit_def)
  have "alloc_run 40 st = Some (map (\<lambda>j. int (min j 32)) [0..<40])"
    by (rule space_alloc_repeats_32 [OF st]) (simp_all add: UINT_MAX_def)
  with st show ?thesis by blast
qed

text \<open>Growing the number space is never well defined: whenever \<^verbatim>\<open>realloc\<close> succeeds,
  \<^verbatim>\<open>spaceAllocExpandTable\<close> clears storage beyond the end of the new array, because a byte count
  is added to a pointer to longs.\<close>

theorem space_alloc_expand_out_of_bounds:
  assumes "sa_wf st" "sa_expansion_size st \<noteq> 0"
    and "sa_array_size st div 8 + sa_expansion_size st < 2 ^ 32"
  shows "spaceAllocExpandTable (Some f) st = None"
proof -
  let ?n = "(sa_array_size st div 8 + sa_expansion_size st) mod 2 ^ 32"
  let ?g = "take (?n div 8) (sa_bit_array st @ f (?n div 8 - length (sa_bit_array st)))"
  have "?n = sa_array_size st div 8 + sa_expansion_size st" by (rule mod_less [OF assms(3)])
  moreover have "length ?g \<le> ?n div 8" by (simp only: length_take min.cobounded2)
  ultimately have "8 * length ?g \<le> sa_array_size st div 8 + sa_expansion_size st" by linarith
  moreover have "sa_array_size st div 8 > 0"
    using assms(1) by (cases "sa_bit_array st") (auto simp: sa_wf_def)
  ultimately have "memset_longs ?g (8 * (sa_array_size st div 8)) (sa_expansion_size st) = None"
    using assms(2) by (simp add: memset_longs_def del: length_take)
  then show ?thesis by (simp add: spaceAllocExpandTable_def Let_def)
qed

theorem space_alloc_expand_out_of_bounds_witness:
  "spaceAllocExpandTable (Some (\<lambda>n. replicate n 0))
     \<lparr>sa_counter = UINT_MAX, sa_bit_array = [0, 0], sa_array_size = 128, sa_expansion_size = 16\<rparr>
   = None"
  by (rule space_alloc_expand_out_of_bounds) (simp_all add: sa_wf_def)

end
