(* ===== verification/Fd_Table.thy ===== *)
theory Fd_Table
  imports Space_Alloc
begin

text \<open>
  The file descriptor library of a process (\<open>libs/fd/fd.c\<close>, \<open>libs/fd/include/fd.h\<close>): the
  descriptor table with its reference-counted entries, and the map that keeps the descriptors of
  the library apart from those of the underlying system.

  The table holds pointers, several of which may name one entry (after \<^verbatim>\<open>dup\<close>), so the
  entries live in an explicit heap \<open>fd_heap\<close> from addresses to entries; a freed address is
  outside its domain and any use of it is \<^term>\<open>None\<close>.  The result of each \<^verbatim>\<open>malloc\<close> and
  \<^verbatim>\<open>realloc\<close> is an argument.  A \<^verbatim>\<open>FosFileOperations\<close> table is named by a number and its
  functions, which belong to the implementor of the file type, are arguments where they are called.
\<close>

unbundle bit_operations_syntax

section \<open>The descriptor table\<close>

record FosFDEntry =
  fe_fd :: int
  fe_num_fd :: int
  fe_status_flags :: int
  fe_file_ops :: "nat option"
  fe_private_data :: nat

record FosFDTable =
  once_only_fds :: u64
  fd_entries :: "nat option list"
  alloc_state :: SpaceAllocState
  fd_heap :: "nat \<Rightarrow> FosFDEntry option"

definition EXPANSION_SIZE :: nat where
  "EXPANSION_SIZE = 1024"

text \<open>\<open>fresh\<close> is the result of \<^verbatim>\<open>realloc\<close>: a null pointer, or what the added storage holds.\<close>

definition fdExpandTable ::
    "(nat \<Rightarrow> nat option list) option \<Rightarrow> FosFDTable \<Rightarrow> int \<times> FosFDTable" where
  "fdExpandTable fresh t =
     (let old_size = spaceAllocGetSize (alloc_state t);
          new_size = (old_size + EXPANSION_SIZE) mod 2 ^ 32
      in case fresh of
           None \<Rightarrow> (- ENOMEM, t)
         | Some f \<Rightarrow>
             (let grown = take new_size (fd_entries t @ f (new_size - length (fd_entries t)))
              in (0, t\<lparr>fd_entries := take old_size grown @ replicate EXPANSION_SIZE None\<rparr>)))"

definition fdFindUnusedFD ::
    "(nat \<Rightarrow> u64 list) option \<Rightarrow> (nat \<Rightarrow> nat option list) option \<Rightarrow> FosFDTable
     \<Rightarrow> (int \<times> FosFDTable) option" where
  "fdFindUnusedFD fresh_bits fresh_entries t =
     (let pre_alloc_size = int (spaceAllocGetSize (alloc_state t))
      in do {
        (result, sa) \<leftarrow> spaceAllocAllocate fresh_bits (alloc_state t);
        let t = t\<lparr>alloc_state := sa\<rparr>;
        if pre_alloc_size \<le> result
        then (let (expand_result, t) = fdExpandTable fresh_entries t
              in if expand_result < 0
                 then do {
                   sa \<leftarrow> spaceAllocRelease (nat result) (alloc_state t);
                   Some (expand_result, t\<lparr>alloc_state := sa\<rparr>)
                 }
                 else Some (result, t))
        else Some (result, t)
      })"

definition fdInitialize :: "bool \<Rightarrow> bool \<Rightarrow> (int \<times> FosFDTable) option" where
  "fdInitialize malloc_bits_ok malloc_entries_ok =
     (let zero = \<lparr>sa_counter = 0, sa_bit_array = [], sa_array_size = 0, sa_expansion_size = 0\<rparr>;
          t = \<lparr>once_only_fds = 0, fd_entries = [], alloc_state = zero, fd_heap = Map.empty\<rparr>
      in do {
        (result, sa) \<leftarrow> spaceAllocInit EXPANSION_SIZE EXPANSION_SIZE True malloc_bits_ok zero;
        let t = t\<lparr>alloc_state := sa\<rparr>;
        if result \<noteq> 0 then Some (result, t)
        else if \<not> malloc_entries_ok
        then Some (- ENOMEM, t\<lparr>alloc_state := spaceAllocDestroy (alloc_state t)\<rparr>)
        else Some (0, t\<lparr>fd_entries := replicate EXPANSION_SIZE None\<rparr>)
      })"

text \<open>The entry array is indexed by an \<^verbatim>\<open>int\<close>.\<close>

definition entry_at :: "FosFDTable \<Rightarrow> int \<Rightarrow> nat option option" where
  "entry_at t fd =
     (if 0 \<le> fd \<and> nat fd < length (fd_entries t) then Some (fd_entries t ! nat fd) else None)"

definition set_entry :: "FosFDTable \<Rightarrow> int \<Rightarrow> nat option \<Rightarrow> FosFDTable option" where
  "set_entry t fd p =
     (if 0 \<le> fd \<and> nat fd < length (fd_entries t)
      then Some (t\<lparr>fd_entries := (fd_entries t)[nat fd := p]\<rparr>) else None)"

definition fdCreate ::
    "nat option \<Rightarrow> (nat \<Rightarrow> u64 list) option \<Rightarrow> (nat \<Rightarrow> nat option list) option
     \<Rightarrow> nat option \<Rightarrow> nat \<Rightarrow> int \<Rightarrow> FosFDTable \<Rightarrow> (int \<times> nat option \<times> FosFDTable) option" where
  "fdCreate malloc fresh_bits fresh_entries file_ops private_data flags t =
     (if file_ops = None then None
      else case malloc of
        None \<Rightarrow> Some (- ENOMEM, None, t)
      | Some entry \<Rightarrow> do {
          (fd, t) \<leftarrow> fdFindUnusedFD fresh_bits fresh_entries t;
          if fd < 0 then Some (fd, None, t)
          else do {
            t \<leftarrow> set_entry t fd (Some entry);
            Some (fd, Some entry, t\<lparr>fd_heap := (fd_heap t)(entry \<mapsto>
              \<lparr>fe_fd = fd, fe_num_fd = 1, fe_status_flags = flags, fe_file_ops = file_ops,
               fe_private_data = private_data\<rparr>)\<rparr>)
          }
        })"

definition fdFlatten :: "nat \<Rightarrow> int \<Rightarrow> nat \<Rightarrow> nat \<Rightarrow> FosFDTable \<Rightarrow> FosFDTable option" where
  "fdFlatten new_entry fd entry private_data t = do {
     e \<leftarrow> fd_heap t entry;
     if fe_num_fd e > 1
     then do {
       let t = t\<lparr>fd_heap := (fd_heap t)(entry \<mapsto> e\<lparr>fe_num_fd := fe_num_fd e - 1\<rparr>)\<rparr>;
       t \<leftarrow> set_entry t fd (Some new_entry);
       Some (t\<lparr>fd_heap := (fd_heap t)(new_entry \<mapsto>
         \<lparr>fe_fd = fd, fe_num_fd = 1, fe_status_flags = fe_status_flags e,
          fe_file_ops = fe_file_ops e, fe_private_data = private_data\<rparr>)\<rparr>)
     }
     else None
   }"

definition fdFree :: "nat \<Rightarrow> FosFDTable \<Rightarrow> FosFDTable option" where
  "fdFree entry t = do {
     e \<leftarrow> fd_heap t entry;
     Some (if fe_num_fd e \<le> 1 then t\<lparr>fd_heap := (fd_heap t)(entry := None)\<rparr>
           else t\<lparr>fd_heap := (fd_heap t)(entry \<mapsto> e\<lparr>fe_num_fd := fe_num_fd e - 1\<rparr>)\<rparr>)
   }"

definition fdDestroy :: "int \<Rightarrow> FosFDTable \<Rightarrow> (int \<times> FosFDTable) option" where
  "fdDestroy fd t =
     (if fd < 0 \<or> int (spaceAllocGetSize (alloc_state t)) \<le> fd then Some (- EBADF, t)
      else do {
        allocated \<leftarrow> spaceAllocIsAllocated (alloc_state t) (nat fd);
        if \<not> allocated then Some (- EBADF, t)
        else do {
          p \<leftarrow> entry_at t fd;
          entry \<leftarrow> p;
          t \<leftarrow> set_entry t fd None;
          release \<leftarrow> (if int BITARRAY_BITS_PER_INT \<le> fd then Some True
                      else fosBitArrayIsClear [once_only_fds t] (nat fd));
          t \<leftarrow> (if release then do {
                   sa \<leftarrow> spaceAllocRelease (nat fd) (alloc_state t);
                   Some (t\<lparr>alloc_state := sa\<rparr>)
                 } else Some t);
          t \<leftarrow> fdFree entry t;
          Some (0, t)
        }
      })"

text \<open>The result is the pointer \<^verbatim>\<open>fdGet\<close> returns, \<^term>\<open>Some None\<close> for a null one.\<close>

definition fdGet :: "int \<Rightarrow> FosFDTable \<Rightarrow> nat option option" where
  "fdGet fd t =
     (if fd < 0 \<or> int (spaceAllocGetSize (alloc_state t)) \<le> fd then Some None
      else do {
        p \<leftarrow> entry_at t fd;
        case p of
          None \<Rightarrow> Some None
        | Some entry \<Rightarrow> do {
            e \<leftarrow> fd_heap t entry;
            if fe_file_ops e \<noteq> None then Some (Some entry) else None
          }
      })"

text \<open>\<open>close ops\<close> is the \<^verbatim>\<open>close\<close> member of a table of file operations, \<^term>\<open>None\<close> when null.\<close>

fun close_entries ::
    "(nat \<Rightarrow> (nat \<Rightarrow> FosFDTable \<Rightarrow> FosFDTable option) option) \<Rightarrow> nat list \<Rightarrow> FosFDTable
     \<Rightarrow> FosFDTable option" where
  "close_entries close [] t = Some t"
| "close_entries close (fd_i # fds) t = do {
     p \<leftarrow> entry_at t (int fd_i);
     t \<leftarrow> (case p of
            None \<Rightarrow> Some t
          | Some entry \<Rightarrow> do {
              e \<leftarrow> fd_heap t entry;
              ops \<leftarrow> fe_file_ops e;
              case close ops of None \<Rightarrow> Some t | Some f \<Rightarrow> f entry t
            });
     close_entries close fds t
   }"

definition fdCloseAll ::
    "(nat \<Rightarrow> (nat \<Rightarrow> FosFDTable \<Rightarrow> FosFDTable option) option) \<Rightarrow> FosFDTable
     \<Rightarrow> FosFDTable option" where
  "fdCloseAll close t = close_entries close [0..<spaceAllocGetSize (alloc_state t)] t"

definition fdOnceOnly :: "int \<Rightarrow> FosFDTable \<Rightarrow> FosFDTable option" where
  "fdOnceOnly fd t =
     (if 0 \<le> fd \<and> fd < int BITARRAY_BITS_PER_INT
      then do {
        ba \<leftarrow> fosBitArraySet [once_only_fds t] (nat fd);
        Some (t\<lparr>once_only_fds := ba ! 0\<rparr>)
      } else None)"

definition fdDuplicate ::
    "(nat \<Rightarrow> u64 list) option \<Rightarrow> (nat \<Rightarrow> nat option list) option \<Rightarrow> nat \<Rightarrow> int \<Rightarrow> FosFDTable
     \<Rightarrow> (int \<times> FosFDTable) option" where
  "fdDuplicate fresh_bits fresh_entries file newfd t = do {
     (newfd, t) \<leftarrow> (if newfd < 0 then fdFindUnusedFD fresh_bits fresh_entries t
                     else if int (spaceAllocGetSize (alloc_state t)) \<le> newfd
                     then Some (newfd, snd (fdExpandTable fresh_entries t))
                     else Some (newfd, t));
     p \<leftarrow> entry_at t newfd;
     t \<leftarrow> (case p of None \<Rightarrow> Some t | Some entry \<Rightarrow> fdFree entry t);
     f \<leftarrow> fd_heap t file;
     let t = t\<lparr>fd_heap := (fd_heap t)(file \<mapsto> f\<lparr>fe_num_fd := fe_num_fd f + 1\<rparr>)\<rparr>;
     t \<leftarrow> set_entry t newfd (Some file);
     Some (newfd, t)
   }"

section \<open>The descriptor map\<close>

definition INT32_MAX :: int where
  "INT32_MAX = 2 ^ 31 - 1"

text \<open>The global array \<^verbatim>\<open>fd_map\<close> as a list of \<^verbatim>\<open>CONFIG_FD_COUNT\<close> values.\<close>

definition map_at :: "int list \<Rightarrow> int \<Rightarrow> int option" where
  "map_at m fd = (if 0 \<le> fd \<and> nat fd < length m then Some (m ! nat fd) else None)"

definition map_set :: "int list \<Rightarrow> int \<Rightarrow> int \<Rightarrow> int list option" where
  "map_set m fd v = (if 0 \<le> fd \<and> nat fd < length m then Some (m[nat fd := v]) else None)"

definition fdIsMapped :: "int list \<Rightarrow> int \<Rightarrow> bool option" where
  "fdIsMapped m fd = map_option (\<lambda>v. v \<noteq> INT32_MAX) (map_at m fd)"

text \<open>The scan for an unused slot, shared by the two \<^verbatim>\<open>fdAdd\<close> functions, which store \<open>v\<close> in it.
  Falling off the end is the failed \<^verbatim>\<open>assert\<close>.\<close>

function add_from :: "int \<Rightarrow> int list \<Rightarrow> nat \<Rightarrow> (int \<times> int list) option" where
  "add_from v m i =
     (if i < length m then
        (if m ! i = INT32_MAX then Some (int i, m[i := v]) else add_from v m (Suc i))
      else None)"
  by pat_completeness auto
termination
  by (relation "measure (\<lambda>(v, m, i). length m - i)") auto

declare add_from.simps [simp del]

definition fdAddInternal :: "int \<Rightarrow> int list \<Rightarrow> (int \<times> int list) option" where
  "fdAddInternal fd m = add_from (fd + 1) m 0"

definition fdAddExternal :: "int \<Rightarrow> int list \<Rightarrow> (int \<times> int list) option" where
  "fdAddExternal fd m = add_from (- 1 * fd - 1) m 0"

definition fdSetInternal :: "int \<Rightarrow> int \<Rightarrow> int list \<Rightarrow> int list option" where
  "fdSetInternal fd internalfd m = map_set m fd (internalfd + 1)"

definition fdSetExternal :: "int \<Rightarrow> int \<Rightarrow> int list \<Rightarrow> int list option" where
  "fdSetExternal fd externalfd m = map_set m fd (- 1 * externalfd - 1)"

definition fdRemove :: "int \<Rightarrow> int list \<Rightarrow> int list option" where
  "fdRemove fd m = map_set m fd INT32_MAX"

definition fdIsInternal :: "int list \<Rightarrow> int \<Rightarrow> bool option" where
  "fdIsInternal m fd = map_option (\<lambda>v. v > 0 \<and> v \<noteq> INT32_MAX) (map_at m fd)"

definition fdIsExternal :: "int list \<Rightarrow> int \<Rightarrow> bool option" where
  "fdIsExternal m fd = map_option (\<lambda>v. v < 0 \<and> v \<noteq> INT32_MAX) (map_at m fd)"

definition fdInt :: "int list \<Rightarrow> int \<Rightarrow> int option" where
  "fdInt m fd = do {
     v \<leftarrow> map_at m fd;
     if v > 0 \<and> v \<noteq> INT32_MAX then Some (v - 1) else None
   }"

definition fdExt :: "int list \<Rightarrow> int \<Rightarrow> int option" where
  "fdExt m fd = do {
     v \<leftarrow> map_at m fd;
     Some (if v = INT32_MAX then fd else (v + 1) * - 1)
   }"

section \<open>The reference-count invariant\<close>

text \<open>An entry's count is the number of descriptors that name it, and no descriptor names freed
  storage.\<close>

definition refs_ok :: "nat option list \<Rightarrow> (nat \<Rightarrow> FosFDEntry option) \<Rightarrow> bool" where
  "refs_ok es h \<longleftrightarrow>
     (\<forall>a. case h a of
        None \<Rightarrow> count_list es (Some a) = 0
      | Some e \<Rightarrow> 0 < count_list es (Some a) \<and> fe_num_fd e = int (count_list es (Some a))
                  \<and> fe_file_ops e \<noteq> None)"

definition alloc_ok :: "SpaceAllocState \<Rightarrow> nat option list \<Rightarrow> bool" where
  "alloc_ok sa es \<longleftrightarrow> sa_wf sa \<and> sa_counter sa = LINEAR_COUNTER_DISABLED
     \<and> sa_array_size sa \<le> UINT_MAX \<and> length es = sa_array_size sa
     \<and> (\<forall>i<length es. es ! i \<noteq> None \<longrightarrow> i < 32 \<and> bit (sa_bit_array sa ! 0) i)"

definition fd_invar :: "FosFDTable \<Rightarrow> bool" where
  "fd_invar t \<longleftrightarrow> alloc_ok (alloc_state t) (fd_entries t) \<and> refs_ok (fd_entries t) (fd_heap t)"

definition lowest_free :: "FosFDTable \<Rightarrow> nat \<Rightarrow> bool" where
  "lowest_free t n \<longleftrightarrow> n < 32 \<and> spaceAllocIsAllocated (alloc_state t) n = Some False
     \<and> (\<forall>m<n. spaceAllocIsAllocated (alloc_state t) m = Some True)"

definition mark_fd :: "nat \<Rightarrow> SpaceAllocState \<Rightarrow> SpaceAllocState" where
  "mark_fd n sa = sa\<lparr>sa_bit_array := (sa_bit_array sa)[0 := set_bit n (sa_bit_array sa ! 0)]\<rparr>"

definition unmark_fd :: "nat \<Rightarrow> SpaceAllocState \<Rightarrow> SpaceAllocState" where
  "unmark_fd n sa = sa\<lparr>sa_bit_array := (sa_bit_array sa)[0 := unset_bit n (sa_bit_array sa ! 0)]\<rparr>"

lemma refs_okD:
  assumes "refs_ok es h" "i < length es" "es ! i = Some a"
  obtains e where "h a = Some e" "fe_num_fd e = int (count_list es (Some a))" "fe_file_ops e \<noteq> None"
proof (cases "h a")
  case None
  with assms(1) count_list_pos [OF assms(2,3)] show ?thesis
    by (auto simp: refs_ok_def dest: spec [of _ a])
next
  case (Some e)
  with assms(1) have "fe_num_fd e = int (count_list es (Some a)) \<and> fe_file_ops e \<noteq> None"
    unfolding refs_ok_def by (auto dest: spec [of _ a])
  with Some that show ?thesis by blast
qed

lemma refs_ok_at:
  "refs_ok es h \<Longrightarrow> case h a of None \<Rightarrow> count_list es (Some a) = 0
    | Some e \<Rightarrow> 0 < count_list es (Some a) \<and> fe_num_fd e = int (count_list es (Some a))
               \<and> fe_file_ops e \<noteq> None"
  unfolding refs_ok_def by (rule spec)

lemma refs_ok_new:
  assumes "refs_ok es h" "i < length es" "es ! i = None" "h a = None"
    and "fe_num_fd e = 1" "fe_file_ops e \<noteq> None"
  shows "refs_ok (es[i := Some a]) (h(a \<mapsto> e))"
  unfolding refs_ok_def
proof
  fix b
  show "case (h(a \<mapsto> e)) b of None \<Rightarrow> count_list (es[i := Some a]) (Some b) = 0
    | Some e \<Rightarrow> 0 < count_list (es[i := Some a]) (Some b)
        \<and> fe_num_fd e = int (count_list (es[i := Some a]) (Some b)) \<and> fe_file_ops e \<noteq> None"
    using count_list_update [OF assms(2), of "Some a" "Some b"] assms(3-) refs_ok_at [OF assms(1), of b]
    by (cases "b = a"; cases "h b") simp_all
qed

lemma refs_ok_share:
  assumes "refs_ok es h" "i < length es" "es ! i = None" "h a = Some e"
  shows "refs_ok (es[i := Some a]) (h(a \<mapsto> e\<lparr>fe_num_fd := fe_num_fd e + 1\<rparr>))"
  unfolding refs_ok_def
proof
  fix b
  show "case (h(a \<mapsto> e\<lparr>fe_num_fd := fe_num_fd e + 1\<rparr>)) b of
      None \<Rightarrow> count_list (es[i := Some a]) (Some b) = 0
    | Some e \<Rightarrow> 0 < count_list (es[i := Some a]) (Some b)
        \<and> fe_num_fd e = int (count_list (es[i := Some a]) (Some b)) \<and> fe_file_ops e \<noteq> None"
    using count_list_update [OF assms(2), of "Some a" "Some b"] assms(3-) refs_ok_at [OF assms(1), of b]
    by (cases "b = a"; cases "h b") simp_all
qed

definition drop_ref :: "nat \<Rightarrow> FosFDEntry \<Rightarrow> (nat \<Rightarrow> FosFDEntry option) \<Rightarrow> nat \<Rightarrow> FosFDEntry option"
  where
  "drop_ref a e h = (if fe_num_fd e \<le> 1 then h(a := None)
                     else h(a \<mapsto> e\<lparr>fe_num_fd := fe_num_fd e - 1\<rparr>))"

lemma refs_ok_drop:
  assumes "refs_ok es h" "i < length es" "es ! i = Some a" "h a = Some e"
  shows "refs_ok (es[i := None]) (drop_ref a e h)"
  unfolding refs_ok_def
proof
  fix b
  show "case drop_ref a e h b of None \<Rightarrow> count_list (es[i := None]) (Some b) = 0
    | Some e \<Rightarrow> 0 < count_list (es[i := None]) (Some b)
        \<and> fe_num_fd e = int (count_list (es[i := None]) (Some b)) \<and> fe_file_ops e \<noteq> None"
    using count_list_update [OF assms(2), of None "Some b"] assms(3,4)
      refs_ok_at [OF assms(1), of b]
    by (cases "b = a"; cases "h b") (simp_all add: drop_ref_def)
qed

lemma alloc_okD:
  assumes "alloc_ok sa es"
  shows "sa_wf sa" "sa_counter sa = LINEAR_COUNTER_DISABLED" "sa_array_size sa \<le> UINT_MAX"
    "length es = sa_array_size sa" "sa_bit_array sa \<noteq> []"
    and "i < length es \<Longrightarrow> es ! i = Some a \<Longrightarrow> i < 32"
    and "i < length es \<Longrightarrow> es ! i = Some a \<Longrightarrow> bit (sa_bit_array sa ! 0) i"
  using assms unfolding alloc_ok_def sa_wf_def by blast+

lemma alloc_okI:
  assumes "alloc_ok sa es" "length es' = length es" "length ba = length (sa_bit_array sa)"
    and "\<And>i a. i < length es \<Longrightarrow> es' ! i = Some a \<Longrightarrow> i < 32 \<and> bit (ba ! 0) i"
  shows "alloc_ok (sa\<lparr>sa_bit_array := ba\<rparr>) es'"
proof -
  have "ba \<noteq> []" using alloc_okD(5) [OF assms(1)] assms(3) by force
  moreover have "sa_array_size sa = 64 * length ba"
    using alloc_okD(1) [OF assms(1)] assms(3) by (simp add: sa_wf_def)
  ultimately show ?thesis
    using alloc_okD(2,3,4) [OF assms(1)] assms(2,4) by (fastforce simp: alloc_ok_def sa_wf_def)
qed

lemma alloc_ok_update:
  assumes "alloc_ok sa es" "i < 32" "bit (sa_bit_array sa ! 0) i"
  shows "alloc_ok sa (es[i := p])"
proof -
  have "alloc_ok (sa\<lparr>sa_bit_array := sa_bit_array sa\<rparr>) (es[i := p])"
  proof (rule alloc_okI [OF assms(1)])
    fix j a assume "j < length es" "es[i := p] ! j = Some a"
    then show "j < 32 \<and> bit (sa_bit_array sa ! 0) j"
      using assms alloc_okD(6,7) [OF assms(1), of j a] by (cases "j = i") simp_all
  qed simp_all
  then show ?thesis by simp
qed

lemma alloc_ok_mark: "alloc_ok (mark_fd n sa) es" if "alloc_ok sa es" "n < 32"
  unfolding mark_fd_def
proof (rule alloc_okI [OF that(1)])
  fix i a assume "i < length es" "es ! i = Some a"
  then show "i < 32 \<and> bit ((sa_bit_array sa)[0 := set_bit n (sa_bit_array sa ! 0)] ! 0) i"
    using alloc_okD(5) [OF that(1)] alloc_okD(6,7) [OF that(1), of i a] by (simp add: bit_set_bit_iff)
qed simp_all

lemma mark_fd_bit: "alloc_ok sa es \<Longrightarrow> n < 32 \<Longrightarrow> bit (sa_bit_array (mark_fd n sa) ! 0) n"
  using alloc_okD(5) [of sa es] by (simp add: mark_fd_def bit_set_bit_iff)

lemma alloc_ok_unmark: "alloc_ok (unmark_fd n sa) es"
  if "alloc_ok sa es" "es ! n = None" "n < 32"
  unfolding unmark_fd_def
proof (rule alloc_okI [OF that(1)])
  fix i a assume i: "i < length es" "es ! i = Some a"
  then have "i \<noteq> n" using that(2) by auto
  then show "i < 32 \<and> bit ((sa_bit_array sa)[0 := unset_bit n (sa_bit_array sa ! 0)] ! 0) i"
    using alloc_okD(5) [OF that(1)] alloc_okD(6,7) [OF that(1), of i a] i by (simp add: bit_unset_bit_iff)
qed simp_all

lemma alloc_ok_length: "alloc_ok sa es \<Longrightarrow> 64 \<le> length es"
  using alloc_okD(1,4) [of sa es] by (cases "sa_bit_array sa") (simp_all add: sa_wf_def)

lemma lowest_free_bits:
  assumes "fd_invar t" "lowest_free t n"
  shows "n < 32" "\<not> bit (sa_bit_array (alloc_state t) ! 0) n"
    "m < n \<Longrightarrow> bit (sa_bit_array (alloc_state t) ! 0) m" "fd_entries t ! n = None"
proof -
  have wf: "sa_wf (alloc_state t)" using assms(1) by (simp add: fd_invar_def alloc_ok_def)
  show n: "n < 32" using assms(2) by (simp add: lowest_free_def)
  show b: "\<not> bit (sa_bit_array (alloc_state t) ! 0) n"
    using assms(2) n IsAllocated_low [OF wf n] by (simp add: lowest_free_def)
  show "m < n \<Longrightarrow> bit (sa_bit_array (alloc_state t) ! 0) m"
    using assms(2) n IsAllocated_low [OF wf, of m] by (simp add: lowest_free_def)
  show "fd_entries t ! n = None"
    using assms(1) b n alloc_ok_length [of "alloc_state t" "fd_entries t"]
      alloc_okD(7) [of "alloc_state t" "fd_entries t" n]
    by (cases "fd_entries t ! n") (simp_all add: fd_invar_def)
qed

lemma FindUnused_lowest:
  assumes "fd_invar t" "lowest_free t n"
  shows "fdFindUnusedFD fb fe t = Some (int n, t\<lparr>alloc_state := mark_fd n (alloc_state t)\<rparr>)"
proof -
  note b = lowest_free_bits [OF assms]
  have "spaceAllocAllocate fb (alloc_state t) = Some (int n, mark_fd n (alloc_state t))"
    unfolding mark_fd_def using assms(1) alloc_okD(1-3) [of "alloc_state t" "fd_entries t"]
    by (intro Allocate_low b) (simp_all add: fd_invar_def)
  moreover have "n < sa_array_size (alloc_state t)"
    using b(1) assms(1) alloc_ok_length [of "alloc_state t" "fd_entries t"]
    by (simp add: fd_invar_def alloc_ok_def)
  ultimately show ?thesis by (simp add: fdFindUnusedFD_def spaceAllocGetSize_def Let_def)
qed

lemma fd_invar_parts:
  assumes "fd_invar t"
  shows "alloc_ok (alloc_state t) (fd_entries t)" "refs_ok (fd_entries t) (fd_heap t)"
    "length (fd_entries t) = sa_array_size (alloc_state t)" "64 \<le> length (fd_entries t)"
proof -
  show a: "alloc_ok (alloc_state t) (fd_entries t)" and "refs_ok (fd_entries t) (fd_heap t)"
    using assms by (simp_all add: fd_invar_def)
  show "length (fd_entries t) = sa_array_size (alloc_state t)" "64 \<le> length (fd_entries t)"
    by (rule alloc_okD(4) [OF a], rule alloc_ok_length [OF a])
qed

lemma fdGet_invar:
  assumes "fd_invar t"
  shows "fdGet fd t =
    Some (if 0 \<le> fd \<and> nat fd < length (fd_entries t) then fd_entries t ! nat fd else None)"
proof (cases "0 \<le> fd \<and> nat fd < length (fd_entries t)")
  case True
  then have "\<not> (fd < 0 \<or> int (sa_array_size (alloc_state t)) \<le> fd)"
    using fd_invar_parts(3) [OF assms] by linarith
  with True show ?thesis
    by (cases "fd_entries t ! nat fd")
      (auto simp: fdGet_def spaceAllocGetSize_def entry_at_def
        elim!: refs_okD [OF fd_invar_parts(2) [OF assms]])
next
  case False
  then have "fd < 0 \<or> int (sa_array_size (alloc_state t)) \<le> fd"
    using fd_invar_parts(3) [OF assms] by linarith
  with False show ?thesis by (auto simp: fdGet_def spaceAllocGetSize_def)
qed

lemma fdGet_update:
  assumes "fd_invar t" "fd_invar t'" "fd_entries t' = (fd_entries t)[n := p]"
    and "n < length (fd_entries t)"
  shows "fdGet (int n) t' = Some p" "fd \<noteq> int n \<Longrightarrow> fdGet fd t' = fdGet fd t"
  using assms(3,4) by (auto simp: fdGet_invar [OF assms(1)] fdGet_invar [OF assms(2)] nth_list_update)

lemma Release_low:
  assumes "alloc_ok sa es" "n < 32"
  shows "spaceAllocRelease n sa = Some (unmark_fd n sa)"
proof -
  have "n \<noteq> (sa_counter sa + UINT_MAX) mod 2 ^ 32"
    using assms(2) alloc_okD(2) [OF assms(1)] by (simp add: UINT_MAX_def)
  then show ?thesis
    using alloc_okD(5) [OF assms(1)] assms(2)
    by (simp add: spaceAllocRelease_def Clear_eq unmark_fd_def)
qed

section \<open>A table with one open descriptor\<close>

definition example_entry :: FosFDEntry where
  "example_entry = \<lparr>fe_fd = 0, fe_num_fd = 1, fe_status_flags = 2, fe_file_ops = Some 3,
     fe_private_data = 99\<rparr>"

definition example_table :: FosFDTable where
  "example_table = \<lparr>once_only_fds = 1, fd_entries = Some 7 # replicate 63 None,
     alloc_state = \<lparr>sa_counter = UINT_MAX, sa_bit_array = [1], sa_array_size = 64,
                    sa_expansion_size = 128\<rparr>,
     fd_heap = [7 \<mapsto> example_entry]\<rparr>"

lemma count_list_replicate_other: "x \<noteq> y \<Longrightarrow> count_list (replicate n x) y = 0"
  by (induction n) simp_all

lemma example_invar: "fd_invar example_table"
proof -
  have "alloc_ok (alloc_state example_table) (fd_entries example_table)"
    unfolding alloc_ok_def example_table_def
    by (auto simp: sa_wf_def UINT_MAX_def nth_Cons' bit_1_iff split: if_splits)
  moreover have "refs_ok (fd_entries example_table) (fd_heap example_table)"
    by (simp add: refs_ok_def example_table_def example_entry_def count_list_replicate_other)
  ultimately show ?thesis by (simp add: fd_invar_def)
qed

lemma example_lowest_free: "lowest_free example_table 1"
  by (simp add: lowest_free_def example_table_def spaceAllocIsAllocated_def bitarray_defs)

section \<open>Properties\<close>

text \<open>C37. While a number below 32 is free, \<^verbatim>\<open>fdCreate\<close> gives the new entry the lowest free
  descriptor; looking it up yields that entry, every other descriptor keeps what it named, and the
  reference counts stay exact.\<close>

theorem fd_create_lowest:
  assumes "fd_invar t" "lowest_free t n" "fd_heap t a = None"
  shows "\<exists>t'. fdCreate (Some a) fb fe (Some ops) pd fl t = Some (int n, Some a, t')
     \<and> fdGet (int n) t' = Some (Some a)
     \<and> fd_heap t' a = Some \<lparr>fe_fd = int n, fe_num_fd = 1, fe_status_flags = fl,
                            fe_file_ops = Some ops, fe_private_data = pd\<rparr>
     \<and> (\<forall>fd. fd \<noteq> int n \<longrightarrow> fdGet fd t' = fdGet fd t) \<and> fd_invar t'"
proof -
  let ?e = "\<lparr>fe_fd = int n, fe_num_fd = 1, fe_status_flags = fl, fe_file_ops = Some ops,
    fe_private_data = pd\<rparr>"
  let ?t = "t\<lparr>alloc_state := mark_fd n (alloc_state t), fd_entries := (fd_entries t)[n := Some a],
    fd_heap := (fd_heap t)(a \<mapsto> ?e)\<rparr>"
  note i = fd_invar_parts [OF assms(1)] and b = lowest_free_bits [OF assms(1,2)]
  have n: "n < length (fd_entries t)" using b(1) i(4) by simp
  have inv: "fd_invar ?t"
    using alloc_ok_update [OF alloc_ok_mark [OF i(1) b(1)] b(1) mark_fd_bit [OF i(1) b(1)]]
      refs_ok_new [OF i(2) n b(4) assms(3), of ?e] by (simp add: fd_invar_def)
  have "fdCreate (Some a) fb fe (Some ops) pd fl t = Some (int n, Some a, ?t)"
    using n FindUnused_lowest [OF assms(1,2), of fb fe] by (simp add: fdCreate_def set_entry_def)
  with inv fdGet_update [OF assms(1) inv _ n] show ?thesis by (intro exI [of _ ?t]) simp
qed

theorem fd_create_lowest_witness:
  "\<exists>t'. fdCreate (Some 8) None None (Some 3) 5 0 example_table = Some (1, Some 8, t')
     \<and> fdGet 1 t' = Some (Some 8) \<and> fdGet 0 t' = fdGet 0 example_table \<and> fd_invar t'"
  using fd_create_lowest [OF example_invar example_lowest_free, of 8 None None 3 5 0]
  by (auto simp: example_table_def)

text \<open>\<^verbatim>\<open>fdDuplicate\<close> of a live entry makes the lowest free descriptor a second name of the
  very same entry, counts it, and leaves every other descriptor alone.\<close>

theorem fd_duplicate_shares:
  assumes "fd_invar t" "lowest_free t n" "fd_heap t a = Some e"
  shows "\<exists>t'. fdDuplicate fb fe a (- 1) t = Some (int n, t')
     \<and> fdGet (int n) t' = Some (Some a)
     \<and> fd_heap t' = (fd_heap t)(a \<mapsto> e\<lparr>fe_num_fd := fe_num_fd e + 1\<rparr>)
     \<and> (\<forall>fd. fd \<noteq> int n \<longrightarrow> fdGet fd t' = fdGet fd t) \<and> fd_invar t'"
proof -
  let ?t = "t\<lparr>alloc_state := mark_fd n (alloc_state t), fd_entries := (fd_entries t)[n := Some a],
    fd_heap := (fd_heap t)(a \<mapsto> e\<lparr>fe_num_fd := fe_num_fd e + 1\<rparr>)\<rparr>"
  note i = fd_invar_parts [OF assms(1)] and b = lowest_free_bits [OF assms(1,2)]
  have n: "n < length (fd_entries t)" using b(1) i(4) by simp
  have inv: "fd_invar ?t"
    using alloc_ok_update [OF alloc_ok_mark [OF i(1) b(1)] b(1) mark_fd_bit [OF i(1) b(1)]]
      refs_ok_share [OF i(2) n b(4) assms(3)] by (simp add: fd_invar_def)
  have "fdDuplicate fb fe a (- 1) t = Some (int n, ?t)"
    using n b(4) FindUnused_lowest [OF assms(1,2), of fb fe] assms(3)
    by (simp add: fdDuplicate_def entry_at_def set_entry_def)
  with inv fdGet_update [OF assms(1) inv _ n] show ?thesis by (intro exI [of _ ?t]) simp
qed

theorem fd_duplicate_shares_witness:
  "\<exists>t'. fdDuplicate None None 7 (- 1) example_table = Some (1, t')
     \<and> fdGet 1 t' = Some (Some 7) \<and> fd_invar t'"
  using fd_duplicate_shares [OF example_invar example_lowest_free, of 7 example_entry None None]
  by (auto simp: example_table_def)

text \<open>C38. \<^verbatim>\<open>fdDestroy\<close> of an open descriptor succeeds, closes exactly that descriptor, frees the
  entry exactly when it was the last name of it, makes the number available again unless it was
  declared once-only, and keeps the reference counts exact.\<close>

theorem fd_destroy_closes:
  assumes "fd_invar t" "fdGet (int n) t = Some (Some a)" "fd_heap t a = Some e"
  shows "\<exists>t'. fdDestroy (int n) t = Some (0, t')
     \<and> fdGet (int n) t' = Some None
     \<and> (\<forall>fd. fd \<noteq> int n \<longrightarrow> fdGet fd t' = fdGet fd t)
     \<and> (fd_heap t' a = None \<longleftrightarrow> fe_num_fd e = 1)
     \<and> spaceAllocIsAllocated (alloc_state t') n = Some (bit (once_only_fds t) n)
     \<and> fd_invar t'"
proof -
  note i = fd_invar_parts [OF assms(1)]
  have n: "n < length (fd_entries t)" "fd_entries t ! n = Some a"
    using assms(2) by (auto simp: fdGet_invar [OF assms(1)] split: if_splits)
  have lo: "n < 32" and bn: "bit (sa_bit_array (alloc_state t) ! 0) n"
    by (rule alloc_okD(6) [OF i(1) n], rule alloc_okD(7) [OF i(1) n])
  let ?sa = "if bit (once_only_fds t) n then alloc_state t else unmark_fd n (alloc_state t)"
  let ?t = "t\<lparr>fd_entries := (fd_entries t)[n := None], alloc_state := ?sa,
    fd_heap := drop_ref a e (fd_heap t)\<rparr>"
  have sa0: "alloc_ok (alloc_state t) ((fd_entries t)[n := None])"
    by (rule alloc_ok_update [OF i(1) lo bn])
  then have sa: "alloc_ok ?sa ((fd_entries t)[n := None])"
    using alloc_ok_unmark [OF sa0 _ lo] n(1) by simp
  have inv: "fd_invar ?t"
    using sa refs_ok_drop [OF i(2) n assms(3)] by (simp add: fd_invar_def)
  have al: "spaceAllocIsAllocated (alloc_state t) n = Some True"
    using IsAllocated_low [OF alloc_okD(1) [OF i(1)] lo] bn by simp
  have al': "spaceAllocIsAllocated ?sa n = Some (bit (once_only_fds t) n)"
    using IsAllocated_low [OF alloc_okD(1) [OF sa] lo] bn alloc_okD(5) [OF i(1)]
    by (simp add: unmark_fd_def bit_unset_bit_iff)
  have "n < sa_array_size (alloc_state t)" using n(1) i(3) by simp
  then have "fdDestroy (int n) t = Some (0, ?t)"
    using al n lo Release_low [OF i(1) lo] assms(3)
    by (simp add: fdDestroy_def spaceAllocGetSize_def entry_at_def set_entry_def IsClear_iff
        fdFree_def drop_ref_def BITARRAY_BITS_PER_INT_def)
  moreover have "drop_ref a e (fd_heap t) a = None \<longleftrightarrow> fe_num_fd e = 1"
    using refs_ok_at [OF i(2), of a] assms(3) by (auto simp: drop_ref_def)
  ultimately show ?thesis
    using inv al' fdGet_update [OF assms(1) inv _ n(1)] by (intro exI [of _ ?t]) simp
qed

theorem fd_destroy_closes_witness:
  "\<exists>t'. fdDestroy 0 example_table = Some (0, t') \<and> fdGet 0 t' = Some None \<and> fd_heap t' 7 = None
     \<and> spaceAllocIsAllocated (alloc_state t') 0 = Some True \<and> fd_invar t'"
proof -
  have "fdGet (int 0) example_table = Some (Some 7)" "fd_heap example_table 7 = Some example_entry"
    by (simp_all add: fdGet_invar [OF example_invar]) (simp_all add: example_table_def)
  from fd_destroy_closes [OF example_invar this] show ?thesis
    by (auto simp: example_table_def example_entry_def)
qed

lemma add_from_finds:
  assumes "i \<le> n" "n < length m" "m ! n = INT32_MAX" "\<And>j. i \<le> j \<Longrightarrow> j < n \<Longrightarrow> m ! j \<noteq> INT32_MAX"
  shows "add_from v m i = Some (int n, m[n := v])"
  using assms
proof (induction v m i rule: add_from.induct)
  case (1 v m i)
  show ?case
  proof (cases "i = n")
    case True
    with 1(3,4) show ?thesis by (subst add_from.simps) simp
  next
    case False
    then have "m ! i \<noteq> INT32_MAX" "i < length m" using 1(2-5) by auto
    with 1 False show ?thesis by (subst add_from.simps) simp
  qed
qed

lemmas fd_map_defs = fdAddInternal_def fdAddExternal_def fdIsInternal_def fdIsExternal_def
  fdIsMapped_def fdInt_def fdExt_def fdRemove_def map_at_def map_set_def INT32_MAX_def

text \<open>A descriptor of either kind put into the descriptor map gets the lowest unused number
  and comes back unchanged from it: \<^verbatim>\<open>fdInt\<close> returns what \<^verbatim>\<open>fdAddInternal\<close> stored, \<^verbatim>\<open>fdExt\<close> what
  \<^verbatim>\<open>fdAddExternal\<close> stored, each is recognised as its own kind only, and removing it restores the
  map.\<close>

theorem fd_map_roundtrip:
  assumes "n < length m" "m ! n = INT32_MAX" "\<forall>j<n. m ! j \<noteq> INT32_MAX"
    and "0 \<le> fd" "fd < INT32_MAX - 1"
  shows "\<exists>m1 m2. fdAddInternal fd m = Some (int n, m1) \<and> fdAddExternal fd m = Some (int n, m2)
     \<and> fdInt m1 (int n) = Some fd \<and> fdExt m2 (int n) = Some fd
     \<and> fdIsInternal m1 (int n) = Some True \<and> fdIsExternal m1 (int n) = Some False
     \<and> fdIsInternal m2 (int n) = Some False \<and> fdIsExternal m2 (int n) = Some True
     \<and> (\<forall>k. k \<noteq> int n \<longrightarrow> map_at m1 k = map_at m k \<and> map_at m2 k = map_at m k)
     \<and> fdRemove (int n) m1 = Some m \<and> fdRemove (int n) m2 = Some m"
proof -
  have add: "add_from v m 0 = Some (int n, m[n := v])" for v
    using assms(1-3) by (intro add_from_finds) auto
  have "m[n := INT32_MAX] = m" using assms(2) by (metis list_update_id)
  with assms(1,4,5) show ?thesis
    by (simp add: add fdAddInternal_def fdAddExternal_def)
      (auto simp: fd_map_defs nth_list_update)
qed

theorem fd_map_roundtrip_witness:
  "\<exists>m1. fdAddInternal 5 [1, INT32_MAX, INT32_MAX] = Some (1, m1) \<and> fdInt m1 1 = Some 5"
  using fd_map_roundtrip [of 1 "[1, INT32_MAX, INT32_MAX]" 5] by (auto simp: INT32_MAX_def)

end
