(* ===== verification/Time_Arith.thy ===== *)
theory Time_Arith
  imports Faux_Prelude
begin

text \<open>
  Time arithmetic (\<open>libs/utilities/time_arith.c\<close>): differences and sums of \<^verbatim>\<open>struct timeval\<close>
  and the conversion of cycle counts.  \<^verbatim>\<open>timeval_subtract\<close> updates its argument \<^verbatim>\<open>y\<close>, so the
  updated value is part of its result.  The clock rate \<^verbatim>\<open>CONFIG_HARDWARE_KHZ\<close> is an argument.
\<close>

record timeval =
  tv_sec :: int
  tv_usec :: int

definition timeval_subtract :: "timeval \<Rightarrow> timeval \<Rightarrow> bool \<times> timeval \<times> timeval" where
  "timeval_subtract x y =
     (let y = (if tv_usec x < tv_usec y
               then (let nsec = c_int (c_div (tv_usec y - tv_usec x) 1000000 + 1)
                     in y\<lparr>tv_usec := tv_usec y - 1000000 * nsec, tv_sec := tv_sec y + nsec\<rparr>)
               else y);
          y = (if tv_usec x - tv_usec y > 1000000
               then (let nsec = c_int (c_div (tv_usec x - tv_usec y) 1000000)
                     in y\<lparr>tv_usec := tv_usec y + 1000000 * nsec, tv_sec := tv_sec y - nsec\<rparr>)
               else y);
          result = \<lparr>tv_sec = tv_sec x - tv_sec y, tv_usec = tv_usec x - tv_usec y\<rparr>
      in (tv_sec x < tv_sec y \<or> (tv_sec x = tv_sec y \<and> tv_usec x < tv_usec y), result, y))"

definition timeval_add :: "timeval \<Rightarrow> timeval \<Rightarrow> timeval" where
  "timeval_add x y =
     (let tmp = \<lparr>tv_sec = tv_sec x + tv_sec y, tv_usec = tv_usec x + tv_usec y\<rparr>
      in if tv_usec tmp > 1000000
         then tmp\<lparr>tv_sec := tv_sec tmp + 1, tv_usec := tv_usec tmp - 1000000\<rparr>
         else tmp)"

definition timeval_diff_ms :: "timeval \<Rightarrow> timeval \<Rightarrow> int \<times> timeval" where
  "timeval_diff_ms x y =
     (let (_, elapsed, y) = timeval_subtract x y
      in (c_int (tv_sec elapsed * 1000 + c_div (tv_usec elapsed) 1000), y))"

definition ts_to_ms :: "nat \<Rightarrow> nat \<Rightarrow> nat" where
  "ts_to_ms hardware_khz cycles = cycles div hardware_khz"

definition ts_to_us :: "nat \<Rightarrow> nat \<Rightarrow> nat" where
  "ts_to_us hardware_khz cycles = cycles div (hardware_khz div 1000)"

section \<open>The time a value stands for\<close>

definition usecs :: "timeval \<Rightarrow> int" where
  "usecs t = tv_sec t * 1000000 + tv_usec t"

definition normal :: "timeval \<Rightarrow> bool" where
  "normal t \<longleftrightarrow> 0 \<le> tv_usec t \<and> tv_usec t < 1000000"

lemma subtract_cases:
  assumes "normal x" "normal y"
  shows "timeval_subtract x y =
    (if tv_usec x < tv_usec y
     then (tv_sec x < tv_sec y + 1,
           \<lparr>tv_sec = tv_sec x - tv_sec y - 1, tv_usec = tv_usec x - tv_usec y + 1000000\<rparr>,
           y\<lparr>tv_usec := tv_usec y - 1000000, tv_sec := tv_sec y + 1\<rparr>)
     else (tv_sec x < tv_sec y,
           \<lparr>tv_sec = tv_sec x - tv_sec y, tv_usec = tv_usec x - tv_usec y\<rparr>, y))"
proof -
  have "(tv_usec y - tv_usec x) div 1000000 = 0" if "tv_usec x < tv_usec y"
    using assms that by (intro div_pos_pos_trivial) (auto simp: normal_def)
  then show ?thesis using assms by (auto simp: timeval_subtract_def normal_def Let_def)
qed

section \<open>Properties\<close>

text \<open>On normalised times \<^verbatim>\<open>timeval_subtract\<close> computes the exact difference in normalised form,
  reports exactly whether it is negative, and the carry it leaves in \<^verbatim>\<open>y\<close> does not change the
  time \<^verbatim>\<open>y\<close> stands for; \<^verbatim>\<open>timeval_diff_ms\<close> is the difference in milliseconds, rounded down, as
  long as that fits an \<^verbatim>\<open>int\<close>.\<close>

theorem timeval_subtract_exact:
  assumes "normal x" "normal y"
  shows "\<exists>neg r y'. timeval_subtract x y = (neg, r, y')
     \<and> usecs r = usecs x - usecs y \<and> normal r
     \<and> (neg \<longleftrightarrow> usecs x < usecs y) \<and> usecs y' = usecs y
     \<and> (\<bar>usecs x - usecs y\<bar> \<le> 2 ^ 31 * 1000 - 1000
        \<longrightarrow> fst (timeval_diff_ms x y) = (usecs x - usecs y) div 1000)"
proof -
  obtain neg r y' where s: "timeval_subtract x y = (neg, r, y')" by (cases "timeval_subtract x y")
  have r: "usecs r = usecs x - usecs y" "normal r" "neg \<longleftrightarrow> usecs x < usecs y" "usecs y' = usecs y"
    using s assms by (auto simp: subtract_cases usecs_def normal_def split: if_splits)
  have ms: "tv_sec r * 1000 + c_div (tv_usec r) 1000 = (usecs x - usecs y) div 1000"
  proof -
    have "usecs r div 1000 = tv_sec r * 1000 + tv_usec r div 1000" unfolding usecs_def by linarith
    with r(1,2) show ?thesis by (simp add: normal_def)
  qed
  have "- (2 ^ 31) \<le> (usecs x - usecs y) div 1000 \<and> (usecs x - usecs y) div 1000 < 2 ^ 31"
    if "\<bar>usecs x - usecs y\<bar> \<le> 2 ^ 31 * 1000 - 1000" using that by linarith
  then show ?thesis using s r ms by (auto simp: timeval_diff_ms_def)
qed

theorem timeval_subtract_exact_witness:
  "\<exists>neg r y'. timeval_subtract \<lparr>tv_sec = 5, tv_usec = 1\<rparr> \<lparr>tv_sec = 3, tv_usec = 4\<rparr> = (neg, r, y')
     \<and> usecs r = 1999997 \<and> normal r \<and> \<not> neg"
  using timeval_subtract_exact [of "\<lparr>tv_sec = 5, tv_usec = 1\<rparr>" "\<lparr>tv_sec = 3, tv_usec = 4\<rparr>"]
  by (auto simp: usecs_def normal_def)

text \<open>\<^verbatim>\<open>timeval_add\<close> always computes the exact sum, but of two normalised times the result is
  normalised only if the microseconds do not add up to exactly one second: in that case the
  carry is missed.\<close>

theorem timeval_add_carry:
  assumes "normal x" "normal y"
  shows "usecs (timeval_add x y) = usecs x + usecs y
     \<and> (normal (timeval_add x y) \<longleftrightarrow> tv_usec x + tv_usec y \<noteq> 1000000)"
  using assms by (auto simp: timeval_add_def usecs_def normal_def Let_def)

theorem timeval_add_carry_witness:
  "usecs (timeval_add \<lparr>tv_sec = 0, tv_usec = 500000\<rparr> \<lparr>tv_sec = 0, tv_usec = 500000\<rparr>) = 1000000
   \<and> \<not> normal (timeval_add \<lparr>tv_sec = 0, tv_usec = 500000\<rparr> \<lparr>tv_sec = 0, tv_usec = 500000\<rparr>)"
  using timeval_add_carry [of "\<lparr>tv_sec = 0, tv_usec = 500000\<rparr>" "\<lparr>tv_sec = 0, tv_usec = 500000\<rparr>"]
  by (simp add: usecs_def normal_def)

end
