(* ===== verification/Name_Server.thy ===== *)
theory Name_Server
  imports Faux_Prelude
begin

text \<open>
  The name service: the server's handlers (\<open>name/nameserver.cpp\<close>), the messages
  (\<open>name/name_internal.h\<close>) and the client library (\<open>name/name.cpp\<close>).

  A handler takes the request message, its size in bytes and the server's tables, and returns the
  response with the new tables; \<^term>\<open>None\<close> is a failed \<^verbatim>\<open>assert\<close>.  The client reaches the server
  through the dispatch layer, an argument \<open>rpc\<close> of the client functions; composed with
  \<open>nameserver_rpc\<close>, which delivers each message to the handler registered for its type, they are the
  service that \<open>name_service\<close> specifies.
\<close>

unbundle bit_operations_syntax

section \<open>Interface: a name service\<close>

text \<open>What the users of \<open>name.h\<close> rely on: registering puts an address in front of those of its
  name, a look-up returns the first one and moves it to the back.\<close>

locale name_service =
  fixes reg :: "'n \<Rightarrow> 'a \<Rightarrow> 's \<Rightarrow> 's option"
    and unreg :: "'n \<Rightarrow> 'a \<Rightarrow> 's \<Rightarrow> 's option"
    and look :: "'n \<Rightarrow> 's \<Rightarrow> ('a option \<times> 's) option"
    and addrs :: "'s \<Rightarrow> 'n \<Rightarrow> 'a list"
    and valid :: "'a \<Rightarrow> bool"
    and invar :: "'s \<Rightarrow> bool"
  assumes reg_law: "invar s \<Longrightarrow> valid a \<Longrightarrow>
        \<exists>s'. reg n a s = Some s' \<and> invar s' \<and> addrs s' = (addrs s)(n := a # addrs s n)"
    and unreg_law: "invar s \<Longrightarrow>
        \<exists>s'. unreg n a s = Some s' \<and> invar s' \<and> addrs s' = (addrs s)(n := removeAll a (addrs s n))"
    and look_none: "invar s \<Longrightarrow> addrs s n = [] \<Longrightarrow>
        \<exists>s'. look n s = Some (None, s') \<and> invar s' \<and> addrs s' = addrs s"
    and look_some: "invar s \<Longrightarrow> addrs s n = a # as \<Longrightarrow>
        \<exists>s'. look n s = Some (Some a, s') \<and> invar s' \<and> addrs s' = (addrs s)(n := as @ [a])"
begin

fun look_many :: "nat \<Rightarrow> 'n \<Rightarrow> 's \<Rightarrow> 'a list option" where
  "look_many 0 n s = Some []"
| "look_many (Suc k) n s = do {
     (r, s') \<leftarrow> look n s;
     a \<leftarrow> r;
     as \<leftarrow> look_many k n s';
     Some (a # as)
   }"

lemma look_many_round_robin:
  assumes "invar s" "addrs s n \<noteq> []"
  shows "look_many k n s = Some (map (\<lambda>i. addrs s n ! (i mod length (addrs s n))) [0..<k])"
  using assms
proof (induction k arbitrary: s)
  case 0
  then show ?case by simp
next
  case (Suc k)
  then obtain a as where as: "addrs s n = a # as" by (cases "addrs s n") auto
  from look_some [OF Suc.prems(1) as] obtain s' where
    s': "look n s = Some (Some a, s')" "invar s'" "addrs s' = (addrs s)(n := as @ [a])" by blast
  have "look_many k n s' = Some (map (\<lambda>i. (as @ [a]) ! (i mod Suc (length as))) [0..<k])"
    using Suc.IH [OF s'(2)] s'(3) by simp
  moreover have "(as @ [a]) ! (i mod Suc (length as)) = (a # as) ! (Suc i mod Suc (length as))" for i
  proof (cases "i mod Suc (length as) = length as")
    case True
    then show ?thesis by (simp add: mod_Suc)
  next
    case False
    moreover have "i mod Suc (length as) < Suc (length as)" by (rule mod_less_divisor) simp
    ultimately have "i mod Suc (length as) < length as" by linarith
    with False show ?thesis by (simp add: mod_Suc nth_append)
  qed
  ultimately show ?case
    using s' by (simp add: as map_upt_Suc del: upt_Suc)
qed

lemma registered_is_found:
  assumes "invar s" "valid a"
  shows "\<exists>s1 s2. reg n a s = Some s1 \<and> look n s1 = Some (Some a, s2) \<and> invar s2"
proof -
  from reg_law [OF assms, of n] obtain s1 where s1: "reg n a s = Some s1" "invar s1"
    "addrs s1 n = a # addrs s n" by fastforce
  with look_some [OF s1(2,3)] show ?thesis by blast
qed

lemma unregister_last:
  assumes "invar s" "set (addrs s n) \<subseteq> {a}"
  shows "\<exists>s1 s2. unreg n a s = Some s1 \<and> look n s1 = Some (None, s2)"
proof -
  from unreg_law [OF assms(1), of n a] obtain s1 where s1: "unreg n a s = Some s1" "invar s1"
    "addrs s1 = (addrs s)(n := removeAll a (addrs s n))" by blast
  moreover have "removeAll a (addrs s n) = []" using assms(2) by (auto simp: removeAll_filter_not_eq filter_empty_conv)
  ultimately show ?thesis using look_none [of s1 n] by fastforce
qed

end

section \<open>Messages\<close>

type_synonym Name = nat
type_synonym Address = nat

definition NO_ADDRESS :: Address where
  "NO_ADDRESS = SIZE_MAX"

record NameRegisterRequest =
  nrr_core :: int
  nrr_name :: Name
  nrr_ep_addr :: Address

record NameUnregisterRequest =
  nur_core :: int
  nur_name :: Name
  nur_ep_addr :: Address

record NameLookupRequest =
  nlr_core :: int
  nlr_name :: Name

record NameLookupResponse =
  nlp_ep_addr :: Address
  nlp_ack :: bool

datatype NameRequest =
    RegisterRequest NameRegisterRequest
  | UnregisterRequest NameUnregisterRequest
  | LookupRequest NameLookupRequest
  | CloseNotification

datatype NameResponse =
    RegisterResponse bool
  | UnregisterResponse bool
  | LookupResponse NameLookupResponse

definition NAME_CLOSE :: int where "NAME_CLOSE = 0"
definition NAME_REGISTER :: int where "NAME_REGISTER = 1"
definition NAME_UNREGISTER :: int where "NAME_UNREGISTER = 2"
definition NAME_LOOKUP :: int where "NAME_LOOKUP = 3"

text \<open>Sizes of the packed structures, in bytes.\<close>

fun sizeof_request :: "NameRequest \<Rightarrow> nat" where
  "sizeof_request (RegisterRequest _) = 20"
| "sizeof_request (UnregisterRequest _) = 20"
| "sizeof_request (LookupRequest _) = 12"
| "sizeof_request CloseNotification = 4"

fun sizeof_response :: "NameResponse \<Rightarrow> nat" where
  "sizeof_response (RegisterResponse _) = 1"
| "sizeof_response (UnregisterResponse _) = 1"
| "sizeof_response (LookupResponse _) = 9"

section \<open>The server\<close>

definition CORE_TO_SOCK :: "int \<Rightarrow> nat" where
  "CORE_TO_SOCK core = nat (core AND (int SOCK_NUM - 1))"

type_synonym EndpointAddresses = "Address list"
type_synonym ForwardNameTable = "Name \<Rightarrow> EndpointAddresses option"
type_synonym NameTables = "ForwardNameTable list"

definition nameserver_init :: NameTables where
  "nameserver_init = replicate SOCK_NUM Map.empty"

definition nameserver_name_register ::
    "NameRegisterRequest \<Rightarrow> nat \<Rightarrow> NameTables \<Rightarrow> (bool \<times> NameTables) option" where
  "nameserver_name_register req sz tabs =
     (if sz \<noteq> 20 then None
      else let sock = CORE_TO_SOCK (nrr_core req); name = nrr_name req; ep_addr = nrr_ep_addr req
      in if length tabs \<le> sock then None
         else Some (True,
           (case (tabs ! sock) name of
              Some as \<Rightarrow> tabs[sock := (tabs ! sock)(name \<mapsto> ep_addr # as)]
            | None \<Rightarrow> tabs[sock := (tabs ! sock)(name \<mapsto> [ep_addr])])))"

definition nameserver_name_unregister ::
    "NameUnregisterRequest \<Rightarrow> nat \<Rightarrow> NameTables \<Rightarrow> (bool \<times> NameTables) option" where
  "nameserver_name_unregister req sz tabs =
     (if sz \<noteq> 20 then None
      else let sock = CORE_TO_SOCK (nur_core req); name = nur_name req; ep_addr = nur_ep_addr req
      in if length tabs \<le> sock then None
         else Some (True,
           (case (tabs ! sock) name of
              Some as \<Rightarrow>
                (let as' = removeAll ep_addr as
                 in if length as' = 0 then tabs[sock := (tabs ! sock)(name := None)]
                    else tabs[sock := (tabs ! sock)(name \<mapsto> as')])
            | None \<Rightarrow> tabs)))"

text \<open>One table: the front address, moved to the back; \<open>front\<close> of an empty list is undefined.\<close>

definition take_round_robin ::
    "ForwardNameTable \<Rightarrow> Name \<Rightarrow> (Address \<times> ForwardNameTable) option option" where
  "take_round_robin tab name =
     (case tab name of
        None \<Rightarrow> Some None
      | Some [] \<Rightarrow> None
      | Some (a # as) \<Rightarrow> Some (Some (a, tab(name \<mapsto> as @ [a]))))"

function lookup_others ::
    "Name \<Rightarrow> nat \<Rightarrow> nat \<Rightarrow> NameTables \<Rightarrow> (Address \<times> NameTables) option" where
  "lookup_others name sock sock_i tabs =
     (if sock_i < SOCK_NUM then
        (if sock_i = sock then lookup_others name sock (Suc sock_i) tabs
         else if length tabs \<le> sock_i then None
         else case take_round_robin (tabs ! sock_i) name of
             None \<Rightarrow> None
           | Some None \<Rightarrow> lookup_others name sock (Suc sock_i) tabs
           | Some (Some (a, tab)) \<Rightarrow> Some (a, tabs[sock_i := tab]))
      else Some (NO_ADDRESS, tabs))"
  by pat_completeness auto
termination
  by (relation "measure (\<lambda>(name, sock, i, tabs). SOCK_NUM - i)") auto

declare lookup_others.simps [simp del]

definition nameserver_name_lookup ::
    "NameLookupRequest \<Rightarrow> nat \<Rightarrow> NameTables \<Rightarrow> (NameLookupResponse \<times> NameTables) option" where
  "nameserver_name_lookup req sz tabs =
     (if sz \<noteq> 12 then None
      else let sock = CORE_TO_SOCK (nlr_core req); name = nlr_name req
      in if length tabs \<le> sock then None
         else do {
           found \<leftarrow> take_round_robin (tabs ! sock) name;
           let (ep_addr, tabs) = (case found of
               None \<Rightarrow> (NO_ADDRESS, tabs)
             | Some (a, tab) \<Rightarrow> (a, tabs[sock := tab]));
           (ep_addr, tabs) \<leftarrow> (if ep_addr = NO_ADDRESS then lookup_others name sock 0 tabs
                               else Some (ep_addr, tabs));
           Some (\<lparr>nlp_ep_addr = ep_addr, nlp_ack = (ep_addr \<noteq> NO_ADDRESS)\<rparr>, tabs)
         })"

definition nameserver_name_close :: "nat \<Rightarrow> NameTables \<Rightarrow> NameTables option" where
  "nameserver_name_close sz tabs = (if sz = 4 then Some tabs else None)"

text \<open>Delivery of a message to the handler that \<^verbatim>\<open>nameserver_init\<close> registered for its type.  A type
  that does not match the message would make a handler read a structure of another kind.\<close>

fun nameserver_rpc ::
    "int \<Rightarrow> NameRequest \<Rightarrow> nat \<Rightarrow> NameTables \<Rightarrow> (NameResponse option \<times> NameTables) option" where
  "nameserver_rpc ty (RegisterRequest r) sz tabs =
     (if ty = NAME_REGISTER
      then map_option (\<lambda>(ack, tabs). (Some (RegisterResponse ack), tabs))
             (nameserver_name_register r sz tabs) else None)"
| "nameserver_rpc ty (UnregisterRequest r) sz tabs =
     (if ty = NAME_UNREGISTER
      then map_option (\<lambda>(ack, tabs). (Some (UnregisterResponse ack), tabs))
             (nameserver_name_unregister r sz tabs) else None)"
| "nameserver_rpc ty (LookupRequest r) sz tabs =
     (if ty = NAME_LOOKUP
      then map_option (\<lambda>(res, tabs). (Some (LookupResponse res), tabs))
             (nameserver_name_lookup r sz tabs) else None)"
| "nameserver_rpc ty CloseNotification sz tabs =
     (if ty = NAME_CLOSE
      then map_option (\<lambda>tabs. (None, tabs)) (nameserver_name_close sz tabs) else None)"

section \<open>The client library\<close>

text \<open>\<open>rpc\<close> is \<^verbatim>\<open>dispatchRequest\<close> followed by \<^verbatim>\<open>dispatchReceive\<close> on the name server's channel, with
  \<open>'w\<close> the state behind it.  \<^verbatim>\<open>g_core\<close> is 0 as \<^verbatim>\<open>USE_LOCALITY\<close> is.\<close>

type_synonym 'w name_rpc =
  "int \<Rightarrow> NameRequest \<Rightarrow> nat \<Rightarrow> 'w \<Rightarrow> (NameResponse option \<times> 'w) option"

definition g_core :: int where
  "g_core = 0"

definition name_register :: "'w name_rpc \<Rightarrow> Name \<Rightarrow> Address \<Rightarrow> 'w \<Rightarrow> 'w option" where
  "name_register rpc name ep_addr w =
     (let req = RegisterRequest \<lparr>nrr_core = g_core, nrr_name = name, nrr_ep_addr = ep_addr\<rparr>
      in do {
        (res, w) \<leftarrow> rpc NAME_REGISTER req 20 w;
        case res of Some (RegisterResponse True) \<Rightarrow> Some w | _ \<Rightarrow> None
      })"

definition name_unregister :: "'w name_rpc \<Rightarrow> Name \<Rightarrow> Address \<Rightarrow> 'w \<Rightarrow> 'w option" where
  "name_unregister rpc name ep_addr w =
     (let req = UnregisterRequest \<lparr>nur_core = g_core, nur_name = name, nur_ep_addr = ep_addr\<rparr>
      in do {
        (res, w) \<leftarrow> rpc NAME_UNREGISTER req 20 w;
        case res of Some (UnregisterResponse True) \<Rightarrow> Some w | _ \<Rightarrow> None
      })"

text \<open>The result is the acknowledgement with the value stored through \<^verbatim>\<open>ep_addr\<close>.\<close>

definition name_lookup :: "'w name_rpc \<Rightarrow> Name \<Rightarrow> 'w \<Rightarrow> (bool \<times> Address \<times> 'w) option" where
  "name_lookup rpc name w =
     (let req = LookupRequest \<lparr>nlr_core = g_core, nlr_name = name\<rparr>
      in do {
        (res, w) \<leftarrow> rpc NAME_LOOKUP req 12 w;
        case res of
          Some (LookupResponse r) \<Rightarrow> Some (nlp_ack r, nlp_ep_addr r, w)
        | _ \<Rightarrow> None
      })"

definition name_cleanup :: "'w name_rpc \<Rightarrow> 'w \<Rightarrow> 'w option" where
  "name_cleanup rpc w = do {
     (_, w) \<leftarrow> rpc NAME_CLOSE CloseNotification 4 w;
     Some w
   }"

section \<open>Client and server together meet the interface\<close>

definition ns_addrs :: "NameTables \<Rightarrow> Name \<Rightarrow> Address list" where
  "ns_addrs tabs name = (case (tabs ! 0) name of None \<Rightarrow> [] | Some as \<Rightarrow> as)"

definition ns_invar :: "NameTables \<Rightarrow> bool" where
  "ns_invar tabs \<longleftrightarrow> length tabs = SOCK_NUM
     \<and> (\<forall>name as. (tabs ! 0) name = Some as \<longrightarrow> as \<noteq> [] \<and> NO_ADDRESS \<notin> set as)"

definition ns_lookup :: "Name \<Rightarrow> NameTables \<Rightarrow> (Address option \<times> NameTables) option" where
  "ns_lookup name tabs =
     map_option (\<lambda>(ack, a, tabs). (if ack then Some a else None, tabs))
       (name_lookup nameserver_rpc name tabs)"

lemma CORE_TO_SOCK_0 [simp]: "CORE_TO_SOCK core = 0"
  by (simp add: CORE_TO_SOCK_def SOCK_NUM_def)

lemma sock_tables: "ns_invar tabs \<Longrightarrow> \<exists>tab. tabs = [tab]"
  by (cases tabs) (auto simp: ns_invar_def SOCK_NUM_def)

lemma lookup_others_none: "lookup_others name 0 0 tabs = Some (NO_ADDRESS, tabs)"
  by (simp add: lookup_others.simps [of name 0 0] lookup_others.simps [of name 0 "Suc 0"] SOCK_NUM_def)

lemma name_register_tables:
  "name_register nameserver_rpc n a [tab] =
     Some [tab(n \<mapsto> a # (case tab n of None \<Rightarrow> [] | Some as \<Rightarrow> as))]"
  by (simp add: name_register_def nameserver_name_register_def split: option.splits)

lemma name_unregister_tables:
  "name_unregister nameserver_rpc n a [tab] =
     Some [case tab n of None \<Rightarrow> tab
           | Some as \<Rightarrow> tab(n := if removeAll a as = [] then None else Some (removeAll a as))]"
  by (auto simp: name_unregister_def nameserver_name_unregister_def Let_def split: option.splits)

lemma ns_lookup_tables:
  assumes "ns_invar [tab]"
  shows "ns_lookup n [tab] =
     Some (case tab n of None \<Rightarrow> (None, [tab])
           | Some as \<Rightarrow> (Some (hd as), [tab(n \<mapsto> tl as @ [hd as])]))"
proof (cases "tab n")
  case None
  then show ?thesis
    by (simp add: ns_lookup_def name_lookup_def nameserver_name_lookup_def take_round_robin_def
        lookup_others_none)
next
  case (Some as)
  moreover from this assms have "as \<noteq> []" "NO_ADDRESS \<notin> set as" by (simp_all add: ns_invar_def)
  ultimately show ?thesis
    by (cases as) (auto simp: ns_lookup_def name_lookup_def nameserver_name_lookup_def
        take_round_robin_def lookup_others_none)
qed

lemma ns_invar_upd:
  assumes "ns_invar [tab]" "as \<noteq> [] \<longrightarrow> NO_ADDRESS \<notin> set as"
  shows "ns_invar [tab(n := if as = [] then None else Some as)]"
    and "ns_addrs [tab(n := if as = [] then None else Some as)] = (ns_addrs [tab])(n := as)"
  using assms by (auto simp: ns_invar_def ns_addrs_def fun_eq_iff split: if_splits)

lemma ns_addrs_tab: "ns_addrs [tab] n = (case tab n of None \<Rightarrow> [] | Some as \<Rightarrow> as)"
  by (simp add: ns_addrs_def)

lemma ns_addrs_valid: "ns_invar [tab] \<Longrightarrow> NO_ADDRESS \<notin> set (ns_addrs [tab] n)"
  by (auto simp: ns_invar_def ns_addrs_tab split: option.splits)

interpretation ns: name_service
  "name_register nameserver_rpc" "name_unregister nameserver_rpc" ns_lookup
  ns_addrs "\<lambda>a. a \<noteq> NO_ADDRESS" ns_invar
proof unfold_locales
  show "\<exists>s'. name_register nameserver_rpc n a s = Some s' \<and> ns_invar s'
      \<and> ns_addrs s' = (ns_addrs s)(n := a # ns_addrs s n)"
    if "ns_invar s" "a \<noteq> NO_ADDRESS" for s a n
  proof -
    from sock_tables [OF that(1)] obtain tab where s: "s = [tab]" by blast
    with that show ?thesis
      using ns_invar_upd [of tab "a # ns_addrs [tab] n" n] ns_addrs_valid [of tab n]
      by (simp add: name_register_tables ns_addrs_tab)
  qed
  show "\<exists>s'. name_unregister nameserver_rpc n a s = Some s' \<and> ns_invar s'
      \<and> ns_addrs s' = (ns_addrs s)(n := removeAll a (ns_addrs s n))"
    if "ns_invar s" for s n a
  proof -
    from sock_tables [OF that(1)] obtain tab where s: "s = [tab]" by blast
    show ?thesis
    proof (cases "tab n")
      case None
      with that s show ?thesis by (simp add: name_unregister_tables ns_addrs_tab fun_upd_idem)
    next
      case (Some as)
      with that s ns_addrs_valid [of tab n] ns_invar_upd [of tab "removeAll a as" n]
      show ?thesis by (simp add: name_unregister_tables ns_addrs_tab)
    qed
  qed
  show "\<exists>s'. ns_lookup n s = Some (None, s') \<and> ns_invar s' \<and> ns_addrs s' = ns_addrs s"
    if "ns_invar s" "ns_addrs s n = []" for s n
  proof -
    from sock_tables [OF that(1)] obtain tab where s: "s = [tab]" by blast
    moreover have "tab n = None"
      using that s by (auto simp: ns_invar_def ns_addrs_def split: option.splits)
    ultimately show ?thesis using that(1) ns_lookup_tables [of tab n] by simp
  qed
  show "\<exists>s'. ns_lookup n s = Some (Some a, s') \<and> ns_invar s'
      \<and> ns_addrs s' = (ns_addrs s)(n := as @ [a])"
    if "ns_invar s" "ns_addrs s n = a # as" for s n a as
  proof -
    from sock_tables [OF that(1)] obtain tab where s: "s = [tab]" by blast
    moreover have "tab n = Some (a # as)"
      using that(2) s by (simp add: ns_addrs_def split: option.splits)
    ultimately show ?thesis
      using that ns_lookup_tables [of tab n] ns_addrs_valid [of tab n] ns_invar_upd [of tab "as @ [a]" n]
      by simp
  qed
qed

text \<open>A run of \<open>k\<close> look-ups of one name that all succeed, with the addresses they return.\<close>

fun lookup_run :: "nat \<Rightarrow> Name \<Rightarrow> NameTables \<Rightarrow> Address list option" where
  "lookup_run 0 name tabs = Some []"
| "lookup_run (Suc k) name tabs = do {
     (ack, a, tabs) \<leftarrow> name_lookup nameserver_rpc name tabs;
     if ack then do { as \<leftarrow> lookup_run k name tabs; Some (a # as) } else None
   }"

lemma lookup_run_look_many: "lookup_run k name tabs = ns.look_many k name tabs"
  by (induction k arbitrary: tabs)
    (auto simp: ns_lookup_def split: Option.bind_splits)

section \<open>Properties\<close>

text \<open>C39. Look-ups of one name visit its registered endpoints in turn: the \<open>i\<close>-th of a run of
  look-ups through the client library and the server returns the address at position \<open>i\<close> modulo
  the number of registered endpoints, so that every endpoint is used equally often.\<close>

theorem name_lookup_round_robin:
  assumes "ns_invar tabs" "ns_addrs tabs name \<noteq> []"
  shows "lookup_run k name tabs =
    Some (map (\<lambda>i. ns_addrs tabs name ! (i mod length (ns_addrs tabs name))) [0..<k])"
  unfolding lookup_run_look_many using assms by (rule ns.look_many_round_robin)

theorem name_lookup_round_robin_witness:
  "lookup_run 5 7 [[7 \<mapsto> [10, 11, 12]]] = Some [10, 11, 12, 10, 11]"
proof -
  have "ns_invar [[7 \<mapsto> [10, 11, 12]]]" "ns_addrs [[7 \<mapsto> [10, 11, 12]]] 7 \<noteq> []"
    by (auto simp: ns_invar_def ns_addrs_def SOCK_NUM_def NO_ADDRESS_def)
  from name_lookup_round_robin [OF this, of 5] show ?thesis
    by (simp add: ns_addrs_def upt_conv_Cons)
qed

text \<open>A registered endpoint is the one the next look-up of its name returns, and once the only
  endpoint of a name is unregistered a look-up reports that the name is unknown.\<close>

theorem name_register_lookup_unregister:
  assumes "ns_invar tabs" "a \<noteq> NO_ADDRESS" "set (ns_addrs tabs name) \<subseteq> {a}"
  shows "(\<exists>t1 t2. name_register nameserver_rpc name a tabs = Some t1
            \<and> ns_lookup name t1 = Some (Some a, t2) \<and> ns_invar t2)
     \<and> (\<exists>t1 t2. name_unregister nameserver_rpc name a tabs = Some t1
            \<and> ns_lookup name t1 = Some (None, t2))"
  using ns.registered_is_found [OF assms(1,2)] ns.unregister_last [OF assms(1,3)] by blast

theorem name_register_lookup_unregister_witness:
  "\<exists>t1 t2. name_unregister nameserver_rpc 7 10 [[7 \<mapsto> [10]]] = Some t1
     \<and> ns_lookup 7 t1 = Some (None, t2)"
  using name_register_lookup_unregister [of "[[7 \<mapsto> [10]]]" 10 7]
  by (simp add: ns_invar_def ns_addrs_def SOCK_NUM_def NO_ADDRESS_def)

end
