(* ===== verification/Core_Server.thy ===== *)
theory Core_Server
  imports Faux_Prelude
begin

text \<open>
  The core server (\<open>coreserv/coreserver.cpp\<close>, \<open>core_internal.h\<close>) and its client
  (\<open>coreserv/core.cpp\<close>): processes ask for a core of a group, and the server reclaims the cores of
  processes that ended.

  \<^verbatim>\<open>std::map\<close>'s indexing creates a missing list as an empty one, so the groups are a total function
  to lists; the ordered set of polled processes is a sorted list.  Whether a process is still alive
  (its \<open>/proc\<close> entry opens) is an argument.
\<close>

section \<open>State and operations\<close>

type_synonym pid_t = int

record CoreServer =
  g_coregroup :: "nat \<Rightarrow> nat list"
  g_pidcore :: "pid_t \<Rightarrow> nat list option"
  g_pollpids :: "pid_t list"

abbreviation CONFIG_CORESERV_GROUPS :: nat where
  "CONFIG_CORESERV_GROUPS \<equiv> SOCK_NUM"

abbreviation CONFIG_CORESERV_CORES :: nat where
  "CONFIG_CORESERV_CORES \<equiv> CORE_NUM"

record CoreGetRequest =
  cgr_group :: nat
  cgr_pid :: pid_t

record CoreGetResponse =
  cgp_core :: nat
  cgp_ack :: bool

definition NO_CORE :: nat where
  "NO_CORE = SIZE_MAX"

definition coreserver_init :: CoreServer where
  "coreserver_init =
     \<lparr>g_coregroup = fold (\<lambda>i g. g(i mod CONFIG_CORESERV_GROUPS :=
                                  g (i mod CONFIG_CORESERV_GROUPS) @ [i]))
                    [1..<CONFIG_CORESERV_CORES] (\<lambda>_. []),
      g_pidcore = Map.empty, g_pollpids = []\<rparr>"

text \<open>One round of the \<^verbatim>\<open>do\<close> loop per unit of fuel; the loop is back at its first group after
  \<^verbatim>\<open>CONFIG_CORESERV_GROUPS\<close> rounds.\<close>

fun core_get_loop ::
    "nat \<Rightarrow> nat \<Rightarrow> nat \<Rightarrow> pid_t \<Rightarrow> CoreServer \<Rightarrow> (nat \<times> bool \<times> CoreServer) option" where
  "core_get_loop 0 startgroup grp pid st = None"
| "core_get_loop (Suc fuel) startgroup grp pid st =
     (case g_coregroup st grp of
        core # cores \<Rightarrow>
          (let pcores = (case g_pidcore st pid of None \<Rightarrow> [] | Some cs \<Rightarrow> cs)
           in Some (core, True,
                st\<lparr>g_coregroup := (g_coregroup st)(grp := cores),
                   g_pidcore := (g_pidcore st)(pid \<mapsto> pcores @ [core]),
                   g_pollpids := insort_insert pid (g_pollpids st)\<rparr>))
      | [] \<Rightarrow>
          (let grp = (grp + 1) mod CONFIG_CORESERV_GROUPS
           in if grp \<noteq> startgroup then core_get_loop fuel startgroup grp pid st
              else Some (NO_CORE, False, st)))"

definition coreserver_core_get ::
    "CoreGetRequest \<Rightarrow> nat \<Rightarrow> CoreServer \<Rightarrow> (CoreGetResponse \<times> CoreServer) option" where
  "coreserver_core_get req sz st =
     (if sz \<noteq> 16 then None
      else let grp = (if CONFIG_CORESERV_GROUPS \<le> cgr_group req then 0 else cgr_group req)
      in do {
        (core, ack, st) \<leftarrow> core_get_loop CONFIG_CORESERV_GROUPS grp grp (cgr_pid req) st;
        Some (\<lparr>cgp_core = core, cgp_ack = ack\<rparr>, st)
      })"

text \<open>What the idle loop does for a process that ended, up to the update of \<^verbatim>\<open>g_pollpids\<close>.\<close>

definition reclaim_cores :: "pid_t \<Rightarrow> CoreServer \<Rightarrow> CoreServer option" where
  "reclaim_cores pid st = do {
     cores \<leftarrow> g_pidcore st pid;
     Some (st\<lparr>g_coregroup := fold (\<lambda>c g. g(c mod CONFIG_CORESERV_GROUPS :=
                                            c # g (c mod CONFIG_CORESERV_GROUPS)))
                               (rev cores) (g_coregroup st),
              g_pidcore := (g_pidcore st)(pid := None),
              g_pollpids := remove1 pid (g_pollpids st)\<rparr>)
   }"

text \<open>The loop over the processes from the iterator \<^verbatim>\<open>it\<close> on.  The preprocessor test names
  \<^verbatim>\<open>__GUNC_MINOR__\<close>, which no compiler defines, so the branch that does not assign the iterator is the one
  compiled, and after an erasure the loop goes on with an invalidated iterator: \<^term>\<open>None\<close>, with the
  state reached just before.\<close>

fun idleloop_from :: "(pid_t \<Rightarrow> bool) \<Rightarrow> pid_t list \<Rightarrow> CoreServer \<Rightarrow> CoreServer option" where
  "idleloop_from alive [] st = Some st"
| "idleloop_from alive (p # ps) st =
     (if alive p then idleloop_from alive ps st
      else do { _ \<leftarrow> reclaim_cores p st; None })"

definition coreserver_idleloop :: "(pid_t \<Rightarrow> bool) \<Rightarrow> CoreServer \<Rightarrow> CoreServer option" where
  "coreserver_idleloop alive st = idleloop_from alive (g_pollpids st) st"

text \<open>The client: \<open>rpc\<close> sends the request over the core server's channel and receives the response.\<close>

definition core_get ::
    "(CoreGetRequest \<Rightarrow> nat \<Rightarrow> 'w \<Rightarrow> (CoreGetResponse \<times> 'w) option) \<Rightarrow> pid_t \<Rightarrow> nat \<Rightarrow> 'w
     \<Rightarrow> (nat \<times> 'w) option" where
  "core_get rpc getpid grp w = do {
     (resp, w) \<leftarrow> rpc \<lparr>cgr_group = grp, cgr_pid = getpid\<rparr> 16 w;
     if cgp_core resp \<noteq> NO_CORE \<and> cgp_ack resp then Some (cgp_core resp, w) else None
   }"

section \<open>Every core is in one place\<close>

definition held :: "CoreServer \<Rightarrow> pid_t \<Rightarrow> nat list" where
  "held st pid = (case g_pidcore st pid of None \<Rightarrow> [] | Some cs \<Rightarrow> cs)"

definition free_cores :: "CoreServer \<Rightarrow> nat multiset" where
  "free_cores st = (\<Sum>g\<leftarrow>[0..<CONFIG_CORESERV_GROUPS]. mset (g_coregroup st g))"

definition held_cores :: "CoreServer \<Rightarrow> nat multiset" where
  "held_cores st = (\<Sum>pid\<leftarrow>g_pollpids st. mset (held st pid))"

definition core_invar :: "CoreServer \<Rightarrow> bool" where
  "core_invar st \<longleftrightarrow> free_cores st + held_cores st = mset [1..<CONFIG_CORESERV_CORES]
     \<and> sorted (g_pollpids st) \<and> distinct (g_pollpids st) \<and> set (g_pollpids st) = dom (g_pidcore st)"

text \<open>The runs of the server: requests of clients, and the reclaiming of a process's cores.\<close>

inductive core_step :: "CoreServer \<Rightarrow> CoreServer \<Rightarrow> bool" where
  get: "coreserver_core_get req 16 st = Some (res, st') \<Longrightarrow> core_step st st'"
| reclaim: "reclaim_cores pid st = Some st' \<Longrightarrow> core_step st st'"

inductive core_reachable :: "CoreServer \<Rightarrow> bool" where
  start: "core_reachable coreserver_init"
| step: "core_reachable st \<Longrightarrow> core_step st st' \<Longrightarrow> core_reachable st'"

inductive_cases core_stepE: "core_step st st'"

lemma free_cores_alt: "free_cores st = mset (g_coregroup st 0)"
  by (simp add: free_cores_def SOCK_NUM_def)

lemma core_get_cases:
  "coreserver_core_get req 16 st =
     Some (case g_coregroup st 0 of
         [] \<Rightarrow> (\<lparr>cgp_core = NO_CORE, cgp_ack = False\<rparr>, st)
       | c # cs \<Rightarrow> (\<lparr>cgp_core = c, cgp_ack = True\<rparr>,
           st\<lparr>g_coregroup := (g_coregroup st)(0 := cs),
              g_pidcore := (g_pidcore st)(cgr_pid req \<mapsto> held st (cgr_pid req) @ [c]),
              g_pollpids := insort_insert (cgr_pid req) (g_pollpids st)\<rparr>))"
proof -
  have "(if SOCK_NUM \<le> cgr_group req then 0 else cgr_group req) = 0" by (simp add: SOCK_NUM_def)
  then show ?thesis
    by (simp add: coreserver_core_get_def Let_def SOCK_NUM_def held_def split: list.splits)
qed

lemma sum_list_insort:
  "(\<Sum>x\<leftarrow>insort a xs. f x) = f a + (\<Sum>x\<leftarrow>xs. (f x :: 'b :: comm_monoid_add))"
  by (induction xs) (auto simp: ac_simps)

lemma sum_list_remove1:
  "a \<in> set xs \<Longrightarrow> f a + (\<Sum>x\<leftarrow>remove1 a xs. f x) = (\<Sum>x\<leftarrow>xs. (f x :: 'b :: comm_monoid_add))"
  by (induction xs) (auto simp: ac_simps)

lemma sum_list_update_one:
  fixes f g :: "'a \<Rightarrow> 'b :: comm_monoid_add"
  assumes "distinct xs" "a \<in> set xs" "g a = f a + d" "\<And>x. x \<noteq> a \<Longrightarrow> g x = f x"
  shows "(\<Sum>x\<leftarrow>xs. g x) = (\<Sum>x\<leftarrow>xs. f x) + d"
proof -
  have "(\<Sum>x\<leftarrow>remove1 a xs. g x) = (\<Sum>x\<leftarrow>remove1 a xs. f x)"
    using assms(1,4) by (intro arg_cong [of _ _ sum_list] map_cong) auto
  with sum_list_remove1 [OF assms(2), of g] sum_list_remove1 [OF assms(2), of f] assms(3)
  show ?thesis by (metis (no_types, lifting) add.commute add.left_commute)
qed

lemma core_invar_get:
  assumes "core_invar st" "g_coregroup st 0 = c # cs" "g_coregroup st' 0 = cs"
    and p: "g_pidcore st' = (g_pidcore st)(pid \<mapsto> held st pid @ [c])"
    and q: "g_pollpids st' = insort_insert pid (g_pollpids st)"
  shows "core_invar st'"
proof -
  have h: "held st' q = (if q = pid then held st pid @ [c] else held st q)" for q
    by (simp add: held_def p)
  have "held_cores st' = held_cores st + {#c#}"
  proof (cases "pid \<in> set (g_pollpids st)")
    case True
    have "(\<Sum>q\<leftarrow>g_pollpids st. mset (held st' q)) = (\<Sum>q\<leftarrow>g_pollpids st. mset (held st q)) + {#c#}"
      by (rule sum_list_update_one [of _ pid])
        (use assms(1) True in \<open>simp_all add: h core_invar_def\<close>)
    with True show ?thesis by (simp add: held_cores_def insort_insert_triv q)
  next
    case False
    then have "held st pid = []"
      using assms(1) by (auto simp: core_invar_def held_def split: option.splits)
    moreover have "map (\<lambda>q. mset (held st' q)) (g_pollpids st) = map (\<lambda>q. mset (held st q)) (g_pollpids st)"
      using False by (intro map_cong) (auto simp: h)
    moreover have "held st' pid = held st pid @ [c]" by (simp add: h)
    ultimately show ?thesis
      using False unfolding held_cores_def q
      by (simp add: insort_insert_insort sum_list_insort del: map_eq_conv)
  qed
  moreover have "free_cores st = free_cores st' + {#c#}" using assms(2,3) by (simp add: free_cores_alt)
  ultimately show ?thesis
    using assms(1) by (auto simp: core_invar_def sorted_insort_insert distinct_insort_insert
        set_insort_insert p q)
qed

lemma reclaim_group:
  "(fold (\<lambda>c g. g(c mod SOCK_NUM := c # g (c mod SOCK_NUM))) (rev cores) g) 0 = cores @ g 0"
  by (induction cores arbitrary: g rule: rev_induct) (simp_all add: SOCK_NUM_def)

lemma core_invar_reclaim:
  assumes "core_invar st" "reclaim_cores pid st = Some st'"
  shows "core_invar st'"
proof -
  obtain cores where c: "g_pidcore st pid = Some cores" using assms(2)
    by (auto simp: reclaim_cores_def split: Option.bind_splits)
  then have pid: "pid \<in> set (g_pollpids st)" using assms(1) by (auto simp: core_invar_def)
  have st': "g_coregroup st' 0 = cores @ g_coregroup st 0" "g_pidcore st' = (g_pidcore st)(pid := None)"
    "g_pollpids st' = remove1 pid (g_pollpids st)"
    using assms(2) c by (auto simp: reclaim_cores_def reclaim_group)
  have "mset (held st pid) + held_cores st' = held_cores st"
  proof -
    have "held_cores st' = (\<Sum>q\<leftarrow>remove1 pid (g_pollpids st). mset (held st q))"
      unfolding held_cores_def st'(3) using assms(1)
      by (intro arg_cong [of _ _ sum_list] map_cong) (auto simp: held_def st' core_invar_def)
    with sum_list_remove1 [OF pid, of "\<lambda>q. mset (held st q)"] show ?thesis
      by (simp add: held_cores_def)
  qed
  then have "free_cores st' + held_cores st' = free_cores st + held_cores st"
    using c by (simp add: free_cores_alt st' held_def union_ac)
  then show ?thesis
    using assms(1) unfolding core_invar_def st' by (auto simp: sorted_remove1)
qed

lemma core_invar_init: "core_invar coreserver_init"
proof -
  have "[1..<CORE_NUM] = [1, 2, 3, 4, 5]" by (simp add: CORE_NUM_def upt_conv_Cons)
  then show ?thesis
    unfolding core_invar_def free_cores_alt held_cores_def coreserver_init_def
    by (simp add: SOCK_NUM_def del: mset_upt)
qed

lemma core_invar_step: "core_step st st' \<Longrightarrow> core_invar st \<Longrightarrow> core_invar st'"
proof (induction rule: core_step.induct)
  case (get req st res st')
  show ?case
  proof (cases "g_coregroup st 0")
    case Nil
    with get show ?thesis by (simp add: core_get_cases)
  next
    case (Cons c cs)
    with get(1) show ?thesis
      by (intro core_invar_get [OF get(2) Cons]) (auto simp: core_get_cases)
  qed
next
  case (reclaim pid st st')
  then show ?case by (rule core_invar_reclaim [rotated])
qed

lemma core_reachable_invar: "core_reachable st \<Longrightarrow> core_invar st"
  by (induction rule: core_reachable.induct) (auto intro: core_invar_init core_invar_step)

lemma core_not_shared:
  assumes "core_invar st" "g_coregroup st 0 = c # cs"
  shows "c \<notin> set (held st q)" "c \<in> {1..<CORE_NUM}"
proof -
  let ?held = "held_cores st"
  have eq: "add_mset c (mset cs + ?held) = mset_set {1..<CORE_NUM}"
    using assms by (simp add: core_invar_def free_cores_alt)
  then show "c \<in> {1..<CORE_NUM}"
    by (metis finite_atLeastLessThan finite_set_mset_mset_set union_single_eq_member)
  have "count (mset_set {1..<CORE_NUM}) c \<le> 1" by (simp add: count_mset_set')
  then have "count ?held c = 0" unfolding eq [symmetric] by simp
  moreover have "mset (held st q) \<subseteq># ?held" if "q \<in> set (g_pollpids st)"
    using sum_list_remove1 [OF that, of "\<lambda>q. mset (held st q)"]
    by (metis held_cores_def mset_subset_eq_add_left)
  moreover have "held st q = []" if "q \<notin> set (g_pollpids st)"
    using assms(1) that by (auto simp: core_invar_def held_def split: option.splits)
  ultimately show "c \<notin> set (held st q)"
    by (metis count_eq_zero_iff empty_iff list.set(1) mset_subset_eqD set_mset_mset)
qed

section \<open>Properties\<close>

text \<open>C40. In every run of the core server, a granted core is one of the cores 1 to
  \<^verbatim>\<open>CONFIG_CORESERV_CORES\<close> - 1 that no process holds, the requesting process holds it afterwards, and
  a request is refused only when no core is free; no core is ever lost or held twice.\<close>

theorem core_get_exclusive:
  assumes "core_reachable st"
  shows "\<exists>res st'. coreserver_core_get req 16 st = Some (res, st')
     \<and> (if cgp_ack res
        then cgp_core res \<in> {1..<CONFIG_CORESERV_CORES} \<and> (\<forall>q. cgp_core res \<notin> set (held st q))
           \<and> held st' (cgr_pid req) = held st (cgr_pid req) @ [cgp_core res]
        else free_cores st = {#} \<and> st' = st)
     \<and> free_cores st' + held_cores st' = mset [1..<CONFIG_CORESERV_CORES]"
proof -
  have inv: "core_invar st" by (rule core_reachable_invar [OF assms])
  obtain res st' where g: "coreserver_core_get req 16 st = Some (res, st')"
    by (cases "g_coregroup st 0") (simp_all add: core_get_cases)
  then have "core_invar st'" using core_invar_step [OF core_step.get inv] by blast
  moreover have "if cgp_ack res
        then cgp_core res \<in> {1..<CONFIG_CORESERV_CORES} \<and> (\<forall>q. cgp_core res \<notin> set (held st q))
           \<and> held st' (cgr_pid req) = held st (cgr_pid req) @ [cgp_core res]
        else free_cores st = {#} \<and> st' = st"
  proof (cases "g_coregroup st 0")
    case Nil
    with g show ?thesis by (auto simp: core_get_cases free_cores_alt)
  next
    case (Cons c cs)
    with g core_not_shared [OF inv Cons] show ?thesis
      by (auto simp: core_get_cases held_def)
  qed
  ultimately show ?thesis using g by (auto simp: core_invar_def)
qed

theorem core_get_exclusive_witness:
  "\<exists>res st'. coreserver_core_get \<lparr>cgr_group = 0, cgr_pid = 42\<rparr> 16 coreserver_init = Some (res, st')
     \<and> free_cores st' + held_cores st' = mset [1..<CORE_NUM]"
  using core_get_exclusive [OF core_reachable.start, of "\<lparr>cgr_group = 0, cgr_pid = 42\<rparr>"] by blast

text \<open>The idle loop does nothing while all processes that hold cores are alive, and leaves
  defined behaviour as soon as one of them has ended: the erased iterator is used again.\<close>

theorem core_idleloop_dead_process:
  "coreserver_idleloop alive st = (if list_all alive (g_pollpids st) then Some st else None)"
proof -
  have "idleloop_from alive ps st = (if list_all alive ps then Some st else None)" for ps
    by (induction ps) (auto split: Option.bind_splits)
  then show ?thesis by (simp add: coreserver_idleloop_def)
qed

end
