(* ===== verification/Channel_Ring.thy ===== *)
theory Channel_Ring
  imports Channel
begin

text \<open>
  The layout of a half channel's buffer: the blocks between \<^verbatim>\<open>tail\<close> and \<^verbatim>\<open>head\<close> follow each other
  around the ring, received ones first, and the rest of the ring is free.  \<open>chan_inv\<close> states this with what
  the headers hold; the lemmas show that every operation of \<open>Channel\<close> keeps it.
\<close>

section \<open>Positions on a ring\<close>

definition wrap :: "nat \<Rightarrow> nat \<Rightarrow> nat" where
  "wrap S x = (if S \<le> x then 0 else x)"

definition dist :: "nat \<Rightarrow> nat \<Rightarrow> nat \<Rightarrow> nat" where
  "dist S s x = (if s \<le> x then x - s else x + S - s)"

fun path :: "nat \<Rightarrow> nat \<Rightarrow> (nat \<times> nat) list \<Rightarrow> nat \<Rightarrow> bool" where
  "path S s [] e \<longleftrightarrow> s = e"
| "path S s ((p, a) # segs) e \<longleftrightarrow>
     p = s \<and> 0 < a \<and> 64 dvd a \<and> s + a \<le> S \<and> path S (wrap S (s + a)) segs e"

definition total :: "(nat \<times> nat) list \<Rightarrow> nat" where
  "total segs = sum_list (map snd segs)"

lemma total_simps [simp]:
  "total [] = 0" "total ((p, a) # segs) = a + total segs" "total (xs @ ys) = total xs + total ys"
  by (simp_all add: total_def)

lemma wrap_less [simp]: "0 < S \<Longrightarrow> wrap S x < S"
  by (simp add: wrap_def)

lemma wrap_id [simp]: "x < S \<Longrightarrow> wrap S x = x"
  by (simp add: wrap_def)

lemma wrap_dvd: "64 dvd S \<Longrightarrow> 64 dvd x \<Longrightarrow> 64 dvd wrap S x"
  by (simp add: wrap_def)

lemma path_append: "path S s (xs @ ys) e \<longleftrightarrow> (\<exists>d. path S s xs d \<and> path S d ys e)"
  by (induction xs arbitrary: s) auto

lemma path_end: "path S s segs e \<Longrightarrow> s < S \<Longrightarrow> e < S"
  by (induction segs arbitrary: s) auto

lemma path_dvd: "path S s segs e \<Longrightarrow> 64 dvd S \<Longrightarrow> 64 dvd s \<Longrightarrow> 64 dvd e"
  by (induction segs arbitrary: s) (auto simp: wrap_dvd)

lemma path_seg:
  "path S s segs e \<Longrightarrow> s < S \<Longrightarrow> 64 dvd S \<Longrightarrow> 64 dvd s \<Longrightarrow> (p, a) \<in> set segs \<Longrightarrow>
     p < S \<and> p + a \<le> S \<and> 0 < a \<and> 64 dvd p \<and> 64 dvd a"
  by (induction segs arbitrary: s) (auto simp: wrap_dvd)

lemma dist_step:
  assumes "s < S" "0 < a" "s + a \<le> S" "x < S"
  shows "(dist S (wrap S (s + a)) x + a < S \<and> dist S s x = dist S (wrap S (s + a)) x + a)
     \<or> (S \<le> dist S (wrap S (s + a)) x + a \<and> s \<le> x \<and> x < s + a)"
  using assms by (auto simp: dist_def wrap_def)

lemma dist_step_less:
  assumes "s < S" "0 < a" "s + a \<le> S" "x < S" "dist S (wrap S (s + a)) x + a < S"
  shows "dist S s x = dist S (wrap S (s + a)) x + a"
  using assms by (auto simp: dist_def wrap_def split: if_splits)

lemma path_total: "path S s segs e \<Longrightarrow> s < S \<Longrightarrow> total segs < S \<Longrightarrow> dist S s e = total segs"
proof (induction segs arbitrary: s)
  case Nil
  then show ?case by (simp add: dist_def)
next
  case (Cons seg segs)
  obtain p a where seg: "seg = (p, a)" by (cases seg)
  with Cons.prems have *: "0 < a" "s + a \<le> S" "path S (wrap S (s + a)) segs e" "total segs < S" by auto
  then have "dist S (wrap S (s + a)) e = total segs" using Cons.prems by (intro Cons.IH) auto
  moreover have "e < S" using path_end [OF Cons.prems(1,2)] .
  ultimately show ?case using dist_step_less [of s S a e] * Cons.prems seg by auto
qed

lemma path_inside:
  assumes "path S s (xs @ (p, a) # ys) e" "s < S" "total xs + a \<le> S" "p \<le> x" "x < p + a"
  shows "dist S s x = total xs + (x - p)"
  using assms
proof (induction xs arbitrary: s)
  case Nil
  then show ?case by (simp add: dist_def)
next
  case (Cons seg xs)
  obtain q b where seg: "seg = (q, b)" by (cases seg)
  with Cons.prems have *: "0 < b" "s + b \<le> S" "path S (wrap S (s + b)) (xs @ (p, a) # ys) e" by auto
  have d: "dist S (wrap S (s + b)) x = total xs + (x - p)"
    using Cons.prems seg * by (intro Cons.IH) auto
  have "p + a \<le> S" using * by (auto simp: path_append)
  then have "x < S" using Cons.prems by simp
  with d dist_step_less [of s S b x] * Cons.prems seg show ?case by auto
qed

text \<open>A block and the rest of the ring: another block, the end, or a free line lie outside it.\<close>

lemma path_distinct:
  assumes "path S s segs e" "s < S" "total segs < S" "(p, a) \<in> set segs" "(q, b) \<in> set segs"
    and "(p, a) \<noteq> (q, b)" "p \<le> x" "x < p + a"
  shows "\<not> (q \<le> x \<and> x < q + b)"
proof
  assume x: "q \<le> x \<and> x < q + b"
  obtain xs ys where s1: "segs = xs @ (p, a) # ys" using assms(4) by (meson split_list)
  obtain us vs where s2: "segs = us @ (q, b) # vs" using assms(5) by (meson split_list)
  have d1: "dist S s x = total xs + (x - p)"
    using path_inside [of S s xs p a ys e x] assms s1 by simp
  have d2: "dist S s x = total us + (x - q)"
    using path_inside [of S s us q b vs e x] assms s2 x by simp
  from s1 s2 have "xs @ (p, a) # ys = us @ (q, b) # vs" by simp
  then consider ts where "us = xs @ (p, a) # ts" | ts where "xs = us @ (q, b) # ts" | "(p, a) = (q, b)"
    by (auto simp: append_eq_append_conv2 append_eq_Cons_conv Cons_eq_append_conv)
  then show False
    using d1 d2 assms(6-8) x by cases auto
qed

lemma path_free:
  assumes "path S s segs e" "s < S" "total segs \<le> S" "(p, a) \<in> set segs" "p \<le> x" "x < p + a"
  shows "dist S s x < total segs"
proof -
  obtain xs ys where s1: "segs = xs @ (p, a) # ys" using assms(4) by (meson split_list)
  then have "dist S s x = total xs + (x - p)"
    using path_inside [of S s xs p a ys e x] assms by simp
  with s1 assms(5,6) show ?thesis by simp
qed

section \<open>Headers under updates\<close>

definition same_header :: "mem \<Rightarrow> mem \<Rightarrow> nat \<Rightarrow> bool" where
  "same_header m m' p \<longleftrightarrow> (\<forall>i<8. m' (p + i) = m (p + i))"

lemma same_headerD:
  assumes "same_header m m' p"
  shows "msg_size m' p = msg_size m p" "msg_alloced m' p = msg_alloced m p"
    "msg_ready m' p = msg_ready m p"
proof -
  have "m' (p + i) = m (p + i)" if "i < 8" for i using assms that by (simp add: same_header_def)
  from this [of 0] this [of 1] this [of 2] this [of 3] this [of 4]
  show "msg_size m' p = msg_size m p" "msg_alloced m' p = msg_alloced m p"
    "msg_ready m' p = msg_ready m p"
    by (simp_all add: msg_size_def msg_alloced_def msg_ready_def get_u16_def numeral_3_eq_3)
qed

lemma get_put_u16 [simp]: "v < 65536 \<Longrightarrow> get_u16 (put_u16 off v m) off = v"
  by (simp add: get_u16_def put_u16_def unat_of_nat)

lemma get_put_u16_other [simp]:
  "off + 1 < off' \<or> off' + 1 < off \<Longrightarrow> get_u16 (put_u16 off v m) off' = get_u16 m off'"
  by (auto simp: get_u16_def put_u16_def)

lemmas header_defs = msg_size_def msg_alloced_def msg_ready_def set_msg_size_def set_msg_alloced_def
  set_msg_ready_def

text \<open>A header write stays inside its eight bytes, hence inside its line.\<close>

lemma line_apart: "64 dvd (p :: nat) \<Longrightarrow> 64 dvd q \<Longrightarrow> p \<noteq> q \<Longrightarrow> p + 64 \<le> q \<or> q + 64 \<le> p"
  by (auto elim!: dvdE)

definition within_header :: "mem \<Rightarrow> mem \<Rightarrow> nat \<Rightarrow> bool" where
  "within_header m m' p \<longleftrightarrow> (\<forall>x. m' x \<noteq> m x \<longrightarrow> p \<le> x \<and> x < p + 8)"

lemma within_header_other:
  assumes "within_header m m' p" "64 dvd p" "64 dvd q" "p \<noteq> q"
  shows "same_header m m' q"
  using assms line_apart [of p q] by (fastforce simp: within_header_def same_header_def)

lemma within_header_put:
  "within_header m (set_msg_size p v m) p" "within_header m (set_msg_alloced p v m) p"
  "within_header m (set_msg_ready p b m) p"
  by (auto simp: within_header_def header_defs put_u16_def split: if_splits)

lemma within_header_trans:
  "within_header m m1 p \<Longrightarrow> within_header m1 m2 p \<Longrightarrow> within_header m m2 p"
  unfolding within_header_def by metis

section \<open>The invariant\<close>

definition lines_clear :: "mem \<Rightarrow> nat \<Rightarrow> nat \<Rightarrow> bool" where
  "lines_clear m a b \<longleftrightarrow> (\<forall>x. 64 dvd x \<and> a \<le> x \<and> x < b \<longrightarrow> msg_ready m x = 0)"

abbreviation start_of :: "nat \<Rightarrow> HalfChannel \<Rightarrow> nat" where
  "start_of S hc \<equiv> wrap S (hc_tail hc + 1)"

definition size_ok :: "nat \<Rightarrow> bool" where
  "size_ok S \<longleftrightarrow> 64 dvd S \<and> 128 \<le> S \<and> S \<le> 65536"

definition ring_ok :: "nat \<Rightarrow> HalfChannel \<Rightarrow> (nat \<times> nat) list \<Rightarrow> (nat \<times> nat) list \<Rightarrow> bool" where
  "ring_ok S hc taken pend \<longleftrightarrow> size_ok S \<and> hc_tail hc < S \<and> 64 dvd hc_tail hc + 1
     \<and> path S (start_of S hc) taken (hc_next hc) \<and> path S (hc_next hc) pend (hc_head hc)
     \<and> total (taken @ pend) < S"

definition seg_ok :: "nat \<Rightarrow> mem \<Rightarrow> nat \<times> nat \<Rightarrow> bool" where
  "seg_ok S m = (\<lambda>(p, a). msg_alloced m p = a \<and> (msg_size m p = SENTINEL \<longrightarrow> p + a = S))"

definition pend_ok :: "mem \<Rightarrow> nat \<times> nat \<Rightarrow> bool" where
  "pend_ok m = (\<lambda>(p, a). msg_ready m p = 1
     \<and> (msg_size m p = SENTINEL \<longrightarrow> lines_clear m (p + 64) (p + a)))"

definition taken_ok :: "mem \<Rightarrow> nat \<times> nat \<Rightarrow> bool" where
  "taken_ok m = (\<lambda>(p, a). (msg_ready m p = 1 \<and> msg_size m p \<noteq> SENTINEL) \<or> lines_clear m p (p + a))"

definition free_ok :: "nat \<Rightarrow> HalfChannel \<Rightarrow> (nat \<times> nat) list \<Rightarrow> bool" where
  "free_ok S hc segs \<longleftrightarrow> (\<forall>x<S. 64 dvd x \<and> total segs \<le> dist S (start_of S hc) x
     \<longrightarrow> msg_ready (hc_shared hc) x = 0)"

definition chan_inv :: "nat \<Rightarrow> HalfChannel \<Rightarrow> (nat \<times> nat) list \<Rightarrow> (nat \<times> nat) list \<Rightarrow> bool" where
  "chan_inv S hc taken pend \<longleftrightarrow> ring_ok S hc taken pend
     \<and> (\<forall>seg\<in>set (taken @ pend). seg_ok S (hc_shared hc) seg)
     \<and> (\<forall>seg\<in>set pend. pend_ok (hc_shared hc) seg)
     \<and> (\<forall>seg\<in>set taken. taken_ok (hc_shared hc) seg)
     \<and> free_ok S hc (taken @ pend)"

lemma ring_okD:
  assumes "ring_ok S hc taken pend"
  shows "64 dvd S" "128 \<le> S" "S \<le> 65536" "hc_tail hc < S" "64 dvd hc_tail hc + 1"
    "path S (start_of S hc) taken (hc_next hc)" "path S (hc_next hc) pend (hc_head hc)"
    "path S (start_of S hc) (taken @ pend) (hc_head hc)" "total (taken @ pend) < S"
    "start_of S hc < S" "64 dvd start_of S hc" "hc_head hc < S" "64 dvd hc_head hc"
    "hc_next hc < S" "64 dvd hc_next hc" "dist S (start_of S hc) (hc_head hc) = total (taken @ pend)"
proof -
  show 1: "64 dvd S" "128 \<le> S" "S \<le> 65536" "hc_tail hc < S" "64 dvd hc_tail hc + 1"
    "path S (start_of S hc) taken (hc_next hc)" "path S (hc_next hc) pend (hc_head hc)"
    "total (taken @ pend) < S"
    using assms unfolding ring_ok_def size_ok_def by blast+
  show 2: "start_of S hc < S" "64 dvd start_of S hc" using 1 by (auto intro: wrap_dvd)
  show 3: "path S (start_of S hc) (taken @ pend) (hc_head hc)" using 1 by (auto simp: path_append)
  show "hc_next hc < S" "64 dvd hc_next hc" "hc_head hc < S" "64 dvd hc_head hc"
    using path_end [OF 1(6) 2(1)] path_dvd [OF 1(6) 1(1) 2(2)] path_end [OF 3 2(1)]
      path_dvd [OF 3 1(1) 2(2)] by simp_all
  show "dist S (start_of S hc) (hc_head hc) = total (taken @ pend)"
    by (rule path_total [OF 3 2(1) 1(8)])
qed

lemma chan_invD:
  assumes "chan_inv S hc taken pend"
  shows "ring_ok S hc taken pend"
    "\<And>seg. seg \<in> set taken \<or> seg \<in> set pend \<Longrightarrow> seg_ok S (hc_shared hc) seg"
    "\<And>seg. seg \<in> set pend \<Longrightarrow> pend_ok (hc_shared hc) seg"
    "\<And>seg. seg \<in> set taken \<Longrightarrow> taken_ok (hc_shared hc) seg"
    "free_ok S hc (taken @ pend)"
  using assms by (auto simp: chan_inv_def)

lemma ring_seg:
  assumes "ring_ok S hc taken pend" "(p, a) \<in> set taken \<or> (p, a) \<in> set pend"
  shows "p < S \<and> p + a \<le> S \<and> 0 < a \<and> 64 dvd p \<and> 64 dvd a"
  using path_seg [OF ring_okD(8,10,1,11) [OF assms(1)], of p a] assms(2) by auto

lemma ring_seg_64: "ring_ok S hc taken pend \<Longrightarrow> (p, a) \<in> set taken \<or> (p, a) \<in> set pend \<Longrightarrow> 64 \<le> a"
  using ring_seg by (meson dvd_imp_le)

text \<open>Changes of memory inside one line's header or outside the blocks.\<close>

lemma lines_clear_cong:
  assumes "\<And>x. 64 dvd x \<Longrightarrow> a \<le> x \<Longrightarrow> x < b \<Longrightarrow> msg_ready m' x = msg_ready m x"
  shows "lines_clear m' a b = lines_clear m a b"
  using assms by (auto simp: lines_clear_def)

lemma seg_ok_same: "same_header m m' (fst seg) \<Longrightarrow> seg_ok S m' seg = seg_ok S m seg"
  by (cases seg) (simp add: seg_ok_def same_headerD)

lemma head_not_inside:
  assumes "ring_ok S hc taken pend" "(p, a) \<in> set taken \<or> (p, a) \<in> set pend"
  shows "\<not> (p \<le> hc_head hc \<and> hc_head hc < p + a)"
  using path_free [OF ring_okD(8,10) [OF assms(1)], of p a "hc_head hc"] ring_okD(9,16) [OF assms(1)]
    assms(2) by auto

section \<open>A block at the head\<close>

lemma dist_beyond:
  assumes "s < S" "dist S s h = t" "h + a \<le> S" "t + a \<le> S" "h \<le> x" "x < h + a"
  shows "dist S s x = t + (x - h)"
  using assms by (auto simp: dist_def split: if_splits)

lemma beyond_head:
  assumes "ring_ok S hc taken pend" "hc_head hc + a \<le> S" "total (taken @ pend) + a \<le> S"
    and "hc_head hc \<le> x" "x < hc_head hc + a"
  shows "dist S (start_of S hc) x = total (taken @ pend) + (x - hc_head hc)"
  by (rule dist_beyond [OF ring_okD(10,16) [OF assms(1)] assms(2-5)])

lemma chan_inv_append:
  assumes inv: "chan_inv S hc taken pend"
    and a: "64 dvd a" "0 < a" "hc_head hc + a \<le> S" "total (taken @ pend) + a < S"
    and m: "within_header (hc_shared hc) m' (hc_head hc)" "msg_alloced m' (hc_head hc) = a"
      "msg_ready m' (hc_head hc) = 1" "msg_size m' (hc_head hc) = SENTINEL \<longrightarrow> hc_head hc + a = S"
  shows "chan_inv S (hc\<lparr>hc_head := wrap S (hc_head hc + a), hc_shared := m'\<rparr>)
           taken (pend @ [(hc_head hc, a)])"
proof -
  let ?h = "hc_head hc" and ?m = "hc_shared hc"
  let ?hc = "hc\<lparr>hc_head := wrap S (?h + a), hc_shared := m'\<rparr>"
  note r = chan_invD(1) [OF inv]
  have same: "same_header ?m m' x" if "64 dvd x" "x \<noteq> ?h" for x
    using within_header_other [OF m(1) ring_okD(13) [OF r]] that by auto
  have out: "same_header ?m m' p" "\<And>x. 64 dvd x \<Longrightarrow> p \<le> x \<Longrightarrow> x < p + b \<Longrightarrow> msg_ready m' x = msg_ready ?m x"
    if "(p, b) \<in> set taken \<or> (p, b) \<in> set pend" for p b
    using head_not_inside [OF r that] ring_seg [OF r that] by (auto intro!: same same_headerD(3))
  have ring: "ring_ok S ?hc taken (pend @ [(?h, a)])"
    using ring_okD [OF r] a r by (auto simp: ring_ok_def path_append)
  have seg: "seg_ok S m' sg" if "sg \<in> set taken \<or> sg \<in> set pend" for sg
    using that chan_invD(2) [OF inv that] out(1) [of "fst sg" "snd sg"] seg_ok_same [of ?m m' sg S]
    by simp
  have pe: "pend_ok m' sg" if "sg \<in> set pend" for sg
  proof (cases sg)
    case (Pair p b)
    have "lines_clear m' (p + 64) (p + b) = lines_clear ?m (p + 64) (p + b)"
      using out(2) [of p b] Pair that by (intro lines_clear_cong) simp
    with chan_invD(3) [OF inv that] same_headerD [OF out(1), of p b] that Pair
    show ?thesis by (simp add: pend_ok_def)
  qed
  have ta: "taken_ok m' sg" if "sg \<in> set taken" for sg
  proof (cases sg)
    case (Pair p b)
    have "lines_clear m' p (p + b) = lines_clear ?m p (p + b)"
      using out(2) [of p b] Pair that by (intro lines_clear_cong) simp
    with chan_invD(4) [OF inv that] same_headerD [OF out(1), of p b] that Pair
    show ?thesis by (simp add: taken_ok_def)
  qed
  have fr: "msg_ready m' x = 0" if x: "x < S" "64 dvd x" "x \<noteq> ?h" "total (taken @ pend) \<le> dist S (start_of S hc) x" for x
    using chan_invD(5) [OF inv] same_headerD(3) [OF same [OF x(2,3)]] x by (simp add: free_ok_def)
  have "lines_clear m' (?h + 64) (?h + a)"
    unfolding lines_clear_def
  proof (intro allI impI)
    fix x assume x: "64 dvd x \<and> ?h + 64 \<le> x \<and> x < ?h + a"
    with beyond_head [OF r a(3), of x] a show "msg_ready m' x = 0" by (intro fr) auto
  qed
  then have "pend_ok m' (?h, a)" using m(3) by (simp add: pend_ok_def)
  moreover have "free_ok S ?hc (taken @ pend @ [(?h, a)])"
    unfolding free_ok_def
  proof (intro allI impI)
    fix x assume x: "x < S" "64 dvd x \<and> total (taken @ pend @ [(?h, a)]) \<le> dist S (start_of S ?hc) x"
    then have "x \<noteq> ?h" using ring_okD(16) [OF r] a(2) by auto
    with x show "msg_ready (hc_shared ?hc) x = 0" using fr [of x] by simp
  qed
  moreover have "seg_ok S m' (?h, a)" using m by (simp add: seg_ok_def)
  ultimately show ?thesis using ring seg pe ta by (auto simp: chan_inv_def)
qed

section \<open>Collecting freed blocks\<close>

lemma chan_inv_drop:
  assumes inv: "chan_inv S hc ((p, a) # taken) pend" and fre: "msg_ready (hc_shared hc) p \<noteq> 1"
  shows "chan_inv S (hc\<lparr>hc_tail := p + a - 1\<rparr>) taken pend" (is "chan_inv S ?hc taken pend")
    and "p = start_of S hc"
proof -
  note r = chan_invD(1) [OF inv]
  show p: "p = start_of S hc" using ring_okD(6) [OF r] by simp
  have sg: "p < S" "p + a \<le> S" "0 < a" "64 dvd p" "64 dvd a" using ring_seg [OF r, of p a] by auto
  have tl: "hc_tail ?hc + 1 = p + a" using sg(3) by simp
  have st: "start_of S ?hc = wrap S (p + a)" using sg(3) by (auto simp: wrap_def)
  have ring: "ring_ok S ?hc taken pend"
  proof -
    have "path S (start_of S ?hc) taken (hc_next hc)" using ring_okD(6) [OF r] p unfolding st by simp
    moreover have "64 dvd hc_tail ?hc + 1" "hc_tail ?hc < S" unfolding tl using sg by simp_all
    ultimately show ?thesis
      using ring_okD(7,9) [OF r] r by (simp add: ring_ok_def)
  qed
  have clear: "lines_clear (hc_shared hc) p (p + a)"
    using chan_invD(4) [OF inv, of "(p, a)"] fre by (simp add: taken_ok_def)
  have "free_ok S ?hc (taken @ pend)"
    unfolding free_ok_def
  proof (intro allI impI)
    fix x assume x: "x < S" "64 dvd x \<and> total (taken @ pend) \<le> dist S (start_of S ?hc) x"
    from dist_step [OF sg(1,3,2) x(1)]
    show "msg_ready (hc_shared ?hc) x = 0"
    proof
      assume "dist S (wrap S (p + a)) x + a < S \<and> dist S p x = dist S (wrap S (p + a)) x + a"
      then have "total (((p, a) # taken) @ pend) \<le> dist S (start_of S hc) x"
        using x(2) unfolding st p [symmetric] by simp
      with x chan_invD(5) [OF inv] show ?thesis by (simp add: free_ok_def)
    next
      assume "S \<le> dist S (wrap S (p + a)) x + a \<and> p \<le> x \<and> x < p + a"
      with x clear show ?thesis by (simp add: lines_clear_def)
    qed
  qed
  then show "chan_inv S ?hc taken pend"
    using ring chan_invD(2-4) [OF inv] by (auto simp: chan_inv_def)
qed

text \<open>The loop counts the free bytes exactly, or the used part of the ring does not wrap around and the
  head stops it.\<close>

definition gc_count :: "nat \<Rightarrow> HalfChannel \<Rightarrow> nat \<Rightarrow> nat \<Rightarrow> bool" where
  "gc_count S hc used freed \<longleftrightarrow> freed + used = S \<or> (hc_tail hc < hc_head hc \<and> freed + used < S)"

lemma size_dec_small: "0 < x \<Longrightarrow> x \<le> 65536 \<Longrightarrow> size_dec x = x - 1"
  by (rule size_dec_pos) simp_all

lemma gc_loop_unfold:
  assumes "p = wrap S freeing"
  shows "gc_loop S head tail freeing freed hc =
    (if freeing = head \<or> freed = S then Some hc
     else if \<not> in_shared S p then None
     else if msg_ready (hc_shared hc) p = 1 then Some hc
     else if hc_tail hc \<noteq> tail then Some hc
     else let nt = (if msg_size (hc_shared hc) p \<noteq> SENTINEL
                    then size_dec (p + msg_alloced (hc_shared hc) p) else size_dec S)
          in gc_loop S head nt (size_t (nt + 1)) (size_t (freed + msg_alloced (hc_shared hc) p))
               (hc\<lparr>hc_tail := nt\<rparr>))"
  unfolding assms wrap_def by (subst gc_loop.simps) (simp only: Let_def)

lemma gc_loop_step:
  assumes inv: "chan_inv S hc ((p, a) # taken) pend" and fre: "msg_ready (hc_shared hc) p \<noteq> 1"
    and c: "gc_count S hc (total (((p, a) # taken) @ pend)) freed"
  shows "gc_loop S (hc_head hc) (hc_tail hc) (hc_tail hc + 1) freed hc =
    gc_loop S (hc_head hc) (p + a - 1) (p + a - 1 + 1) (freed + a) (hc\<lparr>hc_tail := p + a - 1\<rparr>)"
    and "gc_count S (hc\<lparr>hc_tail := p + a - 1\<rparr>) (total (taken @ pend)) (freed + a)"
proof -
  note r = chan_invD(1) [OF inv]
  have p: "p = wrap S (hc_tail hc + 1)" using chan_inv_drop(2) [OF inv fre] by simp
  have sg: "p < S" "p + a \<le> S" "0 < a" "64 dvd p" "64 dvd a" "64 \<le> a"
    using ring_seg [OF r, of p a] ring_seg_64 [OF r, of p a] by auto
  have so: "msg_alloced (hc_shared hc) p = a" "msg_size (hc_shared hc) p = SENTINEL \<longrightarrow> p + a = S"
    using chan_invD(2) [OF inv, of "(p, a)"] by (simp_all add: seg_ok_def)
  have S: "S \<le> 65536" "hc_tail hc < S" "hc_head hc < S" using ring_okD(3,4,12) [OF r] by simp_all
  have d: "dist S p (hc_head hc) = total (((p, a) # taken) @ pend)" using ring_okD(16) [OF r] p by simp
  have nstop: "hc_tail hc + 1 \<noteq> hc_head hc"
  proof
    assume h: "hc_tail hc + 1 = hc_head hc"
    then have "p = hc_head hc" using p S by simp
    then show False using d sg(3) by (simp add: dist_def)
  qed
  have fS: "freed < S" "freed + a \<le> S" using c sg(3) by (auto simp: gc_count_def)
  have nt: "size_dec (p + a) = p + a - 1" "size_t (p + a - 1 + 1) = p + a - 1 + 1" "size_t (freed + a) = freed + a"
    using sg fS S by (simp_all add: size_dec_small)
  have dS: "size_dec S = S - 1" using S by (intro size_dec_small) simp_all
  have ins: "in_shared S p" using sg by (simp add: in_shared_def MESSAGE_def)
  have "(if msg_size (hc_shared hc) p \<noteq> SENTINEL then size_dec (p + a) else size_dec S) = p + a - 1"
    using so(2) nt(1) dS by auto
  then show "gc_loop S (hc_head hc) (hc_tail hc) (hc_tail hc + 1) freed hc =
    gc_loop S (hc_head hc) (p + a - 1) (p + a - 1 + 1) (freed + a) (hc\<lparr>hc_tail := p + a - 1\<rparr>)"
    using nstop fS ins fre so(1) nt(2,3)
    by (subst gc_loop_unfold [OF p]) (simp only: Let_def, simp)
  show "gc_count S (hc\<lparr>hc_tail := p + a - 1\<rparr>) (total (taken @ pend)) (freed + a)"
  proof (cases "freed + total (((p, a) # taken) @ pend) = S")
    case True
    then show ?thesis by (simp add: gc_count_def)
  next
    case False
    then have h: "hc_tail hc < hc_head hc" "freed + total (((p, a) # taken) @ pend) < S"
      using c by (auto simp: gc_count_def)
    then have "p = hc_tail hc + 1" using p S by simp
    then have "p + a \<le> hc_head hc" using d h(1) by (simp add: dist_def split: if_splits)
    with h(2) sg(3) show ?thesis by (simp add: gc_count_def)
  qed
qed

text \<open>What a collection takes back of the received blocks: the oldest ones that the receiver has released, up
  to the first one it still holds.\<close>

definition collected ::
    "mem \<Rightarrow> (nat \<times> nat) list \<Rightarrow> (nat \<times> nat) list \<Rightarrow> (nat \<times> nat) list \<Rightarrow> bool" where
  "collected m taken dropped kept \<longleftrightarrow> taken = dropped @ kept
     \<and> (\<forall>(p, a)\<in>set dropped. msg_ready m p \<noteq> 1)
     \<and> (case kept of [] \<Rightarrow> True | (p, a) # _ \<Rightarrow> msg_ready m p = 1)"

lemma gc_loop_inv:
  assumes "chan_inv S hc taken pend" "gc_count S hc (total (taken @ pend)) freed"
  shows "\<exists>tl dropped kept. gc_loop S (hc_head hc) (hc_tail hc) (hc_tail hc + 1) freed hc
            = Some (hc\<lparr>hc_tail := tl\<rparr>)
     \<and> collected (hc_shared hc) taken dropped kept \<and> chan_inv S (hc\<lparr>hc_tail := tl\<rparr>) kept pend"
  using assms
proof (induction taken arbitrary: hc freed)
  case Nil
  note r = chan_invD(1) [OF Nil(1)]
  have self: "hc\<lparr>hc_tail := hc_tail hc\<rparr> = hc" by simp
  have "gc_loop S (hc_head hc) (hc_tail hc) (hc_tail hc + 1) freed hc = Some hc"
  proof (cases pend)
    case Nil': Nil
    have "freed = S \<or> hc_tail hc + 1 = hc_head hc"
      using Nil(2) ring_okD(6,7,12) [OF r] Nil' by (auto simp: gc_count_def wrap_def split: if_splits)
    then show ?thesis by (subst gc_loop.simps) auto
  next
    case (Cons seg pend')
    obtain p a where seg: "seg = (p, a)" by (cases seg)
    have p: "p = wrap S (hc_tail hc + 1)" using ring_okD(6,7) [OF r] Cons seg by simp
    have rdy: "msg_ready (hc_shared hc) p = 1"
      using chan_invD(3) [OF Nil(1), of seg] Cons seg by (simp add: pend_ok_def)
    have "in_shared S p"
      using ring_seg [OF r, of p a] ring_seg_64 [OF r, of p a] Cons seg
      by (simp add: in_shared_def MESSAGE_def)
    then show ?thesis using rdy by (subst gc_loop_unfold [OF p]) simp
  qed
  then show ?case
    using Nil(1) self by (intro exI [of _ "hc_tail hc"] exI [of _ "[]"]) (simp add: collected_def)
next
  case (Cons seg taken)
  obtain p a where seg: "seg = (p, a)" by (cases seg)
  show ?case
  proof (cases "msg_ready (hc_shared hc) p = 1")
    case True
    note r = chan_invD(1) [OF Cons(2)]
    have p: "p = wrap S (hc_tail hc + 1)" using ring_okD(6) [OF r] seg by simp
    have "in_shared S p"
      using ring_seg [OF r, of p a] ring_seg_64 [OF r, of p a] seg
      by (simp add: in_shared_def MESSAGE_def)
    then have "gc_loop S (hc_head hc) (hc_tail hc) (hc_tail hc + 1) freed hc = Some hc"
      using True by (subst gc_loop_unfold [OF p]) simp
    then show ?thesis
      using Cons(2) True seg by (intro exI [of _ "hc_tail hc"] exI [of _ "[]"] exI [of _ "seg # taken"])
        (simp add: collected_def)
  next
    case False
    let ?hc = "hc\<lparr>hc_tail := p + a - 1\<rparr>"
    note st = gc_loop_step [OF Cons(2) [unfolded seg] False Cons(3) [unfolded seg]]
    obtain tl dropped kept where
      "gc_loop S (hc_head ?hc) (hc_tail ?hc) (hc_tail ?hc + 1) (freed + a) ?hc = Some (?hc\<lparr>hc_tail := tl\<rparr>)"
      "collected (hc_shared ?hc) taken dropped kept" "chan_inv S (?hc\<lparr>hc_tail := tl\<rparr>) kept pend"
      using Cons.IH [OF chan_inv_drop(1) [OF Cons(2) [unfolded seg] False] st(2)] by blast
    with st(1) False seg show ?thesis
      by (intro exI [of _ tl] exI [of _ "seg # dropped"] exI [of _ kept]) (simp add: collected_def)
  qed
qed

lemma gc_start:
  assumes "ring_ok S hc taken pend"
  shows "gc_count S hc (total (taken @ pend))
    (let freed = size_sub (hc_tail hc + 1) (hc_head hc);
         freed = (if hc_head hc > hc_tail hc then size_sub S freed else freed)
     in if freed > S then 0 else freed)"
proof -
  let ?t = "hc_tail hc" and ?h = "hc_head hc" and ?u = "total (taken @ pend)"
  have d: "dist S (wrap S (?t + 1)) ?h = ?u" and b: "?t < S" "?h < S" "?u < S" "S \<le> 65536"
    using ring_okD(3,4,9,12,16) [OF assms] by simp_all
  consider "?h \<le> ?t" | "?h = ?t + 1" | "?t + 1 < ?h" by linarith
  then show ?thesis
  proof cases
    case 1
    then have "size_sub (?t + 1) ?h = ?t + 1 - ?h" using b by (intro size_sub_le) simp_all
    moreover have "?t + 1 - ?h + ?u = S" using d 1 b by (auto simp: dist_def wrap_def split: if_splits)
    ultimately show ?thesis using 1 b by (simp add: gc_count_def Let_def)
  next
    case 2
    then have "size_sub (?t + 1) ?h = 0" "size_sub S 0 = S" using b by simp_all
    moreover have "?u = 0" using d 2 b by (simp add: dist_def)
    ultimately show ?thesis using 2 by (simp add: gc_count_def Let_def)
  next
    case 3
    then have w: "size_sub (?t + 1) ?h = 2 ^ 64 - (?h - (?t + 1))" using b by (intro size_sub_wrap) simp_all
    have "size_sub S (2 ^ 64 - (?h - (?t + 1))) = 2 ^ 64 - (2 ^ 64 - (?h - (?t + 1)) - S)"
      using 3 b by (intro size_sub_wrap) simp_all
    then have "S < size_sub S (size_sub (?t + 1) ?h)" unfolding w using 3 b by simp
    with 3 b show ?thesis by (simp add: gc_count_def Let_def)
  qed
qed

lemma channel_gc_inv:
  assumes "chan_inv S hc taken pend"
  shows "\<exists>tl dropped kept. channel_gc S hc = Some (hc\<lparr>hc_tail := tl\<rparr>)
     \<and> collected (hc_shared hc) taken dropped kept \<and> chan_inv S (hc\<lparr>hc_tail := tl\<rparr>) kept pend"
proof -
  note r = chan_invD(1) [OF assms]
  have "size_t (hc_tail hc + 1) = hc_tail hc + 1" using ring_okD(3,4) [OF r] by simp
  then show ?thesis
    using gc_loop_inv [OF assms gc_start [OF r]] unfolding channel_gc_def Let_def by simp
qed

section \<open>Allocation\<close>

lemma message_size:
  assumes "size_ok S" "n < 2 ^ 63" "a = channel_message_size S n" "a \<noteq> 0"
  shows "64 dvd a" "n + 8 \<le> a" "a \<le> S - 64" "a < n + 8 + 64"
proof -
  have S: "64 dvd S" "128 \<le> S" "S \<le> 65536" using assms(1) by (simp_all add: size_ok_def)
  have sz: "size_t (n + 8) = n + 8" using assms(2) by simp
  have "size_sub S 64 = S - 64" using S by (intro size_sub_le) simp_all
  then have le: "n + 8 \<le> S - 64" and a: "a = (if (n + 8) mod 64 \<noteq> 0 then n + 8 - (n + 8) mod 64 + 64 else n + 8)"
    using assms(3,4) sz
    by (simp_all add: channel_message_size_def MESSAGE_def CACHELINE_SIZE_def Let_def split: if_splits)
  have m: "(n + 8) mod 64 < 64" "64 dvd n + 8 - (n + 8) mod 64" by simp_all
  have "64 dvd n + 8 - (n + 8) mod 64 + 64" using m(2) by (rule dvd_add) simp
  then show d: "64 dvd a" unfolding a by (simp only: mod_eq_0_iff_dvd if_split) simp
  show "n + 8 \<le> a" "a < n + 8 + 64" unfolding a using m(1) by auto
  have "64 dvd S - 64" using S by simp
  then show "a \<le> S - 64"
  proof -
    assume "64 dvd S - 64"
    then obtain k j where k: "S - 64 = 64 * k" "a = 64 * j" using d by (auto elim!: dvdE)
    with le have "n + 8 \<le> 64 * k" by simp
    moreover have "64 * j < n + 8 + 64" using k(2) \<open>a < n + 8 + 64\<close> by simp
    ultimately have "j < k + 1" by linarith
    with k show ?thesis by simp
  qed
qed

lemma place_fits:
  assumes "ring_ok S hc taken pend" "0 < a" "a < S"
    and "place S (hc_head hc) (hc_tail hc) a = Some (st, wr)"
  shows "if wr then st = 0 \<and> 0 < hc_head hc
            \<and> total (taken @ pend) + (S - hc_head hc) + a \<le> S
            \<and> (a = hc_tail hc + 1 \<longleftrightarrow> total (taken @ pend) + (S - hc_head hc) + a = S)
         else st = hc_head hc \<and> hc_head hc + a \<le> S \<and> total (taken @ pend) + a \<le> S
            \<and> (hc_head hc + a = hc_tail hc + 1 \<longleftrightarrow> total (taken @ pend) + a = S)"
proof -
  let ?t = "hc_tail hc" and ?h = "hc_head hc" and ?u = "total (taken @ pend)"
  have d: "dist S (wrap S (?t + 1)) ?h = ?u" and b: "?t < S" "?h < S" "?u < S" "S \<le> 65536"
    using ring_okD(3,4,9,12,16) [OF assms(1)] by simp_all
  have ss: "size_sub S ?h = S - ?h" using b by (intro size_sub_le) simp_all
  have u: "?u = (if ?t < ?h then ?h - (?t + 1) else if ?t + 1 = S then ?h else ?h + S - (?t + 1))"
    using d b by (auto simp: dist_def wrap_def split: if_splits)
  show ?thesis
    using assms(2-4) b u unfolding place_def ss by (auto split: if_splits)
qed

text \<open>With nothing received or pending, a block of at most half the buffer has a place.\<close>

lemma place_empty:
  assumes "ring_ok S hc [] []" "2 * a \<le> S"
  shows "place S (hc_head hc) (hc_tail hc) a \<noteq> None"
proof -
  have "wrap S (hc_tail hc + 1) = hc_head hc" "hc_tail hc < S" "hc_head hc < S" "128 \<le> S" "S \<le> 65536"
    using ring_okD(2,3,4,12) [OF assms(1)] assms(1) by (simp_all add: ring_ok_def)
  moreover from this have "size_sub S (hc_head hc) = S - hc_head hc" by (intro size_sub_le) simp_all
  ultimately show ?thesis using assms(2) by (auto simp: place_def wrap_def split: if_splits)
qed

definition frame :: "(nat \<times> nat) list \<Rightarrow> mem \<Rightarrow> mem \<Rightarrow> bool" where
  "frame segs m m' \<longleftrightarrow> (\<forall>(p, a)\<in>set segs. \<forall>x. p \<le> x \<and> x < p + a \<longrightarrow> m' x = m x)"

lemma frame_refl [simp]: "frame segs m m"
  by (auto simp: frame_def)

lemma frame_trans: "frame segs m m1 \<Longrightarrow> frame segs m1 m2 \<Longrightarrow> frame segs m m2"
  by (fastforce simp: frame_def)

lemma frame_mono: "frame segs m m' \<Longrightarrow> set segs' \<subseteq> set segs \<Longrightarrow> frame segs' m m'"
  by (auto simp: frame_def)

lemma frame_head:
  assumes "ring_ok S hc taken pend" "within_header m m' (hc_head hc)"
  shows "frame (taken @ pend) m m'"
  unfolding frame_def
proof (intro ballI, clarify)
  fix p a x assume x: "(p, a) \<in> set (taken @ pend)" "p \<le> x" "x < p + a"
  then have sg: "64 dvd p" "64 dvd a" using ring_seg [OF assms(1), of p a] by auto
  have no: "\<not> (p \<le> hc_head hc \<and> hc_head hc < p + a)"
    using head_not_inside [OF assms(1), of p a] x(1) by auto
  have "64 dvd hc_head hc" by (rule ring_okD(13) [OF assms(1)])
  with sg no have "hc_head hc + 64 \<le> p \<or> p + a \<le> hc_head hc"
    using line_apart [of "hc_head hc" p] by force
  then have "\<not> (hc_head hc \<le> x \<and> x < hc_head hc + 8)" using x by linarith
  with assms(2) show "m' x = m x" by (auto simp: within_header_def)
qed

lemma put_wrapped_header:
  fixes m :: mem and h d :: nat
  assumes "d < 65536"
  defines "m' \<equiv> set_msg_ready h True (set_msg_alloced h d (set_msg_size h SENTINEL m))"
  shows "within_header m m' h" "msg_alloced m' h = d" "msg_ready m' h = 1" "msg_size m' h = SENTINEL"
proof -
  show "msg_alloced m' h = d" "msg_ready m' h = 1" "msg_size m' h = SENTINEL"
    using assms(1) unfolding m'_def
    by (simp_all add: header_defs SENTINEL_def get_u16_def put_u16_def unat_of_nat)
  show "within_header m m' h"
    unfolding m'_def by (intro within_header_trans [OF _ within_header_put(3)]
        within_header_trans [OF _ within_header_put(2)] within_header_put(1))
qed

lemma put_sentinel_header:
  assumes "h < S" "0 < h" "S \<le> 65536"
  shows "within_header m (put_sentinel S h m) h" "msg_alloced (put_sentinel S h m) h = S - h"
    "msg_ready (put_sentinel S h m) h = 1" "msg_size (put_sentinel S h m) h = SENTINEL"
proof -
  have *: "size_sub S h = S - h" using assms by (intro size_sub_le) simp_all
  have "S - h < 65536" using assms by simp
  from put_wrapped_header [OF this, where h = h and m = m]
  show "within_header m (put_sentinel S h m) h" "msg_alloced (put_sentinel S h m) h = S - h"
    "msg_ready (put_sentinel S h m) h = 1" "msg_size (put_sentinel S h m) h = SENTINEL"
    unfolding put_sentinel_def * by blast+
qed

lemma put_header:
  fixes m :: mem and h a :: nat
  assumes "a < 65536"
  defines "m' \<equiv> set_msg_alloced h a (set_msg_ready h True (set_msg_size h 0 m))"
  shows "within_header m m' h" "msg_alloced m' h = a" "msg_ready m' h = 1" "msg_size m' h = 0"
proof -
  show "msg_alloced m' h = a" "msg_ready m' h = 1" "msg_size m' h = 0"
    using assms(1) unfolding m'_def
    by (simp_all add: header_defs get_u16_def put_u16_def unat_of_nat)
  show "within_header m m' h"
    unfolding m'_def by (intro within_header_trans [OF _ within_header_put(2)]
        within_header_trans [OF _ within_header_put(3)] within_header_put(1))
qed

end
