(* ===== verification/Channel_Fifo.thy ===== *)
theory Channel_Fifo
  imports Channel_Ring
begin

text \<open>
  What the sender's and the receiver's operations do to the blocks of a half channel, and the
  first-in first-out contract they give: a message is delivered once, whole and in the order of
  sending, in every interleaving of the two ends.
\<close>

section \<open>The sender's operations\<close>

lemma head_block_disjoint:
  assumes "ring_ok S hc taken pend" "hc_head hc + a \<le> S" "total (taken @ pend) + a \<le> S"
    and "(p, b) \<in> set (taken @ pend)"
  shows "hc_head hc + a \<le> p \<or> p + b \<le> hc_head hc"
proof (rule ccontr)
  assume no: "\<not> ?thesis"
  have "\<not> (p \<le> hc_head hc \<and> hc_head hc < p + b)"
    using head_not_inside [OF assms(1)] assms(4) by auto
  with no have x: "hc_head hc \<le> p" "p < hc_head hc + a" by auto
  have "0 < b" using ring_seg [OF assms(1), of p b] assms(4) by auto
  then have "dist S (start_of S hc) p < total (taken @ pend)"
    using path_free [OF ring_okD(8,10) [OF assms(1)], of p b p] ring_okD(9) [OF assms(1)] assms(4) by auto
  with beyond_head [OF assms(1-3) x] show False by simp
qed

definition sentinels :: "mem \<Rightarrow> (nat \<times> nat) list \<Rightarrow> bool" where
  "sentinels m segs \<longleftrightarrow> (\<forall>(p, b)\<in>set segs. msg_size m p = SENTINEL)"

definition outside :: "nat \<Rightarrow> nat \<Rightarrow> (nat \<times> nat) list \<Rightarrow> bool" where
  "outside st a segs \<longleftrightarrow> (\<forall>(p, b)\<in>set segs. st + a \<le> p \<or> p + b \<le> st)"

text \<open>The outcome of placing a block: it lies outside the live blocks, leaves their bytes alone, and, unless
  the buffer is now exactly full, the invariant holds with the block as the newest one.\<close>

definition placed ::
    "nat \<Rightarrow> HalfChannel \<Rightarrow> (nat \<times> nat) list \<Rightarrow> (nat \<times> nat) list \<Rightarrow> (nat \<times> nat) list \<Rightarrow> nat \<Rightarrow> nat
     \<Rightarrow> HalfChannel \<Rightarrow> bool" where
  "placed S hc taken pend sent st a hc' \<longleftrightarrow>
     frame (taken @ pend) (hc_shared hc) (hc_shared hc')
     \<and> sentinels (hc_shared hc') sent \<and> msg_size (hc_shared hc') st = 0
     \<and> outside st a (taken @ pend) \<and> st + a \<le> S
     \<and> (hc_tail hc' \<noteq> S \<longrightarrow> chan_inv S hc' taken (pend @ sent @ [(st, a)]))"

lemma allocate_at_straight:
  assumes inv: "chan_inv S hc taken pend" and a: "64 dvd a" "0 < a" "a < S"
    and fit: "hc_head hc + a \<le> S" "total (taken @ pend) + a \<le> S"
      "hc_head hc + a = hc_tail hc + 1 \<longleftrightarrow> total (taken @ pend) + a = S"
  shows "\<exists>hc'. allocate_at S (hc_head hc) (hc_tail hc) (hc_head hc) a False hc
      = Some (Some (hc_head hc + 8), hc') \<and> placed S hc taken pend [] (hc_head hc) a hc'"
proof -
  let ?h = "hc_head hc" and ?m = "hc_shared hc"
  note r = chan_invD(1) [OF inv]
  let ?m' = "set_msg_alloced ?h a (set_msg_ready ?h True (set_msg_size ?h 0 ?m))"
  let ?full = "?h + a = hc_tail hc + 1"
  let ?hc = "hc\<lparr>hc_tail := (if ?full then S else hc_tail hc), hc_head := wrap S (?h + a), hc_shared := ?m'\<rparr>"
  have a16: "a < 65536" using a(3) ring_okD(3) [OF r] by simp
  note hd = put_header [OF a16, where h = ?h and m = ?m]
  have "64 \<le> a" using a by (auto intro: dvd_imp_le)
  then have al: "allocate_at S ?h (hc_tail hc) ?h a False hc = Some (Some (?h + 8), ?hc)"
    using fit(1) by (simp add: allocate_at_def Let_def in_shared_def MESSAGE_def wrap_def)
  have "chan_inv S ?hc taken (pend @ [(?h, a)])" if "hc_tail ?hc \<noteq> S"
  proof -
    have nf: "\<not> ?full" using that by (auto split: if_splits)
    then have lt: "total (taken @ pend) + a < S" using fit by simp
    have "\<not> msg_size ?m' ?h = SENTINEL" using hd(4) by (simp add: SENTINEL_def)
    then have "chan_inv S (hc\<lparr>hc_head := wrap S (?h + a), hc_shared := ?m'\<rparr>) taken (pend @ [(?h, a)])"
      using hd by (intro chan_inv_append [OF inv a(1,2) fit(1) lt]) simp_all
    with nf show ?thesis by simp
  qed
  then have "placed S hc taken pend [] ?h a ?hc"
    using frame_head [OF r hd(1)] hd(4) head_block_disjoint [OF r fit(1,2)] fit(1)
    by (auto simp: placed_def sentinels_def outside_def)
  with al show ?thesis by blast
qed

lemma sentinel_append:
  assumes inv: "chan_inv S hc taken pend" and h: "0 < hc_head hc"
    and fit: "total (taken @ pend) + (S - hc_head hc) < S"
  shows "chan_inv S (hc\<lparr>hc_head := 0, hc_shared := put_sentinel S (hc_head hc) (hc_shared hc)\<rparr>)
           taken (pend @ [(hc_head hc, S - hc_head hc)])" (is "chan_inv S ?hc _ ?pend")
    and "frame (taken @ pend) (hc_shared hc) (put_sentinel S (hc_head hc) (hc_shared hc))"
    and "msg_size (put_sentinel S (hc_head hc) (hc_shared hc)) (hc_head hc) = SENTINEL"
proof -
  note r = chan_invD(1) [OF inv]
  note hd = put_sentinel_header [OF ring_okD(12) [OF r] h ring_okD(3) [OF r], of "hc_shared hc"]
  have "64 dvd S - hc_head hc" using ring_okD(1,13) [OF r] by (rule dvd_diff_nat)
  then have "chan_inv S (hc\<lparr>hc_head := wrap S (hc_head hc + (S - hc_head hc)),
      hc_shared := put_sentinel S (hc_head hc) (hc_shared hc)\<rparr>) taken ?pend"
    using hd ring_okD(12) [OF r] fit by (intro chan_inv_append [OF inv]) simp_all
  moreover have "wrap S (hc_head hc + (S - hc_head hc)) = 0"
    using ring_okD(12) [OF r] by (simp add: wrap_def)
  ultimately show "chan_inv S ?hc taken ?pend" by simp
  show "frame (taken @ pend) (hc_shared hc) (put_sentinel S (hc_head hc) (hc_shared hc))"
    by (rule frame_head [OF r hd(1)])
  show "msg_size (put_sentinel S (hc_head hc) (hc_shared hc)) (hc_head hc) = SENTINEL" by (rule hd(4))
qed

lemma allocate_at_wrapped:
  assumes inv: "chan_inv S hc taken pend" and a: "64 dvd a" "0 < a" "a < S"
    and fit: "0 < hc_head hc" "total (taken @ pend) + (S - hc_head hc) + a \<le> S"
      "a = hc_tail hc + 1 \<longleftrightarrow> total (taken @ pend) + (S - hc_head hc) + a = S"
  shows "\<exists>hc'. allocate_at S (hc_head hc) (hc_tail hc) 0 a True hc = Some (Some 8, hc')
      \<and> placed S hc taken pend [(hc_head hc, S - hc_head hc)] 0 a hc'"
proof -
  let ?h = "hc_head hc" and ?s = "(hc_head hc, S - hc_head hc)"
  let ?hc1 = "hc\<lparr>hc_head := 0, hc_shared := put_sentinel S ?h (hc_shared hc)\<rparr>"
  note r = chan_invD(1) [OF inv]
  have lt: "total (taken @ pend) + (S - ?h) < S" using fit(2) a(2) by simp
  note s1 = sentinel_append [OF inv fit(1) lt]
  have fit1: "hc_head ?hc1 + a \<le> S" "total (taken @ pend @ [?s]) + a \<le> S"
    "hc_head ?hc1 + a = hc_tail ?hc1 + 1 \<longleftrightarrow> total (taken @ pend @ [?s]) + a = S"
    using a(3) fit by (auto simp: add.assoc)
  obtain hc' where hc': "allocate_at S 0 (hc_tail hc) 0 a False ?hc1 = Some (Some 8, hc')"
    "placed S ?hc1 taken (pend @ [?s]) [] 0 a hc'"
    using allocate_at_straight [OF s1(1) a fit1] by auto
  have "64 dvd ?h" "?h < S" "64 dvd S" using ring_okD(1,12,13) [OF r] by simp_all
  then have "in_shared S ?h" using line_apart [of ?h S] by (auto simp: in_shared_def MESSAGE_def)
  then have "allocate_at S ?h (hc_tail hc) 0 a True hc = allocate_at S 0 (hc_tail hc) 0 a False ?hc1"
    by (simp add: allocate_at_def Let_def)
  moreover have "placed S hc taken pend [?s] 0 a hc'"
  proof -
    have f: "frame (taken @ pend @ [?s]) (hc_shared ?hc1) (hc_shared hc')"
      using hc'(2) by (simp add: placed_def)
    then have "hc_shared hc' ?h = put_sentinel S ?h (hc_shared hc) ?h"
      "hc_shared hc' (?h + 1) = put_sentinel S ?h (hc_shared hc) (?h + 1)"
      using \<open>in_shared S ?h\<close> by (auto simp: frame_def in_shared_def MESSAGE_def)
    then have "msg_size (hc_shared hc') ?h = SENTINEL"
      using s1(3) by (simp add: msg_size_def get_u16_def)
    moreover have "frame (taken @ pend) (hc_shared hc) (hc_shared hc')"
      using s1(2) frame_mono [OF f, of "taken @ pend"] by (auto intro: frame_trans)
    ultimately show ?thesis
      using hc'(2) by (auto simp: placed_def sentinels_def outside_def)
  qed
  ultimately show ?thesis using hc'(1) by auto
qed

lemma allocate_at_placed:
  assumes inv: "chan_inv S hc taken pend" and a: "64 dvd a" "0 < a" "a < S"
    and pl: "place S (hc_head hc) (hc_tail hc) a = Some (st, wr)"
  shows "\<exists>hc' sent. allocate_at S (hc_head hc) (hc_tail hc) st a wr hc = Some (Some (st + 8), hc')
      \<and> placed S hc taken pend sent st a hc'"
proof (cases wr)
  case True
  then have "st = 0" using place_fits [OF chan_invD(1) [OF inv] a(2,3) pl] by simp
  then show ?thesis
    using allocate_at_wrapped [OF inv a] place_fits [OF chan_invD(1) [OF inv] a(2,3) pl] True by auto
next
  case False
  then have "st = hc_head hc" using place_fits [OF chan_invD(1) [OF inv] a(2,3) pl] by simp
  then show ?thesis
    using allocate_at_straight [OF inv a] place_fits [OF chan_invD(1) [OF inv] a(2,3) pl] False by auto
qed

text \<open>An allocation that fails keeps the invariant too; it may have collected freed blocks, and it may have
  sent the head back to the start behind a sentinel.\<close>

definition alloc_outcome ::
    "nat \<Rightarrow> nat \<Rightarrow> HalfChannel \<Rightarrow> (nat \<times> nat) list \<Rightarrow> (nat \<times> nat) list \<Rightarrow> nat option \<Rightarrow> HalfChannel
     \<Rightarrow> bool" where
  "alloc_outcome S n hc kept pend r hc' \<longleftrightarrow>
     (\<exists>sent. case r of
          None \<Rightarrow> chan_inv S hc' kept (pend @ sent) \<and> frame (kept @ pend) (hc_shared hc) (hc_shared hc')
                 \<and> sentinels (hc_shared hc') sent
        | Some d \<Rightarrow> \<exists>st. d = st + 8 \<and> n + 8 \<le> channel_message_size S n
                 \<and> placed S hc kept pend sent st (channel_message_size S n) hc')"

lemma outcome_none:
  "chan_inv S hc' kept (pend @ sent) \<Longrightarrow> frame (kept @ pend) (hc_shared hc) (hc_shared hc') \<Longrightarrow>
     sentinels (hc_shared hc') sent \<Longrightarrow> alloc_outcome S n hc kept pend None hc'"
  by (auto simp: alloc_outcome_def)

lemma outcome_some:
  "placed S hc kept pend sent st (channel_message_size S n) hc' \<Longrightarrow> n + 8 \<le> channel_message_size S n \<Longrightarrow>
     alloc_outcome S n hc kept pend (Some (st + 8)) hc'"
  by (auto simp: alloc_outcome_def)

lemma outcome_tail: "alloc_outcome S n (hc\<lparr>hc_tail := t\<rparr>) kept pend r hc' = alloc_outcome S n hc kept pend r hc'"
  by (cases r) (simp_all add: alloc_outcome_def placed_def)

text \<open>After the collection, or with the first choice of the place.\<close>

lemma allocate_placed_outcome:
  assumes inv: "chan_inv S hc taken pend" and n: "n < 2 ^ 63" "channel_message_size S n \<noteq> 0"
    and pl: "place S (hc_head hc) (hc_tail hc) (channel_message_size S n) = Some (st, wr)"
  shows "\<exists>d hc'. allocate_at S (hc_head hc) (hc_tail hc) st (channel_message_size S n) wr hc = Some (Some d, hc')
      \<and> alloc_outcome S n hc taken pend (Some d) hc'"
proof -
  note r = chan_invD(1) [OF inv]
  have sz: "size_ok S" using r by (simp add: ring_ok_def)
  note ms = message_size [OF sz n(1) refl n(2)]
  have a: "64 dvd channel_message_size S n" "0 < channel_message_size S n" "channel_message_size S n < S"
    using ms ring_okD(2) [OF r] by simp_all
  from allocate_at_placed [OF inv a pl] outcome_some ms(2) show ?thesis by blast
qed

lemma allocate_failed_outcome:
  assumes inv: "chan_inv S hc taken pend" and lt: "hc_tail hc < hc_head hc"
  shows "in_shared S (hc_head hc)"
    and "alloc_outcome S n hc taken pend None
      (hc\<lparr>hc_head := 0, hc_shared := put_sentinel S (hc_head hc) (hc_shared hc)\<rparr>)"
proof -
  note r = chan_invD(1) [OF inv]
  have d: "dist S (wrap S (hc_tail hc + 1)) (hc_head hc) = total (taken @ pend)"
    and b: "hc_head hc < S" "64 dvd hc_head hc" "64 dvd S" using ring_okD(16,12,13,1) [OF r] by simp_all
  then have "total (taken @ pend) + (S - hc_head hc) < S" using lt by (simp add: dist_def)
  moreover have "0 < hc_head hc" using lt by simp
  ultimately show "alloc_outcome S n hc taken pend None
      (hc\<lparr>hc_head := 0, hc_shared := put_sentinel S (hc_head hc) (hc_shared hc)\<rparr>)"
    using sentinel_append [OF inv] by (intro outcome_none) (auto simp: sentinels_def)
  show "in_shared S (hc_head hc)"
    using b line_apart [of "hc_head hc" S] by (auto simp: in_shared_def MESSAGE_def)
qed

definition released :: "mem \<Rightarrow> (nat \<times> nat) list \<Rightarrow> bool" where
  "released m segs \<longleftrightarrow> (\<forall>(p, a)\<in>set segs. msg_ready m p \<noteq> 1)"

text \<open>Only released blocks are collected, and an allocation that fails had no room: with every block received
  and released, a block of at most half the buffer is granted.\<close>

lemma place_drained:
  assumes inv: "chan_inv S (hc\<lparr>hc_tail := t\<rparr>) kept []" and c: "collected (hc_shared hc) taken dropped kept"
    and rel: "released (hc_shared hc) taken" and a: "2 * a \<le> S"
  shows "place S (hc_head hc) t a \<noteq> None"
proof -
  have "kept = []"
    using c rel by (cases kept) (auto simp: collected_def released_def)
  then show ?thesis using place_empty [of S "hc\<lparr>hc_tail := t\<rparr>" a] chan_invD(1) [OF inv] a by simp
qed

definition refusal_ok ::
    "nat \<Rightarrow> nat \<Rightarrow> HalfChannel \<Rightarrow> (nat \<times> nat) list \<Rightarrow> (nat \<times> nat) list \<Rightarrow> nat option \<Rightarrow> bool" where
  "refusal_ok S n hc taken pend r \<longleftrightarrow>
     (r = None \<and> channel_message_size S n \<noteq> 0 \<and> released (hc_shared hc) taken \<and> pend = []
      \<longrightarrow> S < 2 * channel_message_size S n)"

lemma channel_allocate_inv:
  assumes inv: "chan_inv S hc taken pend" and n: "n < 2 ^ 63"
  shows "\<exists>r hc' dropped kept. channel_allocate S hc n = Some (r, hc') \<and> taken = dropped @ kept
     \<and> released (hc_shared hc) dropped \<and> alloc_outcome S n hc kept pend r hc'
     \<and> refusal_ok S n hc taken pend r"
proof (cases "channel_message_size S n = 0")
  case True
  then have "channel_allocate S hc n = Some (None, hc)" by (simp add: channel_allocate_def)
  moreover have "alloc_outcome S n hc taken pend None hc"
    using inv by (intro outcome_none [of _ _ _ _ "[]"]) (simp_all add: sentinels_def)
  ultimately show ?thesis
    using True by (intro exI [of _ None] exI [of _ hc] exI [of _ "[]"] exI [of _ taken])
      (simp add: released_def refusal_ok_def)
next
  case False
  have tS: "hc_tail hc \<noteq> S" using ring_okD(4) [OF chan_invD(1) [OF inv]] by simp
  obtain tl dropped kept where gc: "channel_gc S hc = Some (hc\<lparr>hc_tail := tl\<rparr>)"
    "collected (hc_shared hc) taken dropped kept" "chan_inv S (hc\<lparr>hc_tail := tl\<rparr>) kept pend"
    using channel_gc_inv [OF inv] by blast
  let ?hc = "hc\<lparr>hc_tail := tl\<rparr>"
  have dk: "taken = dropped @ kept" "released (hc_shared hc) dropped"
    using gc(2) by (simp_all add: collected_def released_def)
  consider (first) st wr where "place S (hc_head hc) (hc_tail hc) (channel_message_size S n) = Some (st, wr)"
    | (second) st wr where "place S (hc_head hc) (hc_tail hc) (channel_message_size S n) = None"
        "place S (hc_head ?hc) (hc_tail ?hc) (channel_message_size S n) = Some (st, wr)"
    | (fail) "place S (hc_head hc) (hc_tail hc) (channel_message_size S n) = None"
        "place S (hc_head ?hc) (hc_tail ?hc) (channel_message_size S n) = None"
    by (metis not_None_eq surj_pair)
  then show ?thesis
  proof cases
    case first
    obtain d hc' where "allocate_at S (hc_head hc) (hc_tail hc) st (channel_message_size S n) wr hc = Some (Some d, hc')"
      "alloc_outcome S n hc taken pend (Some d) hc'"
      using allocate_placed_outcome [OF inv n False first] by blast
    then show ?thesis using False tS first
      by (intro exI [of _ "Some d"] exI [of _ hc'] exI [of _ "[]"] exI [of _ taken])
        (simp add: channel_allocate_def Let_def released_def refusal_ok_def)
  next
    case second
    obtain d hc' where "allocate_at S (hc_head hc) tl st (channel_message_size S n) wr ?hc = Some (Some d, hc')"
      "alloc_outcome S n hc kept pend (Some d) hc'"
      using allocate_placed_outcome [OF gc(3) n False second(2)] by (auto simp: outcome_tail)
    then show ?thesis using False tS second gc(1) dk
      by (intro exI [of _ "Some d"] exI [of _ hc'] exI [of _ dropped] exI [of _ kept])
        (simp add: channel_allocate_def Let_def refusal_ok_def)
  next
    case fail
    have rf: "refusal_ok S n hc taken pend None"
      using place_drained [OF _ gc(2), of S tl "channel_message_size S n"] gc(3) fail(2)
      by (auto simp: refusal_ok_def not_less [symmetric])
    show ?thesis
    proof (cases "tl < hc_head hc")
      case True
      then show ?thesis
        using allocate_failed_outcome(1) [OF gc(3)] allocate_failed_outcome(2) [OF gc(3), of n] False tS fail gc(1) dk rf
        by (intro exI [of _ None] exI [of _ "hc\<lparr>hc_tail := tl, hc_head := 0,
              hc_shared := put_sentinel S (hc_head hc) (hc_shared hc)\<rparr>"] exI [of _ dropped] exI [of _ kept])
          (simp add: channel_allocate_def Let_def outcome_tail)
    next
      case F: False
      have "alloc_outcome S n hc kept pend None ?hc"
        using gc(3) by (intro outcome_none [of _ _ _ _ "[]"]) (simp_all add: sentinels_def)
      then show ?thesis
        using False tS fail gc(1) dk rf F by (intro exI [of _ None] exI [of _ ?hc] exI [of _ dropped] exI [of _ kept])
          (simp add: channel_allocate_def Let_def)
    qed
  qed
qed

section \<open>Changes inside one block\<close>

lemma chan_inv_block:
  assumes inv: "chan_inv S hc taken pend" and ring: "ring_ok S hc' taken' pend'"
    and tl: "hc_tail hc' = hc_tail hc" and segs: "taken' @ pend' = taken @ pend"
    and blk: "(p, a) \<in> set (taken @ pend)"
    and m: "\<And>x. \<not> (p \<le> x \<and> x < p + a) \<Longrightarrow> hc_shared hc' x = hc_shared hc x"
    and seg: "seg_ok S (hc_shared hc') (p, a)"
    and new: "(p, a) \<in> set taken' \<Longrightarrow> taken_ok (hc_shared hc') (p, a)"
      "(p, a) \<in> set pend' \<Longrightarrow> pend_ok (hc_shared hc') (p, a)"
    and old: "\<And>sg. sg \<in> set taken' \<Longrightarrow> sg \<noteq> (p, a) \<Longrightarrow> sg \<in> set taken"
      "\<And>sg. sg \<in> set pend' \<Longrightarrow> sg \<noteq> (p, a) \<Longrightarrow> sg \<in> set pend"
  shows "chan_inv S hc' taken' pend'"
proof -
  let ?m = "hc_shared hc" and ?m' = "hc_shared hc'"
  note r = chan_invD(1) [OF inv]
  have pa: "64 dvd p" "64 dvd a" using ring_seg [OF r, of p a] blk by auto
  have line: "msg_ready ?m' x = msg_ready ?m x" if "64 dvd x" "\<not> (p \<le> x \<and> x < p + a)" for x
  proof -
    have "64 dvd p + a" using pa by simp
    then have "x + 64 \<le> p \<or> p + a \<le> x" using that line_apart [OF that(1) pa(1)] by auto
    then show ?thesis by (auto simp: msg_ready_def m)
  qed
  have other: "same_header ?m ?m' q \<and> (\<forall>x. 64 dvd x \<and> q \<le> x \<and> x < q + b \<longrightarrow> msg_ready ?m' x = msg_ready ?m x)"
    if sg: "(q, b) \<in> set (taken @ pend)" "(q, b) \<noteq> (p, a)" for q b
  proof -
    have disj: "\<not> (p \<le> x \<and> x < p + a)" if "q \<le> x" "x < q + b" for x
      using path_distinct [OF ring_okD(8,10,9) [OF r] sg(1) blk sg(2) that] .
    have "8 \<le> b" using ring_seg_64 [OF r, of q b] sg(1) by auto
    then have "same_header ?m ?m' q" using disj m by (auto simp: same_header_def)
    then show ?thesis using disj line by blast
  qed
  have cl: "lines_clear ?m' c d = lines_clear ?m c d"
    if "(q, b) \<in> set (taken @ pend)" "(q, b) \<noteq> (p, a)" "q \<le> c" "d \<le> q + b" for q b c d
    using other [OF that(1,2)] that(3,4) by (intro lines_clear_cong) auto
  have "seg_ok S ?m' sg" if "sg \<in> set (taken' @ pend')" for sg
  proof (cases "sg = (p, a)")
    case False
    obtain q b where [simp]: "sg = (q, b)" by (cases sg)
    have sg: "(q, b) \<in> set (taken @ pend)" using that segs by simp
    with other [OF sg] False chan_invD(2) [OF inv, of sg] seg_ok_same [of ?m ?m' sg S] show ?thesis by auto
  qed (simp add: seg)
  moreover have "pend_ok ?m' sg" if "sg \<in> set pend'" for sg
  proof (cases "sg = (p, a)")
    case False
    obtain q b where [simp]: "sg = (q, b)" by (cases sg)
    have sg: "(q, b) \<in> set pend" "(q, b) \<in> set (taken @ pend)" using old(2) [OF that False] by simp_all
    show ?thesis
      using other [OF sg(2)] False chan_invD(3) [OF inv sg(1)] cl [OF sg(2), of "q + 64" "q + b"]
        same_headerD [of ?m ?m' q] by (simp add: pend_ok_def)
  qed (use new(2) that in simp)
  moreover have "taken_ok ?m' sg" if "sg \<in> set taken'" for sg
  proof (cases "sg = (p, a)")
    case False
    obtain q b where [simp]: "sg = (q, b)" by (cases sg)
    have sg: "(q, b) \<in> set taken" "(q, b) \<in> set (taken @ pend)" using old(1) [OF that False] by simp_all
    show ?thesis
      using other [OF sg(2)] False chan_invD(4) [OF inv sg(1)] cl [OF sg(2), of q "q + b"]
        same_headerD [of ?m ?m' q] by (simp add: taken_ok_def)
  qed (use new(1) that in simp)
  moreover have "free_ok S hc' (taken' @ pend')"
    unfolding free_ok_def segs tl
  proof (intro allI impI)
    fix x assume x: "x < S" "64 dvd x \<and> total (taken @ pend) \<le> dist S (start_of S hc) x"
    then have "\<not> (p \<le> x \<and> x < p + a)"
      using path_free [OF ring_okD(8,10) [OF r] _ blk, of x] ring_okD(9) [OF r] by auto
    with line [of x] x chan_invD(5) [OF inv] show "msg_ready ?m' x = 0" by (simp add: free_ok_def)
  qed
  ultimately show ?thesis using ring by (auto simp: chan_inv_def)
qed

lemma ring_ok_next:
  assumes "ring_ok S hc taken ((p, a) # rest)"
  shows "ring_ok S (hc\<lparr>hc_next := wrap S (p + a), hc_shared := m'\<rparr>) (taken @ [(p, a)]) rest"
    and "hc_next hc = p"
  using assms by (auto simp: ring_ok_def path_append)

text \<open>Receiving moves the oldest pending block to the received ones; the header may change with it.\<close>

lemma chan_inv_take:
  assumes inv: "chan_inv S hc taken ((p, a) # rest)"
    and m: "\<And>x. \<not> (p \<le> x \<and> x < p + a) \<Longrightarrow> m' x = hc_shared hc x"
    and seg: "seg_ok S m' (p, a)" "taken_ok m' (p, a)"
    and nin: "(p, a) \<notin> set rest"
  shows "chan_inv S (hc\<lparr>hc_next := wrap S (p + a), hc_shared := m'\<rparr>) (taken @ [(p, a)]) rest"
proof (rule chan_inv_block [OF inv])
  show "ring_ok S (hc\<lparr>hc_next := wrap S (p + a), hc_shared := m'\<rparr>) (taken @ [(p, a)]) rest"
    by (rule ring_ok_next(1) [OF chan_invD(1) [OF inv]])
  show "(p, a) \<in> set (taken @ (p, a) # rest)" by simp
qed (use m seg nin in auto)

lemma segs_distinct:
  assumes "ring_ok S hc taken pend"
  shows "distinct (taken @ pend)"
proof -
  have "distinct segs" if "path S s segs e" "s < S" "total segs < S" for s segs e
    using that
  proof (induction segs arbitrary: s)
    case (Cons sg segs)
    obtain p a where sg: "sg = (p, a)" by (cases sg)
    have sn: "s < S" "path S (wrap S (s + a)) segs e" "p = s" "0 < a" "s + a \<le> S" "total segs + a < S"
      using Cons.prems sg by auto
    have "sg \<notin> set segs"
    proof
      assume "sg \<in> set segs"
      then obtain us vs where u: "segs = us @ (p, a) # vs" using sg by (meson split_list)
      have "dist S s s = total ((p, a) # us) + (s - p)"
        using path_inside [of S s "(p, a) # us" p a vs e s] Cons.prems u sn sg by simp
      then show False using sn by (simp add: dist_def)
    qed
    moreover have "distinct segs" using Cons.IH [OF sn(2)] sn by simp
    ultimately show ?case by simp
  qed simp
  from this [OF ring_okD(8,10,9) [OF assms]] show ?thesis .
qed

section \<open>The receiver's operations\<close>

lemma seg_in_shared:
  "ring_ok S hc taken pend \<Longrightarrow> (p, a) \<in> set taken \<or> (p, a) \<in> set pend \<Longrightarrow> in_shared S p"
  using ring_seg [of S hc taken pend p a] ring_seg_64 [of S hc taken pend p a]
  by (auto simp: in_shared_def MESSAGE_def)

lemma next_in_shared: "ring_ok S hc taken pend \<Longrightarrow> in_shared S (hc_next hc)"
  using ring_okD(1,14,15) [of S hc taken pend] line_apart [of "hc_next hc" S]
  by (auto simp: in_shared_def MESSAGE_def)

lemma get_u16_less: "get_u16 m p < 65536"
proof -
  have b: "unat w < 256" for w :: u8 using unsigned_less [of w] by simp
  from b [of "m p"] b [of "m (p + 1)"] show ?thesis unfolding get_u16_def by linarith
qed

lemma poll_idle:
  assumes inv: "chan_inv S hc taken pend"
    and "case pend of [] \<Rightarrow> True | (p, a) # _ \<Rightarrow> msg_size (hc_shared hc) p = 0"
  shows "poll_rounds (Suc k) S closed (hc_next hc) hc = Some (if closed then CLOSED else 0, hc_next hc, hc)"
proof (cases pend)
  case Nil
  note r = chan_invD(1) [OF inv]
  have "hc_next hc = hc_head hc" using ring_okD(7) [OF r] Nil by simp
  moreover have "msg_ready (hc_shared hc) (hc_head hc) = 0"
    using chan_invD(5) [OF inv] ring_okD(12,13,16) [OF r] by (simp add: free_ok_def)
  ultimately show ?thesis using next_in_shared [OF r] by (simp add: Let_def)
next
  case (Cons sg rest)
  obtain p a where "sg = (p, a)" by (cases sg)
  then show ?thesis
    using assms Cons ring_ok_next(2) [of S hc taken p a rest] chan_invD(1) [OF inv]
      next_in_shared [OF chan_invD(1) [OF inv]] by (simp add: Let_def)
qed

lemma poll_message:
  assumes inv: "chan_inv S hc taken ((p, a) # rest)"
    and "msg_size (hc_shared hc) p \<noteq> 0" "msg_size (hc_shared hc) p \<noteq> SENTINEL"
  shows "poll_rounds (Suc k) S closed (hc_next hc) hc = Some (msg_size (hc_shared hc) p, p, hc)"
  using assms ring_ok_next(2) [OF chan_invD(1) [OF inv]] next_in_shared [OF chan_invD(1) [OF inv]]
    chan_invD(3) [OF inv, of "(p, a)"] by (simp add: Let_def pend_ok_def)

lemma poll_sentinel:
  assumes inv: "chan_inv S hc taken ((p, a) # rest)" and sz: "msg_size (hc_shared hc) p = SENTINEL"
  defines "hc1 \<equiv> hc\<lparr>hc_next := 0, hc_shared := set_msg_ready p False (hc_shared hc)\<rparr>"
  shows "poll_rounds (Suc k) S closed (hc_next hc) hc = poll_rounds k S closed (hc_next hc1) hc1"
    and "chan_inv S hc1 (taken @ [(p, a)]) rest"
    and "lines_clear (hc_shared hc1) p (p + a)"
    and "frame rest (hc_shared hc) (hc_shared hc1)"
proof -
  note r = chan_invD(1) [OF inv]
  have nx: "hc_next hc = p" by (rule ring_ok_next(2) [OF r])
  have rd: "msg_ready (hc_shared hc) p = 1" "lines_clear (hc_shared hc) (p + 64) (p + a)"
    using chan_invD(3) [OF inv, of "(p, a)"] sz by (simp_all add: pend_ok_def)
  have so: "msg_alloced (hc_shared hc) p = a" "p + a = S"
    using chan_invD(2) [OF inv, of "(p, a)"] sz by (simp_all add: seg_ok_def)
  have sg: "64 dvd p" "64 \<le> a" using ring_seg [OF r, of p a] ring_seg_64 [OF r, of p a] by auto
  let ?m' = "set_msg_ready p False (hc_shared hc)"
  have chg: "?m' x = hc_shared hc x" if "x \<noteq> p + 4" for x using that by (simp add: set_msg_ready_def)
  show "poll_rounds (Suc k) S closed (hc_next hc) hc = poll_rounds k S closed (hc_next hc1) hc1"
    using next_in_shared [OF r] nx rd(1) sz by (simp add: hc1_def Let_def SENTINEL_def)
  have cl: "lines_clear ?m' p (p + a)"
    unfolding lines_clear_def
  proof (intro allI impI)
    fix x assume x: "64 dvd x \<and> p \<le> x \<and> x < p + a"
    show "msg_ready ?m' x = 0"
    proof (cases "x = p")
      case True
      then show ?thesis by (simp add: header_defs)
    next
      case False
      then have "p + 64 \<le> x" using x line_apart [OF sg(1), of x] by auto
      with x rd(2) chg [of "x + 4"] show ?thesis by (simp add: lines_clear_def msg_ready_def)
    qed
  qed
  then show "lines_clear (hc_shared hc1) p (p + a)" by (simp add: hc1_def)
  have "seg_ok S ?m' (p, a)"
    using so chg by (simp add: seg_ok_def msg_alloced_def get_u16_def)
  moreover have "(p, a) \<notin> set rest" using segs_distinct [OF r] by simp
  ultimately have "chan_inv S (hc\<lparr>hc_next := wrap S (p + a), hc_shared := ?m'\<rparr>) (taken @ [(p, a)]) rest"
    using cl sg(2) chg by (intro chan_inv_take [OF inv]) (auto simp: taken_ok_def)
  moreover have "wrap S (p + a) = 0" using so(2) by (simp add: wrap_def)
  ultimately show "chan_inv S hc1 (taken @ [(p, a)]) rest" by (simp add: hc1_def)
  show "frame rest (hc_shared hc) (hc_shared hc1)"
    unfolding frame_def
  proof (intro ballI, clarify)
    fix q b x assume x: "(q, b) \<in> set rest" "q \<le> x" "x < q + b"
    then have "(q, b) \<noteq> (p, a)" using \<open>(p, a) \<notin> set rest\<close> by auto
    then have "\<not> (p \<le> x \<and> x < p + a)"
      using path_distinct [OF ring_okD(8,10,9) [OF r], of q b p a x] x by auto
    with sg(2) chg show "hc_shared hc1 x = hc_shared hc x" by (auto simp: hc1_def)
  qed
qed

text \<open>After a sentinel the next block starts the buffer, and it cannot be a sentinel itself.\<close>

lemma no_second_sentinel:
  assumes inv: "chan_inv S hc taken ((p, a) # rest)" and "hc_next hc = 0"
  shows "msg_size (hc_shared hc) p \<noteq> SENTINEL"
proof
  assume "msg_size (hc_shared hc) p = SENTINEL"
  then have "p + a = S" using chan_invD(2) [OF inv, of "(p, a)"] by (simp add: seg_ok_def)
  moreover have "p = 0" using assms ring_ok_next(2) [OF chan_invD(1) [OF inv]] by simp
  ultimately show False using ring_okD(9) [OF chan_invD(1) [OF inv]] by simp
qed

lemma line_split:
  fixes p e x :: nat
  assumes "64 dvd p" "64 dvd e" "p < e"
  shows "x mod 64 = 4 \<and> p \<le> x \<and> x < e \<longleftrightarrow> x = p + 4 \<or> (x mod 64 = 4 \<and> p + 64 \<le> x \<and> x < e)"
proof -
  obtain k j where k: "p = 64 * k" "e = 64 * j" using assms(1,2) by (auto elim!: dvdE)
  have "(64 * k + 4) mod 64 = 4" by simp
  moreover have "x = 64 * k + 4" if "x mod 64 = 4" "64 * k \<le> x" "x < 64 * k + 64"
  proof -
    have "x div 64 = k" using that(2,3) by (intro div_nat_eqI) simp_all
    with that(1) show ?thesis using div_mult_mod_eq [of x 64] by simp
  qed
  ultimately show ?thesis using assms(3) unfolding k by force
qed

lemma free_lines_eq:
  assumes "64 dvd p" "64 dvd e"
  shows "free_lines p e m = (\<lambda>x. if x mod 64 = 4 \<and> p \<le> x \<and> x < e then 0 else m x)"
  using assms
proof (induction p e m rule: free_lines.induct)
  case (1 p e m)
  show ?case
  proof (cases "p < e")
    case True
    have "free_lines (p + 64) e (set_msg_ready p False m) =
      (\<lambda>x. if x mod 64 = 4 \<and> p + 64 \<le> x \<and> x < e then 0 else set_msg_ready p False m x)"
      using 1(1) [OF True] 1(2,3) by (simp add: CACHELINE_SIZE_def)
    then have "free_lines p e m =
      (\<lambda>x. if x mod 64 = 4 \<and> p + 64 \<le> x \<and> x < e then 0 else set_msg_ready p False m x)"
      using True by (subst free_lines.simps) (simp add: CACHELINE_SIZE_def)
    also have "\<dots> = (\<lambda>x. if x mod 64 = 4 \<and> p \<le> x \<and> x < e then 0 else m x)"
      unfolding line_split [OF 1(2,3) True] by (rule ext) (auto simp: set_msg_ready_def)
    finally show ?thesis .
  next
    case False
    then show ?thesis by (subst free_lines.simps) (auto simp: fun_eq_iff)
  qed
qed

lemma line_offset: "64 dvd (p :: nat) \<Longrightarrow> i < 64 \<Longrightarrow> (p + i) mod 64 = i"
  by (elim dvdE) simp

lemma channel_free_inv:
  assumes inv: "chan_inv S hc taken pend" and blk: "(p, a) \<in> set taken"
  defines "m' \<equiv> free_lines p (p + a) (hc_shared hc)"
  shows "channel_free S (p + 8) hc = Some (hc\<lparr>hc_shared := m'\<rparr>)"
    and "chan_inv S (hc\<lparr>hc_shared := m'\<rparr>) taken pend"
    and "lines_clear m' p (p + a)"
    and "\<And>x. \<not> (p \<le> x \<and> x < p + a) \<Longrightarrow> m' x = hc_shared hc x"
proof -
  note r = chan_invD(1) [OF inv]
  have sg: "64 dvd p" "64 dvd a" "p + a \<le> S" "64 \<le> a"
    using ring_seg [OF r, of p a] ring_seg_64 [OF r, of p a] blk by auto
  have so: "seg_ok S (hc_shared hc) (p, a)" using chan_invD(2) [OF inv] blk by simp
  have m': "m' = (\<lambda>x. if x mod 64 = 4 \<and> p \<le> x \<and> x < p + a then 0 else hc_shared hc x)"
    unfolding m'_def using sg by (intro free_lines_eq) simp_all
  show "channel_free S (p + 8) hc = Some (hc\<lparr>hc_shared := m'\<rparr>)"
    using sg so by (simp add: channel_free_def MESSAGE_def Let_def seg_ok_def m'_def)
  show out: "\<And>x. \<not> (p \<le> x \<and> x < p + a) \<Longrightarrow> m' x = hc_shared hc x" by (auto simp: m')
  have keep: "m' (p + i) = hc_shared hc (p + i)" if "i < 4" for i
    using line_offset [OF sg(1), of i] that by (simp add: m')
  have "get_u16 m' p = get_u16 (hc_shared hc) p" "get_u16 m' (p + 2) = get_u16 (hc_shared hc) (p + 2)"
    using keep [of 0] keep [of 1] keep [of 2] keep [of 3] by (simp_all add: get_u16_def numeral_3_eq_3)
  then have "seg_ok S m' (p, a)"
    using so by (simp add: seg_ok_def msg_alloced_def msg_size_def)
  moreover show cl: "lines_clear m' p (p + a)"
    unfolding lines_clear_def
  proof (intro allI impI)
    fix x assume x: "64 dvd x \<and> p \<le> x \<and> x < p + a"
    then have "x + 64 \<le> p + a" using sg line_apart [of x "p + a"] by auto
    with x show "msg_ready m' x = 0" using line_offset [of x 4] by (simp add: msg_ready_def m')
  qed
  moreover have "(p, a) \<notin> set pend" using segs_distinct [OF r] blk by auto
  moreover have "ring_ok S (hc\<lparr>hc_shared := m'\<rparr>) taken pend" using r by (simp add: ring_ok_def)
  moreover have "taken_ok m' (p, a)" using cl by (simp add: taken_ok_def)
  ultimately show "chan_inv S (hc\<lparr>hc_shared := m'\<rparr>) taken pend"
    using blk by (intro chan_inv_block [OF inv, where p = p and a = a]) (simp_all add: out)
qed

section \<open>Whole messages\<close>

text \<open>What a sender and a receiver of the channel do with a message: allocate, fill in the payload and send;
  receive, read the payload and free.\<close>

definition write_payload :: "nat \<Rightarrow> u8 list \<Rightarrow> mem \<Rightarrow> mem" where
  "write_payload d bs m = (\<lambda>x. if d \<le> x \<and> x < d + length bs then bs ! (x - d) else m x)"

definition channel_post :: "nat \<Rightarrow> u8 list \<Rightarrow> HalfChannel \<Rightarrow> (bool \<times> HalfChannel) option" where
  "channel_post S bs hc = do {
     (r, hc) \<leftarrow> channel_allocate S hc (length bs);
     case r of
       None \<Rightarrow> Some (False, hc)
     | Some d \<Rightarrow> do {
         hc \<leftarrow> channel_send S d (length bs) (hc\<lparr>hc_shared := write_payload d bs (hc_shared hc)\<rparr>);
         Some (True, hc)
       }
   }"

definition channel_fetch :: "nat \<Rightarrow> bool \<Rightarrow> HalfChannel \<Rightarrow> (u8 list option \<times> HalfChannel) option" where
  "channel_fetch S closed hc = do {
     (n, data, hc) \<leftarrow> channel_receive S closed hc;
     case data of
       None \<Rightarrow> Some (None, hc)
     | Some d \<Rightarrow> do {
         hc' \<leftarrow> channel_free S d hc;
         Some (Some (map (hc_shared hc) [d..<d + n]), hc')
       }
   }"

definition payload :: "mem \<Rightarrow> nat \<Rightarrow> u8 list" where
  "payload m p = map m [p + 8..<p + 8 + msg_size m p]"

definition sent_ok :: "mem \<Rightarrow> nat \<times> nat \<Rightarrow> bool" where
  "sent_ok m = (\<lambda>(p, a). msg_size m p \<noteq> 0 \<and> (msg_size m p \<noteq> SENTINEL \<longrightarrow> msg_size m p + 8 \<le> a))"

definition messages :: "mem \<Rightarrow> (nat \<times> nat) list \<Rightarrow> u8 list list" where
  "messages m pend = map (\<lambda>(p, a). payload m p) (filter (\<lambda>(p, a). msg_size m p \<noteq> SENTINEL) pend)"

text \<open>The queue of messages a half channel stands for, between whole operations of its two ends.\<close>

definition chan_rel :: "nat \<Rightarrow> HalfChannel \<Rightarrow> u8 list list \<Rightarrow> bool" where
  "chan_rel S hc q \<longleftrightarrow> (\<exists>taken pend. chan_inv S hc taken pend
     \<and> (\<forall>(p, a)\<in>set taken. lines_clear (hc_shared hc) p (p + a))
     \<and> (\<forall>sg\<in>set pend. sent_ok (hc_shared hc) sg) \<and> q = messages (hc_shared hc) pend)"

lemma frame_block:
  assumes "frame segs m m'" "(p, a) \<in> set segs" "64 \<le> a" "64 dvd p" "64 dvd a"
  shows "msg_size m' p = msg_size m p" "msg_ready m' p = msg_ready m p"
    "lines_clear m' p (p + a) = lines_clear m p (p + a)"
    "msg_size m p + 8 \<le> a \<Longrightarrow> payload m' p = payload m p"
proof -
  have eq: "m' x = m x" if "p \<le> x" "x < p + a" for x using assms(1,2) that by (auto simp: frame_def)
  show sz: "msg_size m' p = msg_size m p" and "msg_ready m' p = msg_ready m p"
    using assms(3) by (simp_all add: msg_size_def msg_ready_def get_u16_def eq)
  show "lines_clear m' p (p + a) = lines_clear m p (p + a)"
  proof (rule lines_clear_cong)
    fix x assume x: "64 dvd x" "p \<le> x" "x < p + a"
    then have "x + 64 \<le> p + a" using line_apart [of x "p + a"] assms(4,5) by auto
    with x show "msg_ready m' x = msg_ready m x" by (simp add: msg_ready_def eq)
  qed
  show "msg_size m p + 8 \<le> a \<Longrightarrow> payload m' p = payload m p"
    unfolding payload_def sz by (rule map_cong) (auto intro!: eq)
qed

lemma frame_messages:
  assumes "ring_ok S hc taken pend" "frame pend m m'" "\<forall>sg\<in>set pend. sent_ok m sg"
  shows "messages m' pend = messages m pend" "\<forall>sg\<in>set pend. sent_ok m' sg"
proof -
  have fb: "msg_size m' p = msg_size m p"
    "msg_size m p + 8 \<le> a \<Longrightarrow> payload m' p = payload m p" if "(p, a) \<in> set pend" for p a
    using frame_block [OF assms(2) that] ring_seg [OF assms(1), of p a] ring_seg_64 [OF assms(1), of p a] that
    by auto
  have "filter (\<lambda>(p, a). msg_size m' p \<noteq> SENTINEL) pend = filter (\<lambda>(p, a). msg_size m p \<noteq> SENTINEL) pend"
    using fb by (intro filter_cong) auto
  moreover have "map (\<lambda>(p, a). payload m' p) (filter (\<lambda>(p, a). msg_size m p \<noteq> SENTINEL) pend) =
      map (\<lambda>(p, a). payload m p) (filter (\<lambda>(p, a). msg_size m p \<noteq> SENTINEL) pend)"
  proof (rule map_cong [OF refl], clarsimp)
    fix p a assume "(p, a) \<in> set pend" "msg_size m p \<noteq> SENTINEL"
    then show "payload m' p = payload m p" using fb(2) [of p a] assms(3) by (auto simp: sent_ok_def)
  qed
  ultimately show "messages m' pend = messages m pend" by (simp add: messages_def)
  show "\<forall>sg\<in>set pend. sent_ok m' sg" using fb(1) assms(3) by (auto simp: sent_ok_def)
qed

lemma messages_append: "messages m (xs @ ys) = messages m xs @ messages m ys"
  by (simp add: messages_def)

lemma messages_sentinels: "sentinels m sent \<Longrightarrow> messages m sent = []"
  by (auto simp: messages_def sentinels_def filter_empty_conv)

lemma sent_ok_sentinels: "sentinels m sent \<Longrightarrow> sg \<in> set sent \<Longrightarrow> sent_ok m sg"
  by (auto simp: sentinels_def sent_ok_def SENTINEL_def)

lemma post_failed:
  assumes "chan_inv S hc (dropped @ kept) pend" "chan_inv S hc' kept (pend @ sent)"
    and "frame (kept @ pend) (hc_shared hc) (hc_shared hc')" "sentinels (hc_shared hc') sent"
    and "\<forall>(p, a)\<in>set (dropped @ kept). lines_clear (hc_shared hc) p (p + a)"
    and "\<forall>sg\<in>set pend. sent_ok (hc_shared hc) sg"
  shows "chan_rel S hc' (messages (hc_shared hc) pend)"
proof -
  note r = chan_invD(1) [OF assms(1)]
  have "frame pend (hc_shared hc) (hc_shared hc')" using frame_mono [OF assms(3)] by simp
  note fm = frame_messages [OF r this assms(6)]
  have "lines_clear (hc_shared hc') p (p + a)" if "(p, a) \<in> set kept" for p a
    using frame_block(3) [OF assms(3), of p a] that assms(5) ring_seg [OF r, of p a]
      ring_seg_64 [OF r, of p a] by auto
  moreover have "\<forall>sg\<in>set (pend @ sent). sent_ok (hc_shared hc') sg"
    using fm(2) sent_ok_sentinels [OF assms(4)] by auto
  moreover have "messages (hc_shared hc') (pend @ sent) = messages (hc_shared hc) pend"
    using fm(1) messages_sentinels [OF assms(4)] by (simp add: messages_append)
  ultimately show ?thesis using assms(2) unfolding chan_rel_def by (metis (no_types, lifting) case_prodI2)
qed

lemma fill_block:
  assumes inv: "chan_inv S hc taken (pend @ [(st, a)])" and n: "bs \<noteq> []" "length bs + 8 \<le> a" "a \<le> S - 64"
  defines "m' \<equiv> set_msg_size st (length bs) (write_payload (st + 8) bs (hc_shared hc))"
  shows "chan_inv S (hc\<lparr>hc_shared := m'\<rparr>) taken (pend @ [(st, a)])"
    and "frame (taken @ pend) (hc_shared hc) m'" "msg_size m' st = length bs" "payload m' st = bs"
proof -
  note r = chan_invD(1) [OF inv]
  have S: "S \<le> 65536" "128 \<le> S" using ring_okD(2,3) [OF r] by simp_all
  then have n16: "length bs < 65535" using n by simp
  have "m' x = hc_shared hc x" if "x \<noteq> st" "x \<noteq> st + 1" "\<not> (st + 8 \<le> x \<and> x < st + 8 + length bs)" for x
    using that by (auto simp: m'_def set_msg_size_def put_u16_def write_payload_def)
  then have out: "\<And>x. \<not> (st \<le> x \<and> x < st + a) \<Longrightarrow> m' x = hc_shared hc x"
    and hdr: "m' (st + 2) = hc_shared hc (st + 2)" "m' (st + 3) = hc_shared hc (st + 3)" "m' (st + 4) = hc_shared hc (st + 4)"
    using n(2) by force+
  show sz: "msg_size m' st = length bs"
    unfolding m'_def using n16 by (simp add: msg_size_def set_msg_size_def)
  have al: "msg_alloced m' st = msg_alloced (hc_shared hc) st" "msg_ready m' st = msg_ready (hc_shared hc) st"
    using hdr by (simp_all add: msg_alloced_def msg_ready_def get_u16_def numeral_3_eq_3)
  have nS: "msg_size m' st \<noteq> SENTINEL" using sz n16 by (simp add: SENTINEL_def)
  have "seg_ok S m' (st, a)" using chan_invD(2) [OF inv, of "(st, a)"] al nS by (simp add: seg_ok_def)
  moreover have "pend_ok m' (st, a)" using chan_invD(3) [OF inv, of "(st, a)"] al nS by (simp add: pend_ok_def)
  moreover have ni: "(st, a) \<notin> set taken" "(st, a) \<notin> set pend" using segs_distinct [OF r] by auto
  moreover have "ring_ok S (hc\<lparr>hc_shared := m'\<rparr>) taken (pend @ [(st, a)])" using r by (simp add: ring_ok_def)
  ultimately show "chan_inv S (hc\<lparr>hc_shared := m'\<rparr>) taken (pend @ [(st, a)])"
    by (intro chan_inv_block [OF inv, where p = st and a = a]) (auto simp: out)
  show "frame (taken @ pend) (hc_shared hc) m'"
    unfolding frame_def
  proof (intro ballI, clarify)
    fix p b x assume x: "(p, b) \<in> set (taken @ pend)" "p \<le> x" "x < p + b"
    then have "(p, b) \<noteq> (st, a)" using ni by auto
    then have "\<not> (st \<le> x \<and> x < st + a)"
      using path_distinct [OF ring_okD(8,10,9) [OF r], of p b st a x] x by auto
    then show "m' x = hc_shared hc x" by (rule out)
  qed
  have "m' (st + 8 + i) = bs ! i" if "i < length bs" for i
    using that by (simp add: m'_def set_msg_size_def put_u16_def write_payload_def)
  then show "payload m' st = bs"
    unfolding payload_def sz by (intro nth_equalityI) (simp_all add: add.assoc)
qed

text \<open>The receiver has caught up with the sender, and a message that with its header and the filling to whole
  cache lines takes at most half of the buffer.\<close>

definition caught_up :: "HalfChannel \<Rightarrow> bool" where
  "caught_up hc \<longleftrightarrow> hc_next hc = hc_head hc"

definition small_message :: "nat \<Rightarrow> u8 list \<Rightarrow> bool" where
  "small_message S bs \<longleftrightarrow> 2 * (length bs + 71) \<le> S"

lemma caught_up_pend:
  assumes "ring_ok S hc taken pend" "caught_up hc"
  shows "pend = []"
proof (rule ccontr)
  assume "pend \<noteq> []"
  then obtain p a rest where pend: "pend = (p, a) # rest" by (metis neq_Nil_conv surj_pair)
  have "dist S (hc_next hc) (hc_head hc) = total pend"
    using path_total [OF ring_okD(7,14) [OF assms(1)]] ring_okD(9) [OF assms(1)] by simp
  moreover have "0 < a" using ring_okD(7) [OF assms(1)] pend by simp
  ultimately show False using assms(2) pend by (simp add: caught_up_def dist_def)
qed

lemma clear_released:
  assumes "ring_ok S hc taken pend" "\<forall>(p, a)\<in>set taken. lines_clear m p (p + a)"
  shows "released m taken"
proof -
  have "msg_ready m p = 0" if "(p, a) \<in> set taken" for p a
    using assms(2) ring_seg [OF assms(1), of p a] that by (auto simp: lines_clear_def)
  then show ?thesis by (auto simp: released_def)
qed

lemma small_message_size:
  assumes "size_ok S" "small_message S bs"
  shows "channel_message_size S (length bs) \<noteq> 0" "2 * channel_message_size S (length bs) \<le> S"
proof -
  have S: "128 \<le> S" "S \<le> 65536" "2 * (length bs + 71) \<le> S"
    using assms by (simp_all add: size_ok_def small_message_def)
  have sub: "size_sub S 64 = S - 64" using S by (intro size_sub_le) simp_all
  have "length bs + 8 \<le> S - 64" using S by simp
  then show nz: "channel_message_size S (length bs) \<noteq> 0"
    using S sub by (auto simp: channel_message_size_def MESSAGE_def CACHELINE_SIZE_def Let_def)
  show "2 * channel_message_size S (length bs) \<le> S"
    using message_size(4) [OF assms(1) _ refl nz] S by simp
qed

lemma caught_up_accepts:
  assumes inv: "chan_inv S hc taken pend" and cl: "\<forall>(p, a)\<in>set taken. lines_clear (hc_shared hc) p (p + a)"
    and rf: "refusal_ok S (length bs) hc taken pend r" and c: "caught_up hc" and s: "small_message S bs"
  shows "r \<noteq> None"
proof -
  note ring = chan_invD(1) [OF inv]
  have sz: "size_ok S" using ring by (simp add: ring_ok_def)
  from rf small_message_size [OF sz s] clear_released [OF ring cl] caught_up_pend [OF ring c]
  show ?thesis by (auto simp: refusal_ok_def)
qed

lemma channel_post_rel:
  assumes rel: "chan_rel S hc q" and bs: "bs \<noteq> []" "length bs < 2 ^ 63"
  shows "\<exists>ok hc'. channel_post S bs hc = Some (ok, hc')
     \<and> (if ok then hc_tail hc' \<noteq> S \<longrightarrow> chan_rel S hc' (q @ [bs]) else chan_rel S hc' q)
     \<and> (caught_up hc \<and> small_message S bs \<longrightarrow> ok)"
proof -
  obtain taken pend where inv: "chan_inv S hc taken pend"
    and cl: "\<forall>(p, a)\<in>set taken. lines_clear (hc_shared hc) p (p + a)"
    and so: "\<forall>sg\<in>set pend. sent_ok (hc_shared hc) sg" and q: "q = messages (hc_shared hc) pend"
    using rel unfolding chan_rel_def by blast
  obtain r hc1 dropped kept where al: "channel_allocate S hc (length bs) = Some (r, hc1)"
    "taken = dropped @ kept" "alloc_outcome S (length bs) hc kept pend r hc1"
    and rf: "refusal_ok S (length bs) hc taken pend r"
    using channel_allocate_inv [OF inv bs(2)] by blast
  let ?a = "channel_message_size S (length bs)"
  show ?thesis
  proof (cases r)
    case None
    then obtain sent where "chan_inv S hc1 kept (pend @ sent)"
      "frame (kept @ pend) (hc_shared hc) (hc_shared hc1)" "sentinels (hc_shared hc1) sent"
      using al(3) by (auto simp: alloc_outcome_def)
    then have "chan_rel S hc1 q" using post_failed inv cl so q unfolding al(2) by blast
    moreover have "\<not> (caught_up hc \<and> small_message S bs)" using caught_up_accepts [OF inv cl rf] None by blast
    ultimately show ?thesis
      using al(1) None by (intro exI [of _ False] exI [of _ hc1]) (simp add: channel_post_def)
  next
    case (Some d)
    then obtain sent st where pl: "d = st + 8" "length bs + 8 \<le> ?a"
      "placed S hc kept pend sent st ?a hc1" using al(3) by (auto simp: alloc_outcome_def)
    let ?m' = "set_msg_size st (length bs) (write_payload (st + 8) bs (hc_shared hc1))"
    have "st + 8 \<le> S" using pl by (simp add: placed_def)
    then have post: "channel_post S bs hc = Some (True, hc1\<lparr>hc_shared := ?m'\<rparr>)"
      using al(1) Some pl(1) by (simp add: channel_post_def channel_send_def MESSAGE_def)
    have "chan_rel S (hc1\<lparr>hc_shared := ?m'\<rparr>) (q @ [bs])" if "hc_tail hc1 \<noteq> S"
    proof -
      have inv1: "chan_inv S hc1 kept ((pend @ sent) @ [(st, ?a)])" using pl(3) that by (simp add: placed_def)
      have "size_ok S" using chan_invD(1) [OF inv1] by (simp add: ring_ok_def)
      then have aS: "?a \<le> S - 64" using message_size(3) [of S "length bs" ?a] bs(2) pl(2) by simp
      note fb = fill_block [OF inv1 bs(1) pl(2) aS]
      have f: "frame (kept @ pend) (hc_shared hc) ?m'"
        using pl(3) frame_mono [OF fb(2), of "kept @ pend"] by (auto simp: placed_def intro: frame_trans)
      have se: "sentinels ?m' sent"
        unfolding sentinels_def
      proof (intro ballI, clarify)
        fix p b assume pb: "(p, b) \<in> set sent"
        have "msg_size ?m' p = msg_size (hc_shared hc1) p"
          using frame_block(1) [OF fb(2), of p b] pb ring_seg [OF chan_invD(1) [OF inv1], of p b]
            ring_seg_64 [OF chan_invD(1) [OF inv1], of p b] by auto
        with pb pl(3) show "msg_size ?m' p = SENTINEL" by (auto simp: placed_def sentinels_def)
      qed
      note r0 = chan_invD(1) [OF inv]
      have "frame pend (hc_shared hc) ?m'" using frame_mono [OF f] by simp
      note fm = frame_messages [OF r0 this so]
      have "lines_clear ?m' p (p + a)" if "(p, a) \<in> set kept" for p a
        using frame_block(3) [OF f, of p a] that cl al(2) ring_seg [OF r0, of p a]
          ring_seg_64 [OF r0, of p a] by auto
      moreover have "sent_ok ?m' sg" if "sg \<in> set ((pend @ sent) @ [(st, ?a)])" for sg
        using that fm(2) sent_ok_sentinels [OF se] fb(3) bs(1) pl(2) by (auto simp: sent_ok_def)
      moreover have "messages ?m' ((pend @ sent) @ [(st, ?a)]) = q @ [bs]"
      proof -
        have "?a \<le> 65536" using aS ring_okD(3) [OF chan_invD(1) [OF inv1]] by simp
        then have "msg_size ?m' st \<noteq> SENTINEL" using fb(3) pl(2) by (simp add: SENTINEL_def)
        then show ?thesis
          using fm(1) messages_sentinels [OF se] fb(4) by (simp add: messages_append q) (simp add: messages_def)
      qed
      ultimately show ?thesis
        using fb(1) unfolding chan_rel_def
        by (intro exI [of _ kept] exI [of _ "(pend @ sent) @ [(st, ?a)]"]) auto
    qed
    with post show ?thesis
      by (intro exI [of _ True] exI [of _ "hc1\<lparr>hc_shared := ?m'\<rparr>"]) simp
  qed
qed

text \<open>The part of \<^verbatim>\<open>channel_receive\<close> after the poll, with the reading and freeing of the message.\<close>

definition finish_fetch ::
    "nat \<Rightarrow> nat \<times> nat \<times> HalfChannel \<Rightarrow> (u8 list option \<times> HalfChannel) option" where
  "finish_fetch S = (\<lambda>(n, next, hc).
     if n = CLOSED \<or> n = 0 then Some (None, hc)
     else if hc_next hc \<noteq> next then Some (None, hc)
     else do {
       let hc = hc\<lparr>hc_next := wrap S (next + msg_alloced (hc_shared hc) next)\<rparr>;
       hc' \<leftarrow> channel_free S (next + MESSAGE) hc;
       Some (Some (map (hc_shared hc) [next + MESSAGE..<next + MESSAGE + n]), hc')
     })"

lemma channel_fetch_alt:
  "channel_fetch S closed hc = Option.bind (poll_rounds 3 S closed (hc_next hc) hc) (finish_fetch S)"
  unfolding channel_fetch_def channel_receive_def channel_poll_msg_def finish_fetch_def
  by (cases "poll_rounds 3 S closed (hc_next hc) hc") (auto simp: Let_def wrap_def)

lemma fetch_message:
  assumes inv: "chan_inv S hc taken pend"
    and cl: "\<forall>(p, a)\<in>set taken. lines_clear (hc_shared hc) p (p + a)"
    and so: "\<forall>sg\<in>set pend. sent_ok (hc_shared hc) sg"
    and first: "case pend of [] \<Rightarrow> True | (p, a) # _ \<Rightarrow> msg_size (hc_shared hc) p \<noteq> SENTINEL"
  shows "\<exists>hc'. Option.bind (poll_rounds (Suc k) S closed (hc_next hc) hc) (finish_fetch S)
      = Some (case messages (hc_shared hc) pend of [] \<Rightarrow> None | b # _ \<Rightarrow> Some b, hc')
     \<and> chan_rel S hc' (tl (messages (hc_shared hc) pend))
     \<and> (messages (hc_shared hc) pend = [] \<longrightarrow> caught_up hc')"
proof (cases pend)
  case Nil
  then have "poll_rounds (Suc k) S closed (hc_next hc) hc = Some (if closed then CLOSED else 0, hc_next hc, hc)"
    by (intro poll_idle [OF inv]) simp
  moreover have "chan_rel S hc []"
    using inv cl Nil unfolding chan_rel_def by (intro exI [of _ taken] exI [of _ "[]"]) (simp add: messages_def)
  moreover have "caught_up hc" using ring_okD(7) [OF chan_invD(1) [OF inv]] Nil by (simp add: caught_up_def)
  ultimately show ?thesis using Nil by (simp add: finish_fetch_def messages_def)
next
  case (Cons sg rest)
  obtain p a where sg: "sg = (p, a)" by (cases sg)
  note inv' = inv [unfolded Cons sg] and r = chan_invD(1) [OF inv]
  let ?m = "hc_shared hc" and ?n = "msg_size (hc_shared hc) p"
  have pa: "?n \<noteq> 0" "?n \<noteq> SENTINEL" "?n + 8 \<le> a" "msg_alloced ?m p = a"
    using so first Cons sg chan_invD(2) [OF inv, of sg] by (auto simp: sent_ok_def seg_ok_def)
  have nC: "?n \<noteq> CLOSED"
    using get_u16_less [of ?m p] by (simp add: msg_size_def CLOSED_def)
  let ?hc1 = "hc\<lparr>hc_next := wrap S (p + a)\<rparr>"
  have nin: "(p, a) \<notin> set rest" "(p, a) \<notin> set taken" using segs_distinct [OF r] Cons sg by auto
  have "chan_inv S (hc\<lparr>hc_next := wrap S (p + a), hc_shared := ?m\<rparr>) (taken @ [(p, a)]) rest"
    using chan_invD(2,3) [OF inv', of "(p, a)"] pa nin by (intro chan_inv_take [OF inv'])
      (auto simp: taken_ok_def pend_ok_def)
  then have inv1: "chan_inv S ?hc1 (taken @ [(p, a)]) rest" by simp
  let ?m' = "free_lines p (p + a) ?m"
  note fr = channel_free_inv [OF inv1, of p a, simplified]
  have bind: "Option.bind (poll_rounds (Suc k) S closed (hc_next hc) hc) (finish_fetch S)
      = Some (Some (payload ?m p), ?hc1\<lparr>hc_shared := ?m'\<rparr>)"
    using poll_message [OF inv' pa(1,2), of k closed] ring_ok_next(2) [OF chan_invD(1) [OF inv']] fr(1) pa nC
    by (simp add: finish_fetch_def payload_def MESSAGE_def Let_def)
  have f: "frame (taken @ rest) ?m ?m'"
    unfolding frame_def
  proof (intro ballI, clarify)
    fix q b x assume x: "(q, b) \<in> set (taken @ rest)" "q \<le> x" "x < q + b"
    then have "(q, b) \<noteq> (p, a)" using nin by auto
    then have "\<not> (p \<le> x \<and> x < p + a)"
      using path_distinct [OF ring_okD(8,10,9) [OF r], of q b p a x] x Cons sg by auto
    then show "?m' x = ?m x" using fr(4) by simp
  qed
  have "frame rest ?m ?m'" using frame_mono [OF f] by simp
  note fm = frame_messages [OF chan_invD(1) [OF inv1] this]
  have "lines_clear ?m' q (q + b)" if "(q, b) \<in> set (taken @ [(p, a)])" for q b
    using that fr(3) frame_block(3) [OF f, of q b] cl ring_seg [OF r, of q b] ring_seg_64 [OF r, of q b]
    by auto
  then have "chan_rel S (?hc1\<lparr>hc_shared := ?m'\<rparr>) (messages ?m rest)"
    using fr(2) fm so Cons unfolding chan_rel_def
    by (intro exI [of _ "taken @ [(p, a)]"] exI [of _ rest]) auto
  with bind pa(2) show ?thesis by (simp add: Cons sg messages_def)
qed

lemma channel_fetch_rel:
  assumes rel: "chan_rel S hc q"
  shows "\<exists>hc'. channel_fetch S closed hc = Some (case q of [] \<Rightarrow> None | b # _ \<Rightarrow> Some b, hc')
     \<and> chan_rel S hc' (tl q) \<and> (q = [] \<longrightarrow> caught_up hc')"
proof -
  obtain taken pend where inv: "chan_inv S hc taken pend"
    and cl: "\<forall>(p, a)\<in>set taken. lines_clear (hc_shared hc) p (p + a)"
    and so: "\<forall>sg\<in>set pend. sent_ok (hc_shared hc) sg" and q: "q = messages (hc_shared hc) pend"
    using rel unfolding chan_rel_def by blast
  show ?thesis
  proof (cases "case pend of [] \<Rightarrow> True | (p, a) # _ \<Rightarrow> msg_size (hc_shared hc) p \<noteq> SENTINEL")
    case True
    from fetch_message [OF inv cl so this, of 2 closed] show ?thesis
      by (simp add: channel_fetch_alt q numeral_3_eq_3)
  next
    case False
    then obtain p a rest where pend: "pend = (p, a) # rest" and sz: "msg_size (hc_shared hc) p = SENTINEL"
      by (auto split: list.splits)
    let ?hc1 = "hc\<lparr>hc_next := 0, hc_shared := set_msg_ready p False (hc_shared hc)\<rparr>"
    note ps = poll_sentinel [OF inv [unfolded pend] sz]
    have fm: "messages (hc_shared ?hc1) rest = messages (hc_shared hc) rest"
      "\<forall>sg\<in>set rest. sent_ok (hc_shared ?hc1) sg"
      using frame_messages [OF chan_invD(1) [OF ps(2)] ps(4)] so pend by auto
    have fst: "case rest of [] \<Rightarrow> True | (p, a) # _ \<Rightarrow> msg_size (hc_shared ?hc1) p \<noteq> SENTINEL"
      using no_second_sentinel [of S ?hc1 "taken @ [(p, a)]"] ps(2) by (auto split: list.splits)
    have "lines_clear (hc_shared ?hc1) r (r + b)" if "(r, b) \<in> set taken" for r b
    proof -
      have "lines_clear (hc_shared hc) r (r + b)" using cl that by auto
      then show ?thesis by (auto simp: lines_clear_def header_defs)
    qed
    then have "\<forall>(r, b)\<in>set (taken @ [(p, a)]). lines_clear (hc_shared ?hc1) r (r + b)" using ps(3) by auto
    note fetch = fetch_message [OF ps(2) this fm(2) fst, of 1 closed]
    have "messages (hc_shared hc) ((p, a) # rest) = messages (hc_shared hc) rest"
      using sz by (simp add: messages_def)
    then have mq: "q = messages (hc_shared ?hc1) rest" using fm(1) q pend by simp
    have "poll_rounds 3 S closed (hc_next hc) hc = poll_rounds (Suc 1) S closed (hc_next ?hc1) ?hc1"
      using ps(1) [of 2 closed] by (simp add: numeral_3_eq_3 numeral_2_eq_2 del: poll_rounds.simps)
    with fetch show ?thesis unfolding channel_fetch_alt mq by presburger
  qed
qed

section \<open>Interface: a queue of messages\<close>

datatype 'm chan_op = Post 'm | Fetch

datatype 'm chan_res = Accepted | Refused | Got "'m option"

text \<open>The results a queue holding \<open>q\<close> may give to a sequence of operations: a receive gets the oldest accepted
  message not yet received, and nothing exactly when there is none.  A send is accepted when it is the next
  operation after a receive that found nothing, or the first one, and the message is small.\<close>

fun fifo_trace :: "('m \<Rightarrow> bool) \<Rightarrow> bool \<Rightarrow> 'm list \<Rightarrow> 'm chan_op list \<Rightarrow> 'm chan_res list \<Rightarrow> bool" where
  "fifo_trace small idle q ops [] \<longleftrightarrow> True"
| "fifo_trace small idle q (Post m # ops) (Accepted # rs) \<longleftrightarrow> fifo_trace small False (q @ [m]) ops rs"
| "fifo_trace small idle q (Post m # ops) (Refused # rs) \<longleftrightarrow>
     \<not> (idle \<and> small m) \<and> fifo_trace small False q ops rs"
| "fifo_trace small idle q (Fetch # ops) (Got r # rs) \<longleftrightarrow>
     r = (case q of [] \<Rightarrow> None | m # _ \<Rightarrow> Some m) \<and> fifo_trace small (q = []) (tl q) ops rs"
| "fifo_trace small idle q ops rs \<longleftrightarrow> False"

text \<open>What the two ends of a message queue may rely on.  A queue that reports itself full after an accepted
  message promises nothing further.\<close>

locale message_queue =
  fixes post :: "'m \<Rightarrow> 's \<Rightarrow> (bool \<times> 's) option"
    and fetch :: "'s \<Rightarrow> ('m option \<times> 's) option"
    and full :: "'s \<Rightarrow> bool"
    and idle :: "'s \<Rightarrow> bool"
    and rel :: "'s \<Rightarrow> 'm list \<Rightarrow> bool"
    and sendable :: "'m \<Rightarrow> bool"
    and small :: "'m \<Rightarrow> bool"
  assumes post_law: "rel s q \<Longrightarrow> sendable m \<Longrightarrow> \<exists>ok s'. post m s = Some (ok, s')
        \<and> (if ok then \<not> full s' \<longrightarrow> rel s' (q @ [m]) else rel s' q) \<and> (idle s \<and> small m \<longrightarrow> ok)"
    and fetch_law: "rel s q \<Longrightarrow> \<exists>s'. fetch s = Some (case q of [] \<Rightarrow> None | m # _ \<Rightarrow> Some m, s') \<and> rel s' (tl q)
        \<and> (q = [] \<longrightarrow> idle s')"
begin

text \<open>A run of the two ends, up to the first full state: the result of every operation.\<close>

fun run :: "'m chan_op list \<Rightarrow> 's \<Rightarrow> ('m chan_res list \<times> 's) option" where
  "run [] s = Some ([], s)"
| "run (Post m # ops) s = do {
     (ok, s) \<leftarrow> post m s;
     if ok \<and> full s then Some ([Accepted], s)
     else do { (rs, s) \<leftarrow> run ops s; Some ((if ok then Accepted else Refused) # rs, s) }
   }"
| "run (Fetch # ops) s = do {
     (r, s) \<leftarrow> fetch s;
     (rs, s) \<leftarrow> run ops s;
     Some (Got r # rs, s)
   }"

lemma run_fifo:
  assumes "rel s q" "\<And>m. Post m \<in> set ops \<Longrightarrow> sendable m" "i \<longrightarrow> idle s"
  shows "\<exists>rs s'. run ops s = Some (rs, s') \<and> fifo_trace small i q ops rs
     \<and> (length rs = length ops \<or> full s')"
  using assms
proof (induction ops arbitrary: s q i)
  case Nil
  then show ?case by auto
next
  case (Cons opr ops)
  show ?case
  proof (cases opr)
    case (Post m)
    obtain ok s1 where s1: "post m s = Some (ok, s1)"
      "if ok then \<not> full s1 \<longrightarrow> rel s1 (q @ [m]) else rel s1 q" "i \<and> small m \<longrightarrow> ok"
      using post_law [OF Cons.prems(1), of m] Cons.prems(2,3) Post by auto
    show ?thesis
    proof (cases "ok \<and> full s1")
      case True
      with s1 Post show ?thesis by auto
    next
      case False
      obtain rs s2 where "run ops s1 = Some (rs, s2)"
        "fifo_trace small False (if ok then q @ [m] else q) ops rs" "length rs = length ops \<or> full s2"
        using Cons.IH [of s1 "if ok then q @ [m] else q" False] Cons.prems(2) s1(2) False
        by (auto split: if_splits)
      with s1 Post False show ?thesis by (cases ok) auto
    qed
  next
    case Fetch
    obtain s1 where s1: "fetch s = Some (case q of [] \<Rightarrow> None | m # _ \<Rightarrow> Some m, s1)" "rel s1 (tl q)"
      "q = [] \<longrightarrow> idle s1"
      using fetch_law [OF Cons.prems(1)] by blast
    obtain rs s2 where "run ops s1 = Some (rs, s2)" "fifo_trace small (q = []) (tl q) ops rs"
      "length rs = length ops \<or> full s2"
      using Cons.IH [OF s1(2) _ s1(3)] Cons.prems(2) by auto
    with s1(1) Fetch show ?thesis by auto
  qed
qed

end

definition channel_sendable :: "u8 list \<Rightarrow> bool" where
  "channel_sendable bs \<longleftrightarrow> bs \<noteq> [] \<and> length bs < 2 ^ 63"

interpretation chan: message_queue
  "channel_post S" "channel_fetch S closed" "\<lambda>hc. hc_tail hc = S" caught_up "chan_rel S" channel_sendable
  "small_message S"
  for S closed
proof unfold_locales
  show "\<exists>ok s'. channel_post S m s = Some (ok, s')
      \<and> (if ok then \<not> hc_tail s' = S \<longrightarrow> chan_rel S s' (q @ [m]) else chan_rel S s' q)
      \<and> (caught_up s \<and> small_message S m \<longrightarrow> ok)"
    if "chan_rel S s q" "channel_sendable m" for s q m
    using channel_post_rel [OF that(1), of m] that(2) by (simp add: channel_sendable_def)
  show "\<exists>s'. channel_fetch S closed s = Some (case q of [] \<Rightarrow> None | m # _ \<Rightarrow> Some m, s') \<and> chan_rel S s' (tl q)
      \<and> (q = [] \<longrightarrow> caught_up s')"
    if "chan_rel S s q" for s q
    by (rule channel_fetch_rel [OF that])
qed

text \<open>The same run, written over the channel's operations.\<close>

fun chan_run ::
    "nat \<Rightarrow> u8 list chan_op list \<Rightarrow> HalfChannel \<Rightarrow> (u8 list chan_res list \<times> HalfChannel) option" where
  "chan_run S [] hc = Some ([], hc)"
| "chan_run S (Post bs # ops) hc = do {
     (ok, hc) \<leftarrow> channel_post S bs hc;
     if ok \<and> hc_tail hc = S then Some ([Accepted], hc)
     else do { (rs, hc) \<leftarrow> chan_run S ops hc; Some ((if ok then Accepted else Refused) # rs, hc) }
   }"
| "chan_run S (Fetch # ops) hc = do {
     (r, hc) \<leftarrow> channel_fetch S False hc;
     (rs, hc) \<leftarrow> chan_run S ops hc;
     Some (Got r # rs, hc)
   }"

lemma chan_run_eq: "chan_run S ops hc = chan.run S False ops hc"
proof (induction ops arbitrary: hc)
  case (Cons opr ops)
  have "chan_run S ops = chan.run S False ops" by (rule ext) (rule Cons)
  then show ?case by (cases opr) (simp_all cong: if_cong)
qed simp

lemma fresh_channel_rel:
  assumes "size_ok S" "hc_shared hc = (\<lambda>_. 0)"
  shows "chan_rel S (half_setup S hc) []"
proof -
  have S: "64 dvd S" "128 \<le> S" using assms(1) by (simp_all add: size_ok_def)
  then have "ring_ok S (half_setup S hc) [] []"
    using assms(1) by (simp add: ring_ok_def half_setup_def wrap_def)
  moreover have "free_ok S (half_setup S hc) ([] @ [])"
    using assms(2) by (simp add: free_ok_def half_setup_def msg_ready_def)
  ultimately have "chan_inv S (half_setup S hc) [] []" by (simp add: chan_inv_def)
  then show ?thesis
    unfolding chan_rel_def by (intro exI [of _ "[]"]) (simp add: messages_def)
qed

section \<open>Properties\<close>

text \<open>C1. In every interleaving of sends and receives on a fresh channel, no operation goes wrong, and up to the
  first moment the buffer is exactly full the results are those of a first-in first-out queue: every receive
  returns, byte for byte, the oldest accepted message not yet received, and nothing exactly when there is
  none; and a message that takes at most half of the buffer is never refused by a channel that has just been
  found empty.\<close>

theorem channel_fifo:
  assumes "size_ok S" "hc_shared hc = (\<lambda>_. 0)" "\<forall>bs. Post bs \<in> set ops \<longrightarrow> channel_sendable bs"
  shows "\<exists>rs hc'. chan_run S ops (half_setup S hc) = Some (rs, hc')
     \<and> fifo_trace (small_message S) True [] ops rs \<and> (length rs = length ops \<or> hc_tail hc' = S)"
  using chan.run_fifo [OF fresh_channel_rel [OF assms(1,2)], of ops True False] assms(3)
  by (simp add: chan_run_eq caught_up_def half_setup_def)

lemmas channel_eval = channel_post_def channel_fetch_def channel_allocate_def channel_send_def
  channel_receive_def channel_poll_msg_def channel_free_def allocate_at_def place_def in_shared_def
  channel_message_size_def MESSAGE_def CACHELINE_SIZE_def header_defs get_u16_def put_u16_def SENTINEL_def
  CLOSED_def write_payload_def free_lines_eq half_setup_def size_sub_le numeral_3_eq_3

theorem channel_fifo_witness:
  "let hc = half_setup 256 \<lparr>hc_head = 0, hc_tail = 0, hc_next = 0, hc_shared = (\<lambda>_. 0)\<rparr>;
       ops = [Post [1, 2], Post [3], Fetch, Fetch, Fetch];
       rs = [Accepted, Accepted, Got (Some [1, 2]), Got (Some [3]), Got None]
   in (\<exists>hc'. chan_run 256 ops hc = Some (rs, hc')) \<and> fifo_trace (small_message 256) True [] ops rs"
proof -
  let ?hc = "\<lparr>hc_head = 0, hc_tail = 0, hc_next = 0, hc_shared = (\<lambda>_. 0)\<rparr>"
  let ?ops = "[Post [1, 2], Post [3], Fetch, Fetch, Fetch] :: u8 list chan_op list"
  let ?rs = "[Accepted, Accepted, Got (Some [1, 2]), Got (Some [3]), Got None]"
  have "\<exists>rs hc'. chan_run 256 ?ops (half_setup 256 ?hc) = Some (rs, hc')
      \<and> fifo_trace (small_message 256) True [] ?ops rs \<and> (length rs = length ?ops \<or> hc_tail hc' = 256)"
    by (rule channel_fifo) (auto simp: size_ok_def channel_sendable_def)
  moreover have "\<exists>hc'. chan_run 256 ?ops (half_setup 256 ?hc) = Some (?rs, hc')"
    by (simp add: channel_eval Let_def)
  ultimately show ?thesis by (auto simp: Let_def simp del: chan_run.simps fifo_trace.simps)
qed

text \<open>C12. As long as the buffer is not exactly full, an allocation never touches a live message: the blocks it
  collects have all been released by the receiver, the block it returns lies outside every other block, no
  byte of those changes, and the block holds the payload.  The call returns in every such state, and when every
  block has been received and released a payload whose block takes at most half of the buffer is granted.\<close>

theorem channel_allocate_safe:
  assumes "chan_inv S hc taken pend" "n < 2 ^ 63"
  shows "\<exists>r hc' dropped kept. channel_allocate S hc n = Some (r, hc') \<and> taken = dropped @ kept
     \<and> (\<forall>(p, a)\<in>set dropped. msg_ready (hc_shared hc) p = 0)
     \<and> (\<forall>(p, a)\<in>set (kept @ pend). \<forall>x. p \<le> x \<and> x < p + a \<longrightarrow> hc_shared hc' x = hc_shared hc x)
     \<and> (case r of
          None \<Rightarrow> channel_message_size S n = 0 \<or> S < 2 * channel_message_size S n \<or> pend \<noteq> []
            \<or> (\<exists>(p, a)\<in>set taken. msg_ready (hc_shared hc) p = 1)
        | Some d \<Rightarrow> 8 \<le> d \<and> d + n \<le> S
            \<and> (\<forall>(p, a)\<in>set (kept @ pend). d + n \<le> p \<or> p + a \<le> d - 8))"
proof -
  obtain r hc' dropped kept where al: "channel_allocate S hc n = Some (r, hc')" "taken = dropped @ kept"
    "alloc_outcome S n hc kept pend r hc'" and rl: "released (hc_shared hc) dropped"
    and rf: "refusal_ok S n hc taken pend r" using channel_allocate_inv [OF assms] by blast
  have "frame (kept @ pend) (hc_shared hc) (hc_shared hc')"
    using al(3) by (auto simp: alloc_outcome_def placed_def split: option.splits)
  moreover have "msg_ready (hc_shared hc) p = 0" if "(p, a) \<in> set dropped" for p a
    using rl that chan_invD(4) [OF assms(1), of "(p, a)"] ring_seg [OF chan_invD(1) [OF assms(1)], of p a] al(2)
    by (auto simp: released_def taken_ok_def lines_clear_def)
  moreover have "8 \<le> d \<and> d + n \<le> S \<and> (\<forall>(p, a)\<in>set (kept @ pend). d + n \<le> p \<or> p + a \<le> d - 8)"
    if rd: "r = Some d" for d
  proof -
    obtain st sent where st: "d = st + 8" "n + 8 \<le> channel_message_size S n"
      "placed S hc kept pend sent st (channel_message_size S n) hc'"
      using al(3) unfolding rd alloc_outcome_def by auto
    then have "st + channel_message_size S n \<le> p \<or> p + a \<le> st" if "(p, a) \<in> set (kept @ pend)" for p a
      using that by (auto simp: placed_def outside_def)
    with st show ?thesis by (fastforce simp: placed_def)
  qed
  moreover have "channel_message_size S n = 0 \<or> S < 2 * channel_message_size S n \<or> pend \<noteq> []
      \<or> (\<exists>(p, a)\<in>set taken. msg_ready (hc_shared hc) p = 1)" if "r = None"
    using rf that by (auto simp: refusal_ok_def released_def)
  ultimately show ?thesis
    using al(1,2) by (intro exI [of _ r] exI [of _ hc'] exI [of _ dropped] exI [of _ kept])
      (auto simp: frame_def split: option.splits)
qed

text \<open>A buffer with a released block at 64 and unread messages at 128 and 192: a payload of 100 bytes needs the
  collection and then fills the buffer.\<close>

definition chan_ex :: HalfChannel where
  "chan_ex = \<lparr>hc_head = 0, hc_tail = 63, hc_next = 128, hc_shared = (\<lambda>_. 0)
     (64 := 5, 66 := 64, 128 := 5, 130 := 64, 132 := 1, 192 := 5, 194 := 64, 196 := 1)\<rparr>"

lemma four_lines:
  fixes x :: nat
  assumes "64 dvd x" "x < 256"
  shows "x = 0 \<or> x = 64 \<or> x = 128 \<or> x = 192"
proof -
  obtain k where "x = 64 * k" using assms(1) by (rule dvdE)
  then have "k = 0 \<or> k = 1 \<or> k = 2 \<or> k = 3" using assms(2) by linarith
  with \<open>x = 64 * k\<close> show ?thesis by auto
qed

lemma chan_ex_inv: "chan_inv 256 chan_ex [(64, 64)] [(128, 64), (192, 64)]"
proof -
  have "free_ok 256 chan_ex ([(64, 64)] @ [(128, 64), (192, 64)])"
    unfolding free_ok_def
  proof (intro allI impI)
    fix x :: nat assume "x < 256"
      "64 dvd x \<and> total ([(64, 64)] @ [(128, 64), (192, 64)]) \<le> dist 256 (start_of 256 chan_ex) x"
    then show "msg_ready (hc_shared chan_ex) x = 0"
      using four_lines [of x] by (auto simp: chan_ex_def msg_ready_def dist_def)
  qed
  moreover have "lines_clear (hc_shared chan_ex) 64 (64 + 64)"
    unfolding lines_clear_def
  proof (intro allI impI)
    fix x :: nat assume "64 dvd x \<and> 64 \<le> x \<and> x < 64 + 64"
    then show "msg_ready (hc_shared chan_ex) x = 0"
      using four_lines [of x] by (auto simp: chan_ex_def msg_ready_def)
  qed
  ultimately show ?thesis
    by (simp add: chan_inv_def ring_ok_def size_ok_def seg_ok_def pend_ok_def taken_ok_def)
      (simp add: chan_ex_def header_defs get_u16_def SENTINEL_def wrap_def)
qed

theorem channel_allocate_safe_witness:
  "\<exists>r hc' dropped kept. channel_allocate 256 chan_ex 100 = Some (r, hc') \<and> [(64, 64)] = dropped @ kept
     \<and> (\<forall>(p, a)\<in>set (kept @ [(128, 64), (192, 64)]). \<forall>x. p \<le> x \<and> x < p + a
          \<longrightarrow> hc_shared hc' x = hc_shared chan_ex x)"
proof -
  have "(100 :: nat) < 2 ^ 63" by simp
  from channel_allocate_safe [OF chan_ex_inv this] show ?thesis by (elim exE conjE) (intro exI conjI)
qed

text \<open>C18. When the buffer is exactly full and the oldest message, at its start, has not been read, the next
  allocation of any message still succeeds and overwrites that message's header.\<close>

theorem channel_full_overwrites:
  assumes "size_ok S" "hc_tail hc = S" "hc_head hc = 0" "msg_ready (hc_shared hc) 0 = 1"
    and "n < 2 ^ 63" "channel_message_size S n \<noteq> 0"
  shows "\<exists>hc'. channel_allocate S hc n = Some (Some 8, hc') \<and> msg_size (hc_shared hc') 0 = 0
     \<and> msg_alloced (hc_shared hc') 0 = channel_message_size S n"
proof -
  let ?a = "channel_message_size S n"
  note ms = message_size [OF assms(1,5) refl assms(6)]
  have S: "128 \<le> S" "S \<le> 65536" using assms(1) by (simp_all add: size_ok_def)
  have w: "(0 :: nat) = wrap S (size_t (S + 1))" using S by (simp add: wrap_def)
  have gc: "channel_gc S hc = Some hc"
    using assms(2-4) S by (simp only: channel_gc_def Let_def, subst gc_loop_unfold [of 0])
      (simp_all add: wrap_def in_shared_def MESSAGE_def)
  have pl: "place S 0 S ?a = Some (0, False)" using ms S by (simp add: place_def)
  have "?a \<noteq> S + 1" "\<not> S \<le> ?a" using ms S by simp_all
  then have "channel_allocate S hc n = Some (Some 8, hc\<lparr>hc_head := ?a,
      hc_shared := set_msg_alloced 0 ?a (set_msg_ready 0 True (set_msg_size 0 0 (hc_shared hc)))\<rparr>)"
    using assms(2,3,6) gc pl S
    by (simp add: channel_allocate_def allocate_at_def Let_def in_shared_def MESSAGE_def)
  moreover have "?a < 65536" using ms S by simp
  ultimately show ?thesis using put_header(2,4) [of ?a 0 "hc_shared hc"] by simp
qed

theorem channel_full_overwrites_witness:
  "\<exists>hc'. channel_allocate 128
      \<lparr>hc_head = 0, hc_tail = 128, hc_next = 0, hc_shared = (\<lambda>_. 0)(0 := 56, 2 := 64, 4 := 1)\<rparr> 10
     = Some (Some 8, hc') \<and> msg_size (hc_shared hc') 0 = 0"
proof -
  have "channel_message_size 128 10 = 64"
    by (simp add: channel_message_size_def MESSAGE_def CACHELINE_SIZE_def)
  then show ?thesis
    using channel_full_overwrites [of 128 "\<lparr>hc_head = 0, hc_tail = 128, hc_next = 0,
      hc_shared = (\<lambda>_. 0)(0 := 56, 2 := 64, 4 := 1)\<rparr>" 10]
    by (auto simp: size_ok_def msg_ready_def)
qed

end
