(* ===== verification/Inet_Chksum.thy ===== *)
theory Inet_Chksum
  imports Faux_Prelude
begin

text \<open>
  The Internet checksum of the TCP/IP stack (\<open>lwip/src/core/ipv4/inet_chksum.c\<close>) and its byte order functions
  (\<open>inet.c\<close>), on a little-endian machine.  Data is the list of its bytes; a chain of \<^verbatim>\<open>pbuf\<close>s is the list of
  the payloads.  The three versions of \<^verbatim>\<open>lwip_standard_chksum\<close> compute the same sum, the checksum of a chain is
  the checksum of its bytes, and a packet with its checksum in place is accepted.
\<close>

unbundle bit_operations_syntax

section \<open>Byte order\<close>

definition htons :: "u16 \<Rightarrow> u16" where
  "htons n = push_bit 8 (n AND 0xff) OR drop_bit 8 (n AND 0xff00)"

definition ntohs :: "u16 \<Rightarrow> u16" where
  "ntohs n = htons n"

definition htonl :: "u32 \<Rightarrow> u32" where
  "htonl n = push_bit 24 (n AND 0xff) OR push_bit 8 (n AND 0xff00) OR drop_bit 8 (n AND 0xff0000) OR drop_bit 24 (n AND 0xff000000)"

definition ntohl :: "u32 \<Rightarrow> u32" where
  "ntohl n = htonl n"

text \<open>The reordering of the bytes of an accumulator, \<^verbatim>\<open>((acc & 0xff) << 8) | ((acc & 0xff00) >> 8)\<close>.\<close>

definition swap_acc :: "u32 \<Rightarrow> u32" where
  "swap_acc acc = push_bit 8 (acc AND 0xff) OR drop_bit 8 (acc AND 0xff00)"

section \<open>Values of words\<close>

lemma unat_and_ones:
  "unat (x AND 0xff :: 'a::len word) = unat x mod 256" "unat (x AND 0xffff :: 'a::len word) = unat x mod 65536"
proof -
  have "unat (x AND mask n) = unat x mod 2 ^ n" for n
    by (simp only: take_bit_eq_mask [symmetric] unsigned_take_bit_eq) (simp only: take_bit_eq_mod)
  from this [of 8] this [of 16] show "unat (x AND 0xff) = unat x mod 256" "unat (x AND 0xffff) = unat x mod 65536"
    by (simp_all add: mask_numeral)
qed

lemma unat_drop: "unat (drop_bit n x :: 'a::len word) = unat x div 2 ^ n"
  by (simp only: unat_drop_bit_eq) (simp only: drop_bit_eq_div)

lemma unat_add32: "unat x + unat y < 2 ^ 32 \<Longrightarrow> unat (x + y :: u32) = unat x + unat y"
  using unat_add_lem [of x y] by simp

lemma unat32_less: "unat (x :: u32) < 4294967296"
  using unsigned_less [of x] by simp

lemma unat16_less: "unat (x :: u16) < 65536"
  using unsigned_less [of x] by simp

lemma unat8_less: "unat (x :: u8) < 256"
  using unsigned_less [of x] by simp

lemma unat_fold_step: "unat ((acc AND 0xffff) + drop_bit 16 acc :: u32) = unat acc mod 65536 + unat acc div 65536"
proof -
  have "unat acc div 65536 < 65536" using unat32_less [of acc] by (simp add: less_mult_imp_div_less)
  then show ?thesis by (simp add: unat_add32 unat_and_ones unat_drop)
qed

lemma or_push8:
  fixes a b :: "'a::len word"
  assumes "unat b < 256"
  shows "push_bit 8 a OR b = push_bit 8 a + b"
proof -
  have "take_bit 8 b = b" using assms by (simp add: word_unat_eq_iff unsigned_take_bit_eq take_bit_nat_eq_self)
  then have "\<not> bit (push_bit 8 a) n \<or> \<not> bit b n" for n by (metis bit_push_bit_iff bit_take_bit_iff not_le)
  then show ?thesis by (simp add: disjunctive_add)
qed

lemma drop_and:
  "drop_bit 8 (x AND 0xff00) = drop_bit 8 x AND (0xff :: u16)" "drop_bit 8 (y AND 0xff00) = drop_bit 8 y AND (0xff :: u32)"
  by (simp_all only: drop_bit_and, simp_all)

section \<open>The three versions of \<^verbatim>\<open>lwip_standard_chksum\<close>\<close>

text \<open>\<^verbatim>\<open>while ((acc >> 16) != 0) acc = (acc & 0xffff) + (acc >> 16);\<close>\<close>

function fold16 :: "u32 \<Rightarrow> u32" where
  "fold16 acc = (if drop_bit 16 acc \<noteq> 0 then fold16 ((acc AND 0xffff) + drop_bit 16 acc) else acc)"
  by auto
termination
proof (relation "measure unat", goal_cases)
  case (2 acc)
  then have "0 < unat acc div 65536" by (simp add: unat_drop flip: unat_gt_0)
  then have "unat acc mod 65536 + unat acc div 65536 < unat acc"
    using div_mult_mod_eq [of "unat acc" 65536] by linarith
  then show ?case by (simp only: in_measure unat_fold_step)
qed simp

declare fold16.simps [simp del]

text \<open>Version 1: the bytes in pairs, the first as the more significant one.  \<open>len\<close> is the length of the list.\<close>

fun sum_network :: "u8 list \<Rightarrow> u32 \<Rightarrow> u32" where
  "sum_network (a # b # rest) acc = sum_network rest (acc + ucast (push_bit 8 (ucast a) OR ucast b :: u16))"
| "sum_network [a] acc = acc + ucast (push_bit 8 (ucast a) :: u16)"
| "sum_network [] acc = acc"

definition lwip_chksum1 :: "u8 list \<Rightarrow> u16" where
  "lwip_chksum1 bs =
     (let acc = sum_network bs 0;
          acc = drop_bit 16 acc + (acc AND 0xffff);
          acc = (if acc AND 0xffff0000 \<noteq> 0 then drop_bit 16 acc + (acc AND 0xffff) else acc)
      in htons (ucast acc))"

text \<open>A 16-bit and a 32-bit access to the bytes, and the assignment to a byte of the variable \<^verbatim>\<open>t\<close>.\<close>

definition half :: "u8 \<Rightarrow> u8 \<Rightarrow> u16" where
  "half a b = push_bit 8 (ucast b) OR ucast a"

definition long :: "u8 \<Rightarrow> u8 \<Rightarrow> u8 \<Rightarrow> u8 \<Rightarrow> u32" where
  "long a b c d = push_bit 8 (push_bit 8 (push_bit 8 (ucast d) OR ucast c) OR ucast b) OR ucast a"

definition set_low :: "u16 \<Rightarrow> u8 \<Rightarrow> u16" where
  "set_low t b = (t AND 0xff00) OR ucast b"

definition set_high :: "u16 \<Rightarrow> u8 \<Rightarrow> u16" where
  "set_high t b = push_bit 8 (ucast b) OR (t AND 0xff)"

text \<open>The loop over 16-bit words: the sum and the byte left over, if any.\<close>

fun sum_host :: "u8 list \<Rightarrow> u32 \<Rightarrow> u32 \<times> u8 list" where
  "sum_host (a # b # rest) acc = sum_host rest (acc + ucast (half a b))"
| "sum_host left acc = (acc, left)"

text \<open>Version 2, for data at the address \<open>addr\<close>.\<close>

definition lwip_chksum2 :: "nat \<Rightarrow> u8 list \<Rightarrow> u16" where
  "lwip_chksum2 addr bs =
     (let odd = (addr mod 2 = 1);
          (t, bs) = (case bs of b # rest \<Rightarrow> if odd then (set_high 0 b, rest) else (0, bs) | [] \<Rightarrow> (0, bs));
          (acc, left) = sum_host bs 0;
          t = (case left of b # _ \<Rightarrow> set_low t b | [] \<Rightarrow> t);
          acc = fold16 (acc + ucast t);
          acc = (if odd then swap_acc acc else acc)
      in ucast acc)"

text \<open>Version 3: addition with the carry added back, eight bytes at a time.\<close>

definition add_carry :: "u32 \<Rightarrow> u32 \<Rightarrow> u32" where
  "add_carry acc x = (let tmp = acc + x in if tmp < acc then tmp + 1 else tmp)"

fun sum_long :: "u8 list \<Rightarrow> u32 \<Rightarrow> u32 \<times> u8 list" where
  "sum_long (a # b # c # d # e # f # g # h # rest) acc = sum_long rest (add_carry (add_carry acc (long a b c d)) (long e f g h))"
| "sum_long left acc = (acc, left)"

definition lwip_chksum3 :: "nat \<Rightarrow> u8 list \<Rightarrow> u16" where
  "lwip_chksum3 addr bs =
     (let odd = (addr mod 2 = 1);
          (t, addr, bs) = (case bs of b # rest \<Rightarrow> if odd then (set_high 0 b, addr + 1, rest) else (0, addr, bs) | [] \<Rightarrow> (0, addr, bs));
          (acc, bs) = (case bs of a # b # rest \<Rightarrow> if addr mod 4 \<noteq> 0 then (0 + ucast (half a b), rest) else (0, bs) | _ \<Rightarrow> (0, bs));
          (acc, left) = sum_long bs acc;
          acc = drop_bit 16 acc + (acc AND 0xffff);
          (acc, left) = sum_host left acc;
          t = (case left of b # _ \<Rightarrow> set_low t b | [] \<Rightarrow> t);
          acc = fold16 (acc + ucast t);
          acc = (if odd then swap_acc acc else acc)
      in ucast acc)"

section \<open>Sums in one's complement arithmetic\<close>

text \<open>Two sums are the same when they are congruent modulo 65535 and are zero together: folding leaves the same word.\<close>

definition same_sum :: "nat \<Rightarrow> nat \<Rightarrow> bool" where
  "same_sum m n \<longleftrightarrow> m mod 65535 = n mod 65535 \<and> (m = 0 \<longleftrightarrow> n = 0)"

definition norm16 :: "nat \<Rightarrow> nat" where
  "norm16 n = (if n = 0 then 0 else if n mod 65535 = 0 then 65535 else n mod 65535)"

lemma same_sum_refl [simp]: "same_sum n n"
  by (simp add: same_sum_def)

lemma same_sum_sym: "same_sum m n \<Longrightarrow> same_sum n m"
  by (auto simp: same_sum_def)

lemma same_sum_trans [trans]: "same_sum k m \<Longrightarrow> same_sum m n \<Longrightarrow> same_sum k n"
  by (auto simp: same_sum_def)

lemma same_sum_add: "same_sum k k' \<Longrightarrow> same_sum m m' \<Longrightarrow> same_sum (k + m) (k' + m')"
  by (auto simp: same_sum_def intro: mod_add_cong)

lemma same_sum_mult: "same_sum m n \<Longrightarrow> same_sum (256 * m) (256 * n)"
  by (auto simp: same_sum_def intro: mod_mult_cong)

lemma same_sum_65536: "same_sum (65536 * n) n"
proof -
  have "65536 * n = n + 65535 * n" by simp
  then show ?thesis unfolding same_sum_def by (metis add_is_0 mod_mult_self2 mult_is_0 zero_neq_numeral)
qed

lemma same_sum_norm: "same_sum m n \<Longrightarrow> norm16 m = norm16 n"
  by (auto simp: same_sum_def norm16_def)

lemma norm16_same: "same_sum (norm16 n) n"
  by (simp add: same_sum_def norm16_def)

lemma norm16_less: "norm16 n < 65536"
proof -
  have "n mod 65535 < 65535" by simp
  then have "n mod 65535 < 65536" by linarith
  then show ?thesis by (simp add: norm16_def)
qed

lemma norm16_id: "n < 65536 \<Longrightarrow> norm16 n = n"
  by (cases "n = 65535") (auto simp: norm16_def)

lemma same_sum_fold: "same_sum (n mod 65536 + n div 65536) n"
proof -
  have "same_sum (n mod 65536 + n div 65536) (n mod 65536 + 65536 * (n div 65536))"
    by (intro same_sum_add same_sum_refl same_sum_sym [OF same_sum_65536])
  then show ?thesis by simp
qed

lemma unat_fold16: "unat (fold16 acc) = norm16 (unat acc)"
proof (induction acc rule: fold16.induct)
  case (1 acc)
  show ?case
  proof (cases "drop_bit 16 acc = 0")
    case True
    then have "unat acc div 65536 = 0" using unat_drop [of 16 acc] by simp
    then show ?thesis using True by (subst fold16.simps) (simp add: norm16_id div_eq_0_iff)
  next
    case False
    then have "unat (fold16 acc) = norm16 (unat acc mod 65536 + unat acc div 65536)"
      using 1 by (subst fold16.simps) (simp add: unat_fold_step)
    then show ?thesis using same_sum_norm [OF same_sum_fold] by simp
  qed
qed

lemma same_sum_swap:
  assumes "n < 65536"
  shows "same_sum (256 * (n mod 256) + n div 256) (256 * n)" "256 * (n mod 256) + n div 256 < 65536"
proof -
  have "same_sum (256 * (n mod 256) + n div 256) (256 * (n mod 256) + 65536 * (n div 256))"
    by (intro same_sum_add same_sum_refl same_sum_sym [OF same_sum_65536])
  also have "256 * (n mod 256) + 65536 * (n div 256) = 256 * n" using mult_div_mod_eq [of 256 n] by linarith
  finally show "same_sum (256 * (n mod 256) + n div 256) (256 * n)" .
  have "n div 256 < 256" using assms by (simp add: less_mult_imp_div_less)
  then show "256 * (n mod 256) + n div 256 < 65536" using mod_less_divisor [of 256 n] by linarith
qed

lemma unat_push_or:
  fixes a b :: "'a::len word"
  assumes "256 * unat a + 255 < 2 ^ LENGTH('a)" "unat b < 256"
  shows "unat (push_bit 8 a OR b) = 256 * unat a + unat b"
proof -
  have "256 * unat a < 2 ^ LENGTH('a)" using assms(1) by simp
  then have p: "unat (push_bit 8 a) = 256 * unat a"
    by (simp only: unsigned_push_bit_eq push_bit_nat_def mult.commute) (simp add: take_bit_nat_eq_self)
  have "unat (push_bit 8 a) + unat b < 2 ^ LENGTH('a)" using assms p by linarith
  then show ?thesis using or_push8 [OF assms(2), of a] unat_add_lem [of "push_bit 8 a" b] p by simp
qed

lemma unat_swap:
  "unat (htons x) = 256 * (unat x mod 256) + unat x div 256"
  "unat acc < 65536 \<Longrightarrow> unat (swap_acc acc) = 256 * (unat acc mod 256) + unat acc div 256"
proof -
  have m: "256 * (n mod 256) + 255 < (65536::nat)" for n :: nat using mod_less_divisor [of 256 n] by linarith
  have d: "n div 256 < 256" if "n < 65536" for n :: nat using that by (simp add: less_mult_imp_div_less)
  show "unat (htons x) = 256 * (unat x mod 256) + unat x div 256"
    unfolding htons_def drop_and using m [of "unat x"] d [OF unat16_less [of x]] by (subst unat_push_or) (simp_all add: unat_and_ones unat_drop)
  show "unat (swap_acc acc) = 256 * (unat acc mod 256) + unat acc div 256" if "unat acc < 65536"
    unfolding swap_acc_def drop_and using m [of "unat acc"] d [OF that] by (subst unat_push_or) (simp_all add: unat_and_ones unat_drop)
qed

section \<open>The versions agree\<close>

text \<open>The value of the bytes as digits to the base 256, the first the least significant: the sum of their little-endian
  16-bit words modulo 65535.\<close>

fun digits :: "u8 list \<Rightarrow> nat" where
  "digits [] = 0"
| "digits (b # bs) = unat b + 256 * digits bs"

lemma three_bytes: "x < 256 \<Longrightarrow> y < 256 \<Longrightarrow> z < 256 \<Longrightarrow> 256 * (256 * x + y) + z < (16777216 :: nat)"
  by (simp add: add_mult_distrib2)

lemma fold_once: "n < 98303 \<Longrightarrow> n mod 65536 + n div 65536 < (65536 :: nat)"
  by (cases "n < 65536") (simp_all add: le_mod_geq le_div_geq)

lemma unat_halves:
  "unat (push_bit 8 (ucast a) OR ucast b :: u16) = 256 * unat a + unat b" "unat (push_bit 8 (ucast a) :: u16) = 256 * unat a"
  "unat (half a b) = unat a + 256 * unat b" "unat (long a b c d) = unat a + 256 * unat b + 65536 * unat c + 16777216 * unat d"
proof -
  have u: "unat (ucast x :: u16) = unat x" "unat (ucast x :: u32) = unat x" "unat x < 256" for x :: u8
    using unat8_less [of x] by (simp_all add: unsigned_ucast_eq take_bit_nat_eq_self)
  have h: "unat (push_bit 8 (ucast x) OR ucast y :: u16) = 256 * unat x + unat y" for x y :: u8
    using unat_push_or [of "ucast x :: u16" "ucast y"] u(3) [of x] u(3) [of y] by (simp add: u)
  from h show "unat (push_bit 8 (ucast a) OR ucast b :: u16) = 256 * unat a + unat b" .
  from h show "unat (half a b) = unat a + 256 * unat b" by (simp add: half_def)
  from h [of a 0] show "unat (push_bit 8 (ucast a) :: u16) = 256 * unat a" by simp
  have step: "unat (push_bit 8 y OR ucast x :: u32) = 256 * unat y + unat x" if "unat y < 16777216" for x :: u8 and y :: u32
    using unat_push_or [of y "ucast x"] that u(3) [of x] by (simp only: u) simp
  have cd: "unat (push_bit 8 (ucast d) OR ucast c :: u32) = 256 * unat d + unat c"
    using step [of "ucast d" c] unat8_less [of d] unfolding u(1,2) by linarith
  have bcd: "unat (push_bit 8 (push_bit 8 (ucast d) OR ucast c) OR ucast b :: u32) = 256 * (256 * unat d + unat c) + unat b"
    using step [of "push_bit 8 (ucast d) OR ucast c" b] unat8_less [of c] unat8_less [of d] unfolding cd by linarith
  have "unat (push_bit 8 (push_bit 8 (ucast d) OR ucast c) OR ucast b :: u32) < 16777216"
    unfolding bcd by (intro three_bytes unat8_less)
  from step [OF this, of a] have "unat (long a b c d) = 256 * (256 * (256 * unat d + unat c) + unat b) + unat a"
    unfolding long_def bcd .
  then show "unat (long a b c d) = unat a + 256 * unat b + 65536 * unat c + 16777216 * unat d" by simp
qed

lemma digits_append: "digits (xs @ ys) = digits xs + 256 ^ length xs * digits ys"
  by (induction xs) (simp_all add: algebra_simps)

fun pairs_sum :: "u8 list \<Rightarrow> nat" where
  "pairs_sum (a # b # rest) = 256 * unat a + unat b + pairs_sum rest"
| "pairs_sum [a] = 256 * unat a"
| "pairs_sum [] = 0"

lemma pairs_sum_digits: "same_sum (pairs_sum bs) (256 * digits bs)"
proof (induction bs rule: pairs_sum.induct)
  case (1 a b rest)
  have "same_sum (pairs_sum (a # b # rest)) (256 * unat a + 65536 * unat b + 65536 * (256 * digits rest))"
    unfolding pairs_sum.simps
    by (intro same_sum_add same_sum_refl same_sum_trans [OF 1] same_sum_sym [OF same_sum_65536])
  then show ?case by (simp add: algebra_simps)
qed simp_all

lemma pairs_sum_le: "pairs_sum bs \<le> 65535 * ((length bs + 1) div 2)"
proof (induction bs rule: pairs_sum.induct)
  case (1 a b rest)
  then show ?case using unat8_less [of a] unat8_less [of b] by simp
next
  case (2 a)
  then show ?case using unat8_less [of a] by simp
qed simp

lemma unat_sum_network:
  "unat acc + pairs_sum bs < 2 ^ 32 \<Longrightarrow> unat (sum_network bs acc) = unat acc + pairs_sum bs"
proof (induction bs acc rule: sum_network.induct)
  case (1 a b rest acc)
  then have "unat (acc + ucast (push_bit 8 (ucast a) OR ucast b :: u16)) = unat acc + (256 * unat a + unat b)"
    by (subst unat_add32) (simp_all add: unsigned_ucast_eq take_bit_nat_eq_self unat_halves)
  then show ?case using 1 by simp
next
  case (2 a acc)
  then show ?case by (subst sum_network.simps, subst unat_add32) (simp_all add: unsigned_ucast_eq take_bit_nat_eq_self unat_halves)
qed simp

text \<open>Every version computes the digits' sum, folded.\<close>

lemma norm16_eqI: "unat x < 65536 \<Longrightarrow> same_sum (unat x) n \<Longrightarrow> unat x = norm16 n"
  using same_sum_norm norm16_id by metis

lemma high_zero:
  assumes "x AND 0xffff0000 = (0 :: u32)"
  shows "unat x < 65536"
proof -
  have "drop_bit 16 x AND 0xffff = drop_bit 16 (x AND 0xffff0000)" by (simp only: drop_bit_and) simp
  then have "unat (drop_bit 16 x AND 0xffff) = 0" using assms by simp
  moreover have "unat x div 65536 < 65536" using unat32_less [of x] by (simp add: less_mult_imp_div_less)
  ultimately show ?thesis by (simp add: unat_and_ones unat_drop div_eq_0_iff)
qed

lemma lwip_chksum1_digits:
  assumes "length bs < 65536"
  shows "unat (lwip_chksum1 bs) = norm16 (digits bs)"
proof -
  define acc where "acc = sum_network bs 0"
  have "(length bs + 1) div 2 \<le> 32768" using assms by simp
  then have "pairs_sum bs \<le> 65535 * 32768" using pairs_sum_le [of bs] by linarith
  then have acc: "unat acc = pairs_sum bs" "unat acc \<le> 65535 * 32768"
    using unat_sum_network [of 0 bs] by (simp_all add: acc_def)
  define acc1 where "acc1 = (acc AND 0xffff) + drop_bit 16 acc"
  have acc1: "unat acc1 = unat acc mod 65536 + unat acc div 65536" by (simp only: acc1_def unat_fold_step)
  have "unat acc div 65536 \<le> 32767" using acc(2) by simp
  then have le1: "unat acc1 < 65536 + 32767" using acc1 mod_less_divisor [of 65536 "unat acc"] by linarith
  define acc2 where "acc2 = (if acc1 AND 0xffff0000 \<noteq> 0 then (acc1 AND 0xffff) + drop_bit 16 acc1 else acc1)"
  have "unat acc2 < 65536 \<and> same_sum (unat acc2) (unat acc1)"
  proof (cases "acc1 AND 0xffff0000 = 0")
    case True
    then show ?thesis using high_zero by (simp add: acc2_def)
  next
    case False
    then have "acc2 = (acc1 AND 0xffff) + drop_bit 16 acc1" by (simp add: acc2_def)
    then have "unat acc2 = unat acc1 mod 65536 + unat acc1 div 65536" by (simp only: unat_fold_step)
    moreover have "unat acc1 mod 65536 + unat acc1 div 65536 < 65536" using le1 by (intro fold_once) simp
    ultimately show ?thesis using same_sum_fold by simp
  qed
  moreover have "same_sum (unat acc1) (256 * digits bs)"
    unfolding acc1 acc(1) by (rule same_sum_trans [OF same_sum_fold pairs_sum_digits])
  ultimately have acc2: "unat acc2 < 65536" "same_sum (unat acc2) (256 * digits bs)" using same_sum_trans by blast+
  have "lwip_chksum1 bs = htons (ucast acc2)"
    by (simp add: lwip_chksum1_def acc_def [symmetric] acc1_def acc2_def Let_def add.commute)
  moreover have "unat (ucast acc2 :: u16) = unat acc2" using acc2(1) by (simp add: unsigned_ucast_eq take_bit_nat_eq_self)
  ultimately have res: "unat (lwip_chksum1 bs) = 256 * (unat acc2 mod 256) + unat acc2 div 256" by (simp add: unat_swap)
  have "same_sum (unat (lwip_chksum1 bs)) (256 * unat acc2)" unfolding res by (rule same_sum_swap [OF acc2(1)])
  also have "same_sum (256 * unat acc2) (256 * (256 * digits bs))" by (rule same_sum_mult [OF acc2(2)])
  also have "256 * (256 * digits bs) = 65536 * digits bs" by simp
  also have "same_sum \<dots> (digits bs)" by (rule same_sum_65536)
  finally show ?thesis using unat16_less by (intro norm16_eqI)
qed

lemma unat_ucast32: "unat (ucast (x :: u16) :: u32) = unat x"
  using unat16_less [of x] by (simp add: unsigned_ucast_eq take_bit_nat_eq_self)

lemma sum_host_digits:
  assumes "unat acc + 65535 * (length bs div 2) < 2 ^ 32"
  obtains acc' left where "sum_host bs acc = (acc', left)" "length left \<le> 1" "unat acc' \<le> unat acc + 65535 * (length bs div 2)"
    "same_sum (unat acc' + digits left) (unat acc + digits bs)"
  using assms
proof (induction bs acc arbitrary: thesis rule: sum_host.induct)
  case (1 a b rest acc)
  have h: "unat (half a b) \<le> 65535" "unat (half a b) = unat a + 256 * unat b"
    using unat16_less [of "half a b"] by (simp_all add: unat_halves)
  have acc: "unat (acc + ucast (half a b)) = unat acc + unat (half a b)"
    using 1(3) h(1) by (subst unat_add32) (simp_all add: unat_ucast32)
  then have "unat (acc + ucast (half a b)) + 65535 * (length rest div 2) < 2 ^ 32" using 1(3) h(1) by simp
  then obtain acc' left where r: "sum_host rest (acc + ucast (half a b)) = (acc', left)" "length left \<le> 1"
    "unat acc' \<le> unat (acc + ucast (half a b)) + 65535 * (length rest div 2)"
    "same_sum (unat acc' + digits left) (unat (acc + ucast (half a b)) + digits rest)"
    using 1(1) by blast
  have "same_sum (unat acc + unat (half a b) + digits rest) (unat acc + unat (half a b) + 65536 * digits rest)"
    by (intro same_sum_add same_sum_refl same_sum_sym [OF same_sum_65536])
  then have "same_sum (unat acc' + digits left) (unat acc + digits (a # b # rest))"
    using same_sum_trans [OF r(4)] by (simp add: acc h(2) algebra_simps)
  moreover have "unat acc' \<le> unat acc + 65535 * (length (a # b # rest) div 2)" using r(3) acc h(1) by simp
  ultimately show thesis using r(1,2) by (intro 1(2)) simp_all
qed auto

lemma set_low_value:
  assumes "unat t mod 256 = 0"
  shows "unat (set_low t b) = unat t + unat b"
proof -
  have "(0xff00 :: u16) = NOT (mask 8)" by (simp add: mask_eq_exp_minus_1)
  moreover have "t AND NOT (mask 8) = push_bit 8 (drop_bit 8 t)" by (rule bit_word_eqI) (auto simp: bit_simps)
  ultimately have "t AND 0xff00 = push_bit 8 (drop_bit 8 t)" by (simp only:)
  then have "set_low t b = push_bit 8 (drop_bit 8 t) OR ucast b" by (simp only: set_low_def)
  moreover have u: "unat (ucast b :: u16) = unat b" using unat8_less [of b] by (simp add: unsigned_ucast_eq take_bit_nat_eq_self)
  moreover have "256 * unat (drop_bit 8 t) = unat t" using assms div_mult_mod_eq [of "unat t" 256] by (simp only: unat_drop) simp
  moreover have "unat t < 65281" using unat16_less [of t] assms by presburger
  ultimately show ?thesis
    using unat_push_or [of "drop_bit 8 t" "ucast b"] unat8_less [of b] assms by (simp only:) simp
qed

lemma set_high_value: "unat (set_high 0 b) = 256 * unat b"
  by (simp add: set_high_def unat_halves)

text \<open>The end of versions 2 and 3: the byte left over, the fold and the reordering for an odd address.\<close>

lemma finish_digits:
  assumes "length left \<le> 1" "unat acc \<le> 2 ^ 32 - 65536" "unat t mod 256 = 0"
  defines "t' \<equiv> (case left of b # _ \<Rightarrow> set_low t b | [] \<Rightarrow> t)"
  shows "unat (fold16 (acc + ucast t')) = norm16 (unat acc + unat t + digits left)"
    "unat (ucast (fold16 (acc + ucast t')) :: u16) = norm16 (unat acc + unat t + digits left)"
    "unat (ucast (swap_acc (fold16 (acc + ucast t'))) :: u16) = norm16 (256 * (unat acc + unat t + digits left))"
proof -
  have t': "unat t' = unat t + digits left" using assms(1,3) set_low_value by (cases left) (auto simp: t'_def)
  have "unat (acc + ucast t') = unat acc + unat t'"
    using assms(2) unat16_less [of t'] by (subst unat_add32) (simp_all add: unat_ucast32)
  then show f: "unat (fold16 (acc + ucast t')) = norm16 (unat acc + unat t + digits left)"
    by (simp add: unat_fold16 t' add.assoc)
  then show "unat (ucast (fold16 (acc + ucast t')) :: u16) = norm16 (unat acc + unat t + digits left)"
    using norm16_less by (simp add: unsigned_ucast_eq take_bit_nat_eq_self)
  define n where "n = norm16 (unat acc + unat t + digits left)"
  have n: "n < 65536" by (simp add: n_def norm16_less)
  have s: "unat (swap_acc (fold16 (acc + ucast t'))) = 256 * (n mod 256) + n div 256" using f n by (simp add: unat_swap n_def)
  have "same_sum (256 * (n mod 256) + n div 256) (256 * (unat acc + unat t + digits left))"
    using same_sum_trans [OF same_sum_swap(1) [OF n] same_sum_mult [OF norm16_same [of "unat acc + unat t + digits left", folded n_def]]] .
  then have "256 * (n mod 256) + n div 256 = norm16 (256 * (unat acc + unat t + digits left))"
    using same_sum_norm norm16_id [OF same_sum_swap(2) [OF n]] by metis
  then show "unat (ucast (swap_acc (fold16 (acc + ucast t'))) :: u16) = norm16 (256 * (unat acc + unat t + digits left))"
    using s same_sum_swap(2) [OF n] by (simp add: unsigned_ucast_eq take_bit_nat_eq_self)
qed

lemma digits_Cons_same: "same_sum (256 * (256 * unat b + digits bs)) (digits (b # bs))"
proof -
  have "256 * (256 * unat b + digits bs) = 65536 * unat b + 256 * digits bs" by simp
  also have "same_sum \<dots> (unat b + 256 * digits bs)" by (intro same_sum_add same_sum_65536 same_sum_refl)
  finally show ?thesis by simp
qed

text \<open>The bytes from an even address on, after the byte at an odd address, if there is one.\<close>

lemma finish_version:
  assumes "case bs of b # rest \<Rightarrow> if at_odd then t = set_high 0 b \<and> bs' = rest else t = 0 \<and> bs' = bs | [] \<Rightarrow> t = 0 \<and> bs' = []"
    and "length left \<le> 1" "unat acc \<le> 2 ^ 32 - 65536" "same_sum (unat acc + digits left) (digits bs')"
  defines "r \<equiv> fold16 (acc + ucast (case left of b # _ \<Rightarrow> set_low t b | [] \<Rightarrow> t))"
  shows "unat (ucast (if at_odd then swap_acc r else r) :: u16) = norm16 (digits bs)"
proof -
  have t: "unat t mod 256 = 0" using assms(1) by (auto simp: set_high_value split: list.splits if_splits)
  note f = finish_digits [OF assms(2,3) t, folded r_def]
  have s: "same_sum (unat acc + unat t + digits left) (unat t + digits bs')"
    using same_sum_add [OF same_sum_refl [of "unat t"] assms(4)] by (simp add: ac_simps)
  show ?thesis
  proof (cases at_odd)
    case True
    have "same_sum (256 * (unat acc + unat t + digits left)) (256 * (unat t + digits bs'))" by (rule same_sum_mult [OF s])
    also have "same_sum (256 * (unat t + digits bs')) (digits bs)"
      using assms(1) True digits_Cons_same by (auto simp: set_high_value split: list.splits)
    finally show ?thesis using True f(3) same_sum_norm by simp
  next
    case False
    then have "unat t + digits bs' = digits bs" using assms(1) by (auto split: list.splits)
    then show ?thesis using False f(2) s same_sum_norm by simp
  qed
qed

lemma lwip_chksum2_digits:
  assumes "length bs \<le> 0x20000"
  shows "unat (lwip_chksum2 addr bs) = norm16 (digits bs)"
proof -
  define at_odd where "at_odd = (addr mod 2 = 1)"
  obtain t bs' where tb: "(case bs of b # rest \<Rightarrow> if at_odd then (set_high 0 b, rest) else (0, bs) | [] \<Rightarrow> (0, bs)) = (t, bs')"
    by (rule prod.exhaust)
  have len: "length bs' \<le> 0x20000" using tb assms by (auto split: list.splits if_splits)
  then have "unat (0 :: u32) + 65535 * (length bs' div 2) < 2 ^ 32" by simp
  then obtain acc left where r: "sum_host bs' 0 = (acc, left)" "length left \<le> 1" "unat acc \<le> unat (0 :: u32) + 65535 * (length bs' div 2)"
    "same_sum (unat acc + digits left) (unat (0 :: u32) + digits bs')"
    by (rule sum_host_digits)
  have le: "unat acc \<le> 2 ^ 32 - 65536" using r(3) len by simp
  have case_bs: "case bs of b # rest \<Rightarrow> if at_odd then t = set_high 0 b \<and> bs' = rest else t = 0 \<and> bs' = bs | [] \<Rightarrow> t = 0 \<and> bs' = []"
    using tb by (auto split: list.splits if_splits)
  have "lwip_chksum2 addr bs = ucast (let r = fold16 (acc + ucast (case left of b # _ \<Rightarrow> set_low t b | [] \<Rightarrow> t)) in if at_odd then swap_acc r else r)"
    unfolding lwip_chksum2_def at_odd_def [symmetric] Let_def tb prod.case r(1) ..
  then show ?thesis using finish_version [OF case_bs r(2) le] r(4) by (simp add: Let_def)
qed

lemma add_carry_value: "same_sum (unat (add_carry s x)) (unat s + unat x)"
proof (cases "unat s + unat x < 2 ^ 32")
  case True
  then have "unat (s + x) = unat s + unat x" by (rule unat_add32)
  moreover from this have "\<not> s + x < s" by (simp add: word_less_nat_alt)
  ultimately show ?thesis by (simp add: add_carry_def Let_def)
next
  case False
  define n where "n = unat s + unat x - 2 ^ 32"
  have n: "unat s + unat x = n + 4294967296" "n + 1 < 4294967296" "n < unat s"
    using False unat32_less [of s] unat32_less [of x] by (simp_all add: n_def)
  have m: "unat (s + x) = n" using n by (simp add: unat_word_ariths(1))
  then have "s + x < s" using n(3) by (simp add: word_less_nat_alt)
  moreover have "unat (s + x + 1) = n + 1" using m n(2) by (subst unat_add32) simp_all
  ultimately have "unat (add_carry s x) = n + 1" by (simp add: add_carry_def Let_def)
  moreover have "same_sum (n + 1) (n + 4294967296)"
  proof -
    have "n + 4294967296 = (n + 1) + 65535 * 65537" by simp
    then show ?thesis unfolding same_sum_def by (metis add_eq_0_iff_both_eq_0 mod_mult_self2 zero_neq_one)
  qed
  ultimately show ?thesis by (simp add: n(1))
qed

lemma same_sum_chunk: "length xs mod 2 = 0 \<Longrightarrow> same_sum (digits xs + digits ys) (digits (xs @ ys))"
proof (induction xs rule: pairs_sum.induct)
  case (1 a b rest)
  then have "same_sum (unat a + 256 * unat b + 65536 * (digits rest + digits ys)) (unat a + 256 * unat b + 65536 * digits (rest @ ys))"
    by (intro same_sum_add same_sum_refl same_sum_trans [OF same_sum_65536 same_sum_trans [OF _ same_sum_sym [OF same_sum_65536]]]) simp
  moreover have "same_sum (unat a + 256 * unat b + (65536 * digits rest + digits ys)) (unat a + 256 * unat b + (65536 * digits rest + 65536 * digits ys))"
    by (intro same_sum_add same_sum_refl same_sum_sym [OF same_sum_65536])
  ultimately show ?case using same_sum_trans by (simp add: algebra_simps)
qed simp_all

lemma sum_long_digits:
  obtains acc' left where "sum_long bs acc = (acc', left)" "length left \<le> 7" "same_sum (unat acc' + digits left) (unat acc + digits bs)"
proof (induction bs acc arbitrary: thesis rule: sum_long.induct)
  case (1 a b c d e f g h rest acc)
  let ?acc = "add_carry (add_carry acc (long a b c d)) (long e f g h)"
  obtain acc' left where r: "sum_long rest ?acc = (acc', left)" "length left \<le> 7" "same_sum (unat acc' + digits left) (unat ?acc + digits rest)"
    using 1(1) by blast
  have w: "same_sum (unat (long p q r s)) (digits [p, q, r, s])" for p q r s by (simp add: unat_halves add.assoc)
  have "same_sum (unat ?acc) (unat acc + digits [a, b, c, d] + digits [e, f, g, h])"
    by (intro same_sum_trans [OF add_carry_value] same_sum_add same_sum_refl w)
  then have "same_sum (unat ?acc + digits rest) (unat acc + digits [a, b, c, d] + digits [e, f, g, h] + digits rest)"
    by (intro same_sum_add same_sum_refl)
  also have "\<dots> = unat acc + (digits [a, b, c, d] + (digits [e, f, g, h] + digits rest))" by (simp only: add.assoc)
  also have "same_sum \<dots> (unat acc + digits ([a, b, c, d] @ [e, f, g, h] @ rest))"
    by (intro same_sum_add same_sum_refl same_sum_trans [OF _ same_sum_chunk]) simp_all
  finally have "same_sum (unat ?acc + digits rest) (unat acc + digits (a # b # c # d # e # f # g # h # rest))"
    by (simp only: append_Cons append_Nil)
  then have "same_sum (unat acc' + digits left) (unat acc + digits (a # b # c # d # e # f # g # h # rest))"
    by (rule same_sum_trans [OF r(3)])
  then show thesis using 1(2) [of acc' left] r(1,2) by simp
qed auto

lemma lwip_chksum3_digits: "unat (lwip_chksum3 addr bs) = norm16 (digits bs)"
proof -
  define at_odd where "at_odd = (addr mod 2 = 1)"
  obtain t addr' bs1 where tb: "(case bs of b # rest \<Rightarrow> if at_odd then (set_high 0 b, addr + 1, rest) else (0, addr, bs) | [] \<Rightarrow> (0, addr, bs)) = (t, addr', bs1)"
    by (rule prod_cases3)
  obtain acc1 bs2 where a1: "(case bs1 of a # b # rest \<Rightarrow> if addr' mod 4 \<noteq> 0 then (0 + ucast (half a b), rest) else (0, bs1) | _ \<Rightarrow> (0, bs1)) = (acc1 :: u32, bs2)"
    by (rule prod.exhaust)
  obtain acc2 left2 where a2: "sum_long bs2 acc1 = (acc2, left2)" "length left2 \<le> 7"
    "same_sum (unat acc2 + digits left2) (unat acc1 + digits bs2)" by (rule sum_long_digits)
  define acc3 where "acc3 = (acc2 AND 0xffff) + drop_bit 16 acc2"
  have acc3: "unat acc3 = unat acc2 mod 65536 + unat acc2 div 65536" unfolding acc3_def by (rule unat_fold_step)
  have "unat acc2 div 65536 < 65536" using unat32_less [of acc2] by (simp add: less_mult_imp_div_less)
  then have le3: "unat acc3 < 131072" using acc3 mod_less_divisor [of 65536 "unat acc2"] by linarith
  have "length left2 div 2 \<le> 3" using a2(2) by linarith
  then have "unat acc3 + 65535 * (length left2 div 2) < 2 ^ 32" using le3 by simp
  then obtain acc4 left where a4: "sum_host left2 acc3 = (acc4, left)" "length left \<le> 1" "unat acc4 \<le> unat acc3 + 65535 * (length left2 div 2)"
    "same_sum (unat acc4 + digits left) (unat acc3 + digits left2)"
    by (rule sum_host_digits)
  have le: "unat acc4 \<le> 2 ^ 32 - 65536" using a4(3) le3 \<open>length left2 div 2 \<le> 3\<close> by simp
  have "same_sum (unat acc3 + digits left2) (unat acc2 + digits left2)"
    unfolding acc3 by (intro same_sum_add same_sum_refl same_sum_fold)
  moreover have "same_sum (unat acc1 + digits bs2) (digits bs1)"
  proof -
    have "same_sum (unat (ucast (half a b) :: u32) + digits rest) (digits ([a, b] @ rest))" for a b rest
      using same_sum_chunk [of "[a, b]" rest] by (simp add: unat_ucast32 unat_halves)
    then show ?thesis using a1 by (auto split: list.splits if_splits)
  qed
  ultimately have s: "same_sum (unat acc4 + digits left) (digits bs1)" using a4(4) a2(3) same_sum_trans by blast
  have case_bs: "case bs of b # rest \<Rightarrow> if at_odd then t = set_high 0 b \<and> bs1 = rest else t = 0 \<and> bs1 = bs | [] \<Rightarrow> t = 0 \<and> bs1 = []"
    using tb by (auto split: list.splits if_splits)
  have "lwip_chksum3 addr bs = ucast (let r = fold16 (acc4 + ucast (case left of b # _ \<Rightarrow> set_low t b | [] \<Rightarrow> t)) in if at_odd then swap_acc r else r)"
    unfolding lwip_chksum3_def at_odd_def [symmetric] Let_def tb prod.case a1 a2(1) add.commute [of "drop_bit 16 acc2"] acc3_def [symmetric] a4(1) ..
  then show ?thesis using finish_version [OF case_bs a4(2) le s] by (simp add: Let_def)
qed

section \<open>Checksums of packets\<close>

text \<open>The sum that is in use: \<^verbatim>\<open>LWIP_CHKSUM_ALGORITHM\<close> is 1.\<close>

abbreviation LWIP_CHKSUM :: "u8 list \<Rightarrow> u16" where
  "LWIP_CHKSUM \<equiv> lwip_chksum1"

definition inet_chksum :: "u8 list \<Rightarrow> u16" where
  "inet_chksum bs = ucast (NOT (fold16 (ucast (LWIP_CHKSUM bs)) AND 0xffff))"

text \<open>The loop of \<^verbatim>\<open>inet_chksum_pseudo\<close> over the chain, with \<^verbatim>\<open>acc\<close> and \<^verbatim>\<open>swapped\<close>.\<close>

fun sum_chain :: "u8 list list \<Rightarrow> u32 \<times> bool \<Rightarrow> u32 \<times> bool" where
  "sum_chain [] (acc, swapped) = (acc, swapped)"
| "sum_chain (q # rest) (acc, swapped) =
     (let acc = fold16 (acc + ucast (LWIP_CHKSUM q))
      in sum_chain rest (if length q mod 2 \<noteq> 0 then (swap_acc acc, \<not> swapped) else (acc, swapped)))"

text \<open>The pseudo header: the addresses, in network byte order, the protocol and the length.\<close>

definition sum_pseudo :: "u32 \<Rightarrow> u32 \<Rightarrow> u8 \<Rightarrow> u16 \<Rightarrow> u32 \<Rightarrow> u32" where
  "sum_pseudo src dest proto proto_len acc =
     (let acc = acc + (src AND 0xffff);
          acc = acc + (drop_bit 16 src AND 0xffff);
          acc = acc + (dest AND 0xffff);
          acc = acc + (drop_bit 16 dest AND 0xffff);
          acc = acc + ucast (htons (ucast proto));
          acc = acc + ucast (htons proto_len)
      in fold16 acc)"

definition inet_chksum_pseudo :: "u8 list list \<Rightarrow> u32 \<Rightarrow> u32 \<Rightarrow> u8 \<Rightarrow> u16 \<Rightarrow> u16" where
  "inet_chksum_pseudo p src dest proto proto_len =
     (let (acc, swapped) = sum_chain p (0, False);
          acc = (if swapped then swap_acc acc else acc)
      in ucast (NOT (sum_pseudo src dest proto proto_len acc AND 0xffff)))"

text \<open>The variant for the first \<^verbatim>\<open>chksum_len\<close> bytes of the chain; \<open>None\<close> is its failed assertion.\<close>

fun sum_chain_partial :: "u8 list list \<Rightarrow> nat \<Rightarrow> u32 \<times> bool \<Rightarrow> (u32 \<times> bool) option" where
  "sum_chain_partial [] chksum_len (acc, swapped) = Some (acc, swapped)"
| "sum_chain_partial (q # rest) chksum_len (acc, swapped) =
     (if chksum_len = 0 then Some (acc, swapped)
      else let chklen = (if length q > chksum_len then chksum_len else length q);
               acc = acc + ucast (LWIP_CHKSUM (take chklen q));
               chksum_len = chksum_len - chklen
      in if \<not> chksum_len < 0x7fff then None
         else let acc = fold16 acc
         in sum_chain_partial rest chksum_len (if length q mod 2 \<noteq> 0 then (swap_acc acc, \<not> swapped) else (acc, swapped)))"

definition inet_chksum_pseudo_partial :: "u8 list list \<Rightarrow> u32 \<Rightarrow> u32 \<Rightarrow> u8 \<Rightarrow> u16 \<Rightarrow> nat \<Rightarrow> u16 option" where
  "inet_chksum_pseudo_partial p src dest proto proto_len chksum_len =
     map_option (\<lambda>(acc, swapped).
       let acc = (if swapped then swap_acc acc else acc)
       in ucast (NOT (sum_pseudo src dest proto proto_len acc AND 0xffff))) (sum_chain_partial p chksum_len (0, False))"

text \<open>\<^verbatim>\<open>inet_chksum_pbuf\<close>.  In \<^verbatim>\<open>acc & 0x00ffUL << 8\<close> the shift binds more tightly than the conjunction.\<close>

fun sum_pbuf :: "u8 list list \<Rightarrow> u32 \<times> bool \<Rightarrow> u32 \<times> bool" where
  "sum_pbuf [] (acc, swapped) = (acc, swapped)"
| "sum_pbuf (q # rest) (acc, swapped) =
     (let acc = fold16 (acc + ucast (LWIP_CHKSUM q))
      in sum_pbuf rest (if length q mod 2 \<noteq> 0
           then ((acc AND push_bit 8 0x00ff) OR (acc AND drop_bit 8 0xff00), \<not> swapped) else (acc, swapped)))"

definition inet_chksum_pbuf :: "u8 list list \<Rightarrow> u16" where
  "inet_chksum_pbuf p =
     (let (acc, swapped) = sum_pbuf p (0, False);
          acc = (if swapped then swap_acc acc else acc)
      in ucast (NOT (acc AND 0xffff)))"

lemma unat_swap_norm: "unat acc = norm16 n \<Longrightarrow> unat (swap_acc acc) = norm16 (256 * n)"
proof -
  assume n: "unat acc = norm16 n"
  have less: "unat acc < 65536" by (simp add: n norm16_less)
  have "same_sum (256 * (unat acc mod 256) + unat acc div 256) (256 * n)"
    using same_sum_trans [OF same_sum_swap(1) [OF less]] same_sum_mult [OF norm16_same [of n]] n by simp
  then show ?thesis using unat_swap(2) [OF less] same_sum_norm norm16_id [OF same_sum_swap(2) [OF less]] by metis
qed

lemma same_sum_chunk_odd:
  assumes "length xs mod 2 = 1"
  shows "same_sum (256 * digits xs + digits ys) (256 * digits (xs @ ys))"
proof -
  obtain b xs' where xs: "xs = b # xs'" "length xs' mod 2 = 0" using assms by (cases xs) (auto simp: mod_Suc split: if_splits)
  have "same_sum (256 * unat b + 65536 * digits xs' + digits ys) (256 * unat b + digits xs' + digits ys)"
    by (intro same_sum_add same_sum_refl same_sum_65536)
  also have "\<dots> = 256 * unat b + (digits xs' + digits ys)" by simp
  also have "same_sum \<dots> (256 * unat b + 65536 * digits (xs' @ ys))"
    by (intro same_sum_add same_sum_refl same_sum_trans [OF same_sum_chunk [OF xs(2)] same_sum_sym [OF same_sum_65536]])
  finally show ?thesis by (simp add: xs(1) algebra_simps)
qed

text \<open>The state of the loop after the bytes \<open>xs\<close>.\<close>

definition chain_inv :: "u8 list \<Rightarrow> u32 \<times> bool \<Rightarrow> bool" where
  "chain_inv xs s \<longleftrightarrow> snd s = (length xs mod 2 = 1) \<and> unat (fst s) = norm16 (if snd s then 256 * digits xs else digits xs)"

lemma unat_add_chksum:
  assumes "unat acc = norm16 n" "length q < 65536"
  shows "unat (fold16 (acc + ucast (LWIP_CHKSUM q))) = norm16 (n + digits q)"
proof -
  have "unat (acc + ucast (LWIP_CHKSUM q)) = norm16 n + norm16 (digits q)"
    using norm16_less [of n] norm16_less [of "digits q"] by (subst unat_add32) (simp_all add: unat_ucast32 lwip_chksum1_digits assms)
  then show ?thesis using same_sum_norm [OF same_sum_add [OF norm16_same norm16_same]] by (simp add: unat_fold16)
qed

lemma sum_chain_inv:
  "chain_inv xs s \<Longrightarrow> \<forall>q\<in>set p. length q < 65536 \<Longrightarrow> chain_inv (xs @ concat p) (sum_chain p s)"
proof (induction p s arbitrary: xs rule: sum_chain.induct)
  case (2 q rest acc swapped)
  let ?acc = "fold16 (acc + ucast (LWIP_CHKSUM q))"
  have sw: "swapped = (length xs mod 2 = 1)" and acc: "unat acc = norm16 (if swapped then 256 * digits xs else digits xs)"
    using 2(2) by (simp_all add: chain_inv_def)
  have q: "length q < 65536" using 2(3) by simp
  have a: "unat ?acc = norm16 (if swapped then 256 * digits (xs @ q) else digits (xs @ q))"
    using unat_add_chksum [OF acc q] sw same_sum_norm [OF same_sum_chunk_odd [of xs q]] same_sum_norm [OF same_sum_chunk [of xs q]]
    by (auto split: if_splits)
  have swp: "unat (swap_acc ?acc) = norm16 (if swapped then digits (xs @ q) else 256 * digits (xs @ q))"
    using unat_swap_norm [OF a] same_sum_norm [OF same_sum_65536 [of "digits (xs @ q)"]] by (cases swapped) (simp_all add: mult.assoc [symmetric])
  have "chain_inv (xs @ q) (if length q mod 2 \<noteq> 0 then (swap_acc ?acc, \<not> swapped) else (?acc, swapped))"
    using a swp sw by (auto simp: chain_inv_def mod_add_eq [symmetric, of "length xs"])
  then have "chain_inv ((xs @ q) @ concat rest) (sum_chain rest (if length q mod 2 \<noteq> 0 then (swap_acc ?acc, \<not> swapped) else (?acc, swapped)))"
    using 2(3) by (intro 2(1)) auto
  then show ?case by (simp add: Let_def)
qed simp

lemma chain_total:
  assumes "length (concat p) < 65536" "sum_chain p (0, False) = (acc, swapped)"
  shows "unat (if swapped then swap_acc acc else acc) = norm16 (digits (concat p))"
proof -
  have "length q \<le> length (concat p)" if "q \<in> set p" for q
    using member_le_sum_list [of "length q" "map length p"] that by (simp add: length_concat)
  then have "\<forall>q\<in>set p. length q < 65536" using assms(1) by (meson le_less_trans)
  then have "chain_inv (concat p) (acc, swapped)"
    using sum_chain_inv [of "[]" "(0, False)" p] assms(2) by (simp add: chain_inv_def norm16_def)
  then show ?thesis
    using unat_swap_norm [of acc "256 * digits (concat p)"] same_sum_norm [OF same_sum_65536 [of "digits (concat p)"]]
    by (auto simp: chain_inv_def mult.assoc [symmetric])
qed

text \<open>C22. The three versions of the checksum, byte by byte, by 16-bit words and by 32-bit words with the carry added back,
  compute the same sum of every packet, wherever it starts in memory.\<close>

theorem chksum_versions_agree:
  assumes "length bs < 65536"
  shows "lwip_chksum2 addr bs = lwip_chksum1 bs \<and> lwip_chksum3 addr bs = lwip_chksum1 bs"
  using assms lwip_chksum1_digits lwip_chksum2_digits lwip_chksum3_digits by (simp_all add: word_unat_eq_iff)

text \<open>C23. The checksum of a packet does not depend on how it is spread over a chain of buffers, of odd or even length.\<close>

theorem chksum_pseudo_chain:
  assumes "length (concat p) < 65536"
  shows "inet_chksum_pseudo p src dest proto proto_len = inet_chksum_pseudo [concat p] src dest proto proto_len"
proof -
  obtain acc swapped acc' swapped' where s: "sum_chain p (0, False) = (acc, swapped)" "sum_chain [concat p] (0, False) = (acc', swapped')"
    by (meson prod.exhaust)
  have "unat (if swapped then swap_acc acc else acc) = unat (if swapped' then swap_acc acc' else acc')"
    using chain_total [OF assms s(1)] chain_total [of "[concat p]", OF _ s(2)] assms by simp
  then have "(if swapped then swap_acc acc else acc) = (if swapped' then swap_acc acc' else acc')" by (simp add: word_unat_eq_iff)
  then show ?thesis by (simp only: inet_chksum_pseudo_def s Let_def prod.case)
qed

lemma unat_not16:
  assumes "unat acc < 65536"
  shows "unat (ucast (NOT (acc AND 0xffff) :: u32) :: u16) = 65535 - unat acc"
proof -
  have "(0xffff :: u32) = mask 16" by (simp add: mask_eq_exp_minus_1)
  moreover have "ucast (NOT (acc AND mask 16) :: u32) = (NOT (ucast acc) :: u16)"
    by (rule bit_word_eqI) (auto simp: bit_simps)
  ultimately have "ucast (NOT (acc AND 0xffff) :: u32) = (NOT (ucast acc) :: u16)" by (simp only:)
  moreover have "unat (NOT y) = 65535 - unat y" for y :: u16
  proof -
    have "NOT y = - 1 - y" by (simp add: not_eq_complement)
    then have "unat (NOT y) = unat (- 1 :: u16) - unat y" using unat_sub [of y "- 1"] by (simp only: word_order.extremum)
    then show ?thesis by (simp add: unsigned_minus_1_eq_mask mask_eq_exp_minus_1)
  qed
  moreover have "unat (ucast acc :: u16) = unat acc" using assms by (simp add: unsigned_ucast_eq take_bit_nat_eq_self)
  ultimately show ?thesis by simp
qed

lemma unat_inet_chksum:
  assumes "length bs < 65536"
  shows "unat (inet_chksum bs) = 65535 - norm16 (digits bs)"
proof -
  have "unat (fold16 (ucast (LWIP_CHKSUM bs))) = norm16 (digits bs)"
    using assms norm16_id [OF norm16_less] by (simp add: unat_fold16 unat_ucast32 lwip_chksum1_digits)
  then show ?thesis unfolding inet_chksum_def using norm16_less by (subst unat_not16) simp_all
qed

text \<open>C24. A packet is accepted with its checksum: when the checksum of the packet with zeros in the checksum field, at an
  even offset, is stored there, the checksum of the result is zero.\<close>

theorem chksum_accepts:
  assumes "length (xs @ ys) < 65534" "length xs mod 2 = 0"
  defines "c \<equiv> inet_chksum (xs @ [0, 0] @ ys)"
  shows "inet_chksum (xs @ [ucast c, ucast (drop_bit 8 c)] @ ys) = 0"
proof -
  let ?D = "digits (xs @ [0, 0] @ ys)" and ?f = "[ucast c, ucast (drop_bit 8 c)] :: u8 list"
  have c: "unat c = 65535 - norm16 ?D" using unat_inet_chksum [of "xs @ [0, 0] @ ys"] assms(1) by (simp add: c_def)
  have f: "digits ?f = unat c"
    using unat16_less [of c] by (simp add: unsigned_ucast_eq take_bit_eq_mod unat_drop)
  have "same_sum (digits xs + (digits fs + digits ys)) (digits (xs @ fs @ ys))" if "length fs mod 2 = 0" for fs
    by (intro same_sum_trans [OF same_sum_add [OF same_sum_refl same_sum_chunk [OF that]] same_sum_chunk [OF assms(2)]])
  from this [of "[0, 0]"] this [of ?f]
  have s: "same_sum (digits xs + digits ys) ?D" "same_sum (digits xs + (unat c + digits ys)) (digits (xs @ ?f @ ys))"
    unfolding f by simp_all
  have "same_sum (digits xs + (unat c + digits ys)) (unat c + ?D)"
    using same_sum_add [OF same_sum_refl [of "unat c"] s(1)] by (simp add: ac_simps)
  then have "norm16 (digits (xs @ ?f @ ys)) = norm16 (unat c + ?D)" using s(2) same_sum_norm by metis
  also have "\<dots> = norm16 (unat c + norm16 ?D)" by (rule same_sum_norm [OF same_sum_add [OF same_sum_refl same_sum_sym [OF norm16_same]]])
  also have "unat c + norm16 ?D = 65535" using c norm16_less [of ?D] by simp
  finally have "norm16 (digits (xs @ ?f @ ys)) = 65535" by (simp add: norm16_def)
  then have "unat (inet_chksum (xs @ ?f @ ys)) = 0" using unat_inet_chksum [of "xs @ ?f @ ys"] assms(1) by simp
  then show ?thesis by (simp only: unat_eq_zero)
qed

lemma no_swap: "unat acc < 65536 \<Longrightarrow> (acc AND push_bit 8 0x00ff) OR (acc AND drop_bit 8 0xff00) = (acc :: u32)"
proof -
  assume "unat acc < 65536"
  then have "unat (acc AND 0xffff) = unat acc" by (simp add: unat_and_ones)
  then have "acc AND 0xffff = acc" by (simp only: word_unat_eq_iff)
  moreover have "(acc AND push_bit 8 0x00ff) OR (acc AND drop_bit 8 0xff00) = acc AND 0xffff"
    by (simp add: bit.conj_disj_distrib [symmetric])
  ultimately show ?thesis by simp
qed

lemma sum_pbuf_value:
  "unat acc = norm16 n \<Longrightarrow> \<forall>q\<in>set p. length q < 65536
   \<Longrightarrow> unat (fst (sum_pbuf p (acc, swapped))) = norm16 (n + sum_list (map digits p))"
proof (induction p arbitrary: acc n swapped)
  case (Cons q p)
  let ?acc = "fold16 (acc + ucast (LWIP_CHKSUM q))"
  have a: "unat ?acc = norm16 (n + digits q)" using unat_add_chksum [OF Cons.prems(1)] Cons.prems(2) by simp
  then have "unat ?acc < 65536" by (simp add: norm16_less)
  then have "sum_pbuf (q # p) (acc, swapped) = sum_pbuf p (?acc, if length q mod 2 \<noteq> 0 then \<not> swapped else swapped)"
    by (simp add: Let_def no_swap [simplified])
  then show ?case using Cons.IH [OF a] Cons.prems(2) by (simp add: add.assoc)
qed simp

text \<open>What the two functions compute of a chain of two buffers, the first of an odd length.\<close>

lemma pbuf_pair_value:
  assumes "length xs < 65536" "length ys < 65536" "length xs mod 2 = 1"
  shows "unat (inet_chksum_pbuf [xs, ys]) =
    65535 - norm16 ((if length ys mod 2 = 1 then 1 else 256) * (digits xs + digits ys))"
proof -
  obtain acc swapped where s: "sum_pbuf [xs, ys] (0, False) = (acc, swapped)" by (rule prod.exhaust)
  have acc: "unat acc = norm16 (digits xs + digits ys)"
    using sum_pbuf_value [of 0 0 "[xs, ys]" False] s assms(1,2) by (simp add: norm16_def)
  have sw: "swapped \<longleftrightarrow> length ys mod 2 \<noteq> 1" using s assms(3) by (auto simp: Let_def split: if_splits)
  have "unat (if swapped then swap_acc acc else acc) =
      norm16 ((if length ys mod 2 = 1 then 1 else 256) * (digits xs + digits ys))"
    using acc unat_swap_norm [OF acc] sw by simp
  moreover have "inet_chksum_pbuf [xs, ys] = ucast (NOT ((if swapped then swap_acc acc else acc) AND 0xffff))"
    by (simp only: inet_chksum_pbuf_def s Let_def prod.case)
  ultimately show ?thesis using unat_not16 norm16_less by presburger
qed

lemma digits_odd_append:
  assumes "length xs mod 2 = 1"
  shows "same_sum (digits (xs @ ys)) (digits xs + 256 * digits ys)"
proof -
  have "same_sum (65536 * digits (xs @ ys)) (65536 * digits xs + 256 * digits ys)"
    using same_sum_mult [OF same_sum_sym [OF same_sum_chunk_odd [OF assms, of ys]]] by (simp add: algebra_simps)
  also have "same_sum \<dots> (digits xs + 256 * digits ys)" by (intro same_sum_add same_sum_65536 same_sum_refl)
  finally show ?thesis by (rule same_sum_trans [OF same_sum_sym [OF same_sum_65536]])
qed

lemma norm16_eq_iff: "norm16 m = norm16 n \<longleftrightarrow> same_sum m n"
  using norm16_same same_sum_norm same_sum_sym same_sum_trans by metis

lemma same_sum_255: "same_sum (m + 255 * n) m \<longleftrightarrow> 257 dvd n" if "m = 0 \<longrightarrow> n = 0"
proof -
  have "(m + 255 * n) mod 65535 = m mod 65535 \<longleftrightarrow> 65535 dvd 255 * n"
    by (simp add: mod_eq_dvd_iff_nat)
  also have "\<dots> \<longleftrightarrow> 257 dvd n" using nat_mult_dvd_cancel_disj [of 255 257 n] by simp
  finally show ?thesis using that by (auto simp: same_sum_def)
qed

text \<open>C25. \<^verbatim>\<open>inet_chksum_pbuf\<close> does not reorder the sum between buffers.  When the first of two buffers has an odd
  length, its result is the checksum of the packet's bytes only if 257 divides the little-endian number that the
  second buffer holds, when the second one's length is odd too, or the number the first one holds, when it is even.\<close>

theorem chksum_pbuf_wrong:
  assumes "length (xs @ ys) < 65536" "length xs mod 2 = 1"
  shows "inet_chksum_pbuf [xs, ys] = inet_chksum (xs @ ys)
     \<longleftrightarrow> 257 dvd digits (if length ys mod 2 = 1 then ys else xs)"
proof -
  let ?X = "digits xs" and ?Y = "digits ys" and ?k = "if length ys mod 2 = 1 then 1 else 256 :: nat"
  have "unat (inet_chksum_pbuf [xs, ys]) = 65535 - norm16 (?k * (?X + ?Y))"
    using assms by (intro pbuf_pair_value) simp_all
  moreover have "unat (inet_chksum (xs @ ys)) = 65535 - norm16 (?X + 256 * ?Y)"
    using unat_inet_chksum [OF assms(1)] same_sum_norm [OF digits_odd_append [OF assms(2)]] by simp
  ultimately have "inet_chksum_pbuf [xs, ys] = inet_chksum (xs @ ys)
      \<longleftrightarrow> norm16 (?k * (?X + ?Y)) = norm16 (?X + 256 * ?Y)"
    using norm16_less [of "?k * (?X + ?Y)"] norm16_less [of "?X + 256 * ?Y"] unfolding word_unat_eq_iff by linarith
  also have "\<dots> \<longleftrightarrow> same_sum (?k * (?X + ?Y)) (?X + 256 * ?Y)" by (rule norm16_eq_iff)
  also have "\<dots> \<longleftrightarrow> 257 dvd digits (if length ys mod 2 = 1 then ys else xs)"
  proof (cases "length ys mod 2 = 1")
    case True
    have "same_sum (?X + ?Y + 255 * ?Y) (?X + ?Y) \<longleftrightarrow> 257 dvd ?Y" by (rule same_sum_255) simp
    with True same_sum_sym show ?thesis by (auto simp: add.assoc)
  next
    case False
    have "same_sum (?X + 256 * ?Y + 255 * ?X) (?X + 256 * ?Y) \<longleftrightarrow> 257 dvd ?X" by (rule same_sum_255) simp
    moreover have "?X + 256 * ?Y + 255 * ?X = 256 * (?X + ?Y)" by simp
    ultimately show ?thesis using False by simp
  qed
  finally show ?thesis .
qed

theorem chksum_versions_agree_witness:
  "lwip_chksum2 7 [1, 2, 3] = lwip_chksum1 [1, 2, 3] \<and> lwip_chksum3 7 [1, 2, 3] = lwip_chksum1 [1, 2, 3]"
  by (rule chksum_versions_agree) simp

theorem chksum_pseudo_chain_witness:
  "inet_chksum_pseudo [[1], [2, 3, 4], [5]] 10 20 6 5 = inet_chksum_pseudo [[1, 2, 3, 4, 5]] 10 20 6 5"
  using chksum_pseudo_chain [of "[[1], [2, 3, 4], [5]]" 10 20 6 5] by simp

theorem chksum_accepts_witness:
  "inet_chksum ([8, 0] @ [ucast (inet_chksum ([8, 0] @ [0, 0] @ [9])), ucast (drop_bit 8 (inet_chksum ([8, 0] @ [0, 0] @ [9])))] @ [9]) = 0"
  by (rule chksum_accepts) simp_all

theorem chksum_pbuf_wrong_witness:
  "inet_chksum_pbuf [[1], [2]] \<noteq> inet_chksum ([1] @ [2]) \<and> inet_chksum_pbuf [[1], [0]] = inet_chksum ([1] @ [0])"
proof -
  have "\<not> 257 dvd (2 :: nat)" by (simp add: dvd_eq_mod_eq_0)
  then show ?thesis
    using chksum_pbuf_wrong [of "[1]" "[2]"] chksum_pbuf_wrong [of "[1]" "[0]"] by simp
qed

end
