(* ===== verification/Fs_File.thy ===== *)
theory Fs_File
  imports Faux_Prelude
begin

text \<open>
  The buffer cache of a file-system server (\<open>sys/fs/buffer_cache.cpp\<close>, \<open>buffer_cache.hpp\<close>) and the
  files stored in its blocks (\<open>class File\<close> of \<open>sys/fs/file.cpp\<close>).

  The shared memory is a function from byte offsets to bytes, and a block is its offset from the start
  of that memory.  The memory's size, the block size and the number of servers, constants of the build,
  are the arguments \<open>M\<close>, \<open>B\<close> and \<open>N\<close>.  An index outside a vector or an iterator moved past its end is
  \<^term>\<open>None\<close>.
\<close>

unbundle bit_operations_syntax

lemma and_nat_le: "a AND b \<le> (b :: nat)"
proof -
  have "int (a AND b) \<le> int b" by (simp add: of_nat_and_eq AND_upper2)
  then show ?thesis by simp
qed

lemma and_block_mask: "B = 2 ^ k \<Longrightarrow> x AND (B - 1) = x mod (B :: nat)"
  by (metis mask_eq_exp_minus_1 take_bit_eq_mask take_bit_eq_mod)

section \<open>The buffer cache\<close>

type_synonym fs_mem = "nat \<Rightarrow> u8"

record BufferCache =
  bc_blocks :: "nat list"
  bc_free :: nat

function region_blocks :: "nat \<Rightarrow> nat \<Rightarrow> nat \<Rightarrow> nat list" where
  "region_blocks B offset region_end =
     (if 0 < B \<and> offset < region_end then offset # region_blocks B (offset + B) region_end else [])"
  by pat_completeness auto
termination
  by (relation "measure (\<lambda>(B, offset, region_end). region_end - offset)") auto

declare region_blocks.simps [simp del]

text \<open>The constructor.  \<^verbatim>\<open>partition_size\<close> and its multiples are computed as \<^verbatim>\<open>int\<close>.\<close>

definition BufferCache_new :: "nat \<Rightarrow> nat \<Rightarrow> nat \<Rightarrow> int \<Rightarrow> BufferCache option" where
  "BufferCache_new M B N sid =
     (let partition_size = c_int (int (M div N));
          region_start = sid * partition_size;
          region_end = (sid + 1) * partition_size
      in if N = 0 \<or> B = 0 \<or> \<bar>region_start\<bar> \<ge> 2 ^ 31 \<or> \<bar>region_end\<bar> \<ge> 2 ^ 31 then None
         else Some \<lparr>bc_blocks = region_blocks B (nat (region_start mod 2 ^ 64)) (nat (region_end mod 2 ^ 64)),
                    bc_free = M div (B * N)\<rparr>)"

definition bc_get :: "nat \<Rightarrow> BufferCache \<Rightarrow> (nat list \<times> BufferCache) option" where
  "bc_get blocks_nr bc =
     (if bc_free bc < blocks_nr then Some ([], bc)
      else if length (bc_blocks bc) < blocks_nr then None
      else Some (take blocks_nr (bc_blocks bc),
                 bc\<lparr>bc_blocks := drop blocks_nr (bc_blocks bc), bc_free := bc_free bc - blocks_nr\<rparr>))"

definition bc_put :: "nat list \<Rightarrow> BufferCache \<Rightarrow> BufferCache" where
  "bc_put blocks bc =
     bc\<lparr>bc_free := size_t (bc_free bc + length blocks), bc_blocks := blocks @ bc_blocks bc\<rparr>"

section \<open>Files\<close>

record File =
  f_blocks :: "nat list"
  f_orphans :: "nat list"
  f_size :: nat

definition File_new :: File where
  "File_new = \<lparr>f_blocks = [], f_orphans = [], f_size = 0\<rparr>"

text \<open>The destructor returns both lists of blocks.\<close>

definition File_delete :: "File \<Rightarrow> BufferCache \<Rightarrow> BufferCache" where
  "File_delete f bc = bc_put (f_orphans f) (bc_put (f_blocks f) bc)"

definition blocks_for :: "nat \<Rightarrow> nat \<Rightarrow> nat" where
  "blocks_for B new_size =
     (let nr = new_size div B in if new_size AND (B - 1) \<noteq> 0 then nr + 1 else nr)"

definition File_shrink :: "nat \<Rightarrow> nat \<Rightarrow> File \<Rightarrow> (int \<times> File) option" where
  "File_shrink B new_size f =
     (let nr = blocks_for B new_size
      in if size_sub (length (f_blocks f)) nr = 0 then Some (0, f)
         else if length (f_blocks f) < nr then None
         else Some (0, f\<lparr>f_blocks := take nr (f_blocks f),
                         f_orphans := f_orphans f @ drop nr (f_blocks f)\<rparr>))"

definition ENOSPC :: int where
  "ENOSPC = 28"

definition File_grow :: "nat \<Rightarrow> nat \<Rightarrow> File \<Rightarrow> BufferCache \<Rightarrow> (int \<times> File \<times> BufferCache) option" where
  "File_grow B new_size f bc =
     (let nr = blocks_for B new_size;
          nr_diff = size_sub nr (length (f_blocks f))
      in if nr_diff = 0 then Some (0, f, bc)
         else do {
           (memory_blocks, bc) \<leftarrow> bc_get nr_diff bc;
           if length memory_blocks \<noteq> nr_diff then Some (- ENOSPC, f, bc)
           else Some (0, f\<lparr>f_blocks := f_blocks f @ memory_blocks\<rparr>, bc)
         })"

text \<open>The copy loops.  The bytes still to copy are the argument that decreases.\<close>

function read_loop :: "nat \<Rightarrow> nat list \<Rightarrow> fs_mem \<Rightarrow> nat \<Rightarrow> nat \<Rightarrow> u8 list option" where
  "read_loop B blocks m offset rest =
     (if rest = 0 then Some []
      else if B = 0 then None
      else let block_offset = offset AND (B - 1);
               block_nr = offset div B;
               n = min (B - block_offset) rest
      in if length blocks \<le> block_nr then None
         else do {
           bs \<leftarrow> read_loop B blocks m (offset + n) (rest - n);
           Some (map m [blocks ! block_nr + block_offset..<blocks ! block_nr + block_offset + n] @ bs)
         })"
  by pat_completeness auto
termination
proof (relation "measure (\<lambda>(B, blocks, m, offset, rest). rest)")
  fix B offset rest x xa xb :: nat and blocks :: "nat list" and m :: fs_mem
  assume *: "rest \<noteq> 0" "B \<noteq> 0" "x = offset AND (B - 1)" "xa = offset div B"
    "xb = min (B - x) rest"
  have "offset AND (B - 1) \<le> B - 1" by (rule and_nat_le)
  with * show "((B, blocks, m, offset + xb, rest - xb), (B, blocks, m, offset, rest))
      \<in> measure (\<lambda>(B, blocks, m, offset, rest). rest)" by auto
qed simp

function write_loop :: "nat \<Rightarrow> nat list \<Rightarrow> nat \<Rightarrow> u8 list \<Rightarrow> fs_mem \<Rightarrow> fs_mem option" where
  "write_loop B blocks offset bs m =
     (if bs = [] then Some m
      else if B = 0 then None
      else let block_offset = offset AND (B - 1);
               block_nr = offset div B;
               n = min (B - block_offset) (length bs)
      in if length blocks \<le> block_nr then None
         else let p = blocks ! block_nr + block_offset
         in write_loop B blocks (offset + n) (drop n bs)
              (\<lambda>x. if p \<le> x \<and> x < p + n then bs ! (x - p) else m x))"
  by pat_completeness auto
termination
proof (relation "measure (\<lambda>(B, blocks, offset, bs, m). length bs)")
  fix B offset x xa xb xc :: nat and blocks :: "nat list" and bs :: "u8 list" and m :: fs_mem
  assume *: "bs \<noteq> []" "B \<noteq> 0" "x = offset AND (B - 1)" "xa = offset div B"
    "xb = min (B - x) (length bs)"
  have "offset AND (B - 1) \<le> B - 1" by (rule and_nat_le)
  with * show "((B, blocks, offset + xb, drop xb bs, \<lambda>x. if xc \<le> x \<and> x < xc + xb then bs ! (x - xc) else m x),
      (B, blocks, offset, bs, m)) \<in> measure (\<lambda>(B, blocks, offset, bs, m). length bs)" by auto
qed simp

declare read_loop.simps [simp del] write_loop.simps [simp del]

text \<open>\<^verbatim>\<open>File::read\<close>: the bytes stored in the caller's buffer, whose number it returns.\<close>

definition File_read :: "nat \<Rightarrow> File \<Rightarrow> fs_mem \<Rightarrow> nat \<Rightarrow> nat \<Rightarrow> u8 list option" where
  "File_read B f m cnt offset =
     (if offset < f_size f
      then (let cnt = (if size_t (offset + cnt) > f_size f then f_size f - offset else cnt)
            in read_loop B (f_blocks f) m offset cnt)
      else Some [])"

definition File_write ::
    "nat \<Rightarrow> u8 list \<Rightarrow> nat \<Rightarrow> File \<Rightarrow> BufferCache \<Rightarrow> fs_mem \<Rightarrow> (int \<times> File \<times> BufferCache \<times> fs_mem) option" where
  "File_write B buf offset f bc m =
     (if length buf = 0 then Some (0, f, bc, m)
      else let new_size = size_t (offset + length buf)
      in do {
        (retval, f, bc) \<leftarrow> (if f_size f < new_size
           then do {
             (retval, f, bc) \<leftarrow> File_grow B new_size f bc;
             Some (retval, f\<lparr>f_size := new_size\<rparr>, bc)
           }
           else Some (0, f, bc));
        if retval \<noteq> 0 then Some (retval, f, bc, m)
        else do {
          m \<leftarrow> write_loop B (f_blocks f) offset buf m;
          Some (int (length buf), f, bc, m)
        }
      })"

definition File_truncate :: "nat \<Rightarrow> nat \<Rightarrow> File \<Rightarrow> BufferCache \<Rightarrow> (int \<times> File \<times> BufferCache) option" where
  "File_truncate B new_size f bc =
     (if f_size f < new_size
      then do {
        (retval, f, bc) \<leftarrow> File_grow B new_size f bc;
        Some (if retval \<noteq> 0 then (retval, f, bc) else (0, f\<lparr>f_size := new_size\<rparr>, bc))
      }
      else if new_size < f_size f
      then do {
        (retval, f) \<leftarrow> File_shrink B new_size f;
        Some (if retval \<noteq> 0 then (retval, f, bc) else (0, f\<lparr>f_size := new_size\<rparr>, bc))
      }
      else Some (0, f\<lparr>f_size := new_size\<rparr>, bc))"

definition File_capacity :: "nat \<Rightarrow> File \<Rightarrow> nat" where
  "File_capacity B f = size_t (length (f_orphans f) * B + length (f_blocks f) * B)"

text \<open>\<^verbatim>\<open>File::blocks\<close>: the block list, filled from the file's blocks and then from its orphaned ones.
  The second iterator starts at the offset minus the number of blocks.\<close>

definition File_blocks :: "File \<Rightarrow> int \<Rightarrow> int \<Rightarrow> (int \<times> nat list) option" where
  "File_blocks f offset cnt =
     (if offset < 0 \<or> int (length (f_blocks f)) < offset then None
      else let out = take (nat cnt) (drop (nat offset) (f_blocks f))
      in if int (length out) < cnt
         then (let offset = offset - int (length (f_blocks f))
               in if offset < 0 \<or> int (length (f_orphans f)) < offset then None
                  else let out = out @ take (nat cnt - length out) (drop (nat offset) (f_orphans f))
                  in Some (if int (length out) < cnt then NO_MEMORY else OK, out))
         else Some (OK, out))"

section \<open>Interface: a store of blocks\<close>

text \<open>What a file relies on: blocks are handed out as many as asked for, or none and an unchanged store, and
  never one that is handed out already.\<close>

locale block_store =
  fixes get :: "nat \<Rightarrow> 's \<Rightarrow> (nat list \<times> 's) option"
    and put :: "nat list \<Rightarrow> 's \<Rightarrow> 's"
    and avail :: "'s \<Rightarrow> nat list"
    and invar :: "'s \<Rightarrow> bool"
  assumes get_enough: "invar s \<Longrightarrow> n \<le> length (avail s) \<Longrightarrow>
        \<exists>bs s'. get n s = Some (bs, s') \<and> invar s' \<and> length bs = n \<and> avail s = bs @ avail s'"
    and get_short: "invar s \<Longrightarrow> length (avail s) < n \<Longrightarrow> get n s = Some ([], s)"
    and put_law: "invar s \<Longrightarrow> length bs + length (avail s) < 2 ^ 64 \<Longrightarrow>
        invar (put bs s) \<and> avail (put bs s) = bs @ avail s"
begin

lemma get_total: "invar s \<Longrightarrow> \<exists>bs s'. get n s = Some (bs, s') \<and> invar s'"
  using get_enough [of s n] get_short [of s n] by (cases "n \<le> length (avail s)") auto

lemma get_conserves:
  assumes "invar s" "get n s = Some (bs, s')"
  shows "mset (avail s) = mset bs + mset (avail s')" "length bs = n \<or> (bs = [] \<and> s' = s)"
    "set bs \<subseteq> set (avail s)" "set (avail s') \<subseteq> set (avail s)"
proof -
  have "(length bs = n \<and> avail s = bs @ avail s') \<or> (bs = [] \<and> s' = s)"
    using assms get_enough [of s n] get_short [of s n] by (cases "n \<le> length (avail s)") auto
  then show "mset (avail s) = mset bs + mset (avail s')" "length bs = n \<or> (bs = [] \<and> s' = s)"
    "set bs \<subseteq> set (avail s)" "set (avail s') \<subseteq> set (avail s)"
    by auto
qed

lemma get_fresh:
  assumes "invar s" "get n s = Some (bs, s')" "distinct (held @ avail s)"
  shows "distinct (held @ bs @ avail s')"
  using assms get_enough [of s n] get_short [of s n] by (cases "n \<le> length (avail s)") auto

end

definition bc_invar :: "BufferCache \<Rightarrow> bool" where
  "bc_invar bc \<longleftrightarrow> bc_free bc = length (bc_blocks bc) \<and> length (bc_blocks bc) < 2 ^ 64"

interpretation bcache: block_store bc_get bc_put bc_blocks bc_invar
proof unfold_locales
  show "\<exists>bs s'. bc_get n s = Some (bs, s') \<and> bc_invar s' \<and> length bs = n \<and> bc_blocks s = bs @ bc_blocks s'"
    if "bc_invar s" "n \<le> length (bc_blocks s)" for s n
    using that unfolding bc_get_def bc_invar_def
    by (simp add: less_imp_diff_less)
  show "bc_get n s = Some ([], s)" if "bc_invar s" "length (bc_blocks s) < n" for s n
    using that by (simp add: bc_get_def bc_invar_def)
  show "bc_invar (bc_put bs s) \<and> bc_blocks (bc_put bs s) = bs @ bc_blocks s"
    if "bc_invar s" "length bs + length (bc_blocks s) < 2 ^ 64" for s bs
    using that by (simp add: bc_put_def bc_invar_def add.commute)
qed

section \<open>The bytes of a file\<close>

definition addr :: "nat \<Rightarrow> nat list \<Rightarrow> nat \<Rightarrow> nat" where
  "addr B blocks i = blocks ! (i div B) + i mod B"

definition content :: "nat \<Rightarrow> File \<Rightarrow> fs_mem \<Rightarrow> u8 list" where
  "content B f m = map (\<lambda>i. m (addr B (f_blocks f) i)) [0..<f_size f]"

definition aligned :: "nat \<Rightarrow> nat list \<Rightarrow> bool" where
  "aligned B blocks \<longleftrightarrow> (\<forall>b\<in>set blocks. B dvd b)"

definition file_ok :: "nat \<Rightarrow> File \<Rightarrow> bool" where
  "file_ok B f \<longleftrightarrow> length (f_blocks f) = blocks_for B (f_size f) \<and> distinct (f_blocks f)
     \<and> aligned B (f_blocks f)"

text \<open>The file and the cache together: the blocks of both are distinct block boundaries.\<close>

definition store_ok :: "nat \<Rightarrow> File \<Rightarrow> BufferCache \<Rightarrow> bool" where
  "store_ok B f bc \<longleftrightarrow> file_ok B f \<and> bc_invar bc \<and> distinct (f_blocks f @ f_orphans f @ bc_blocks bc)
     \<and> aligned B (f_blocks f @ f_orphans f @ bc_blocks bc)"

lemma blocks_for_alt:
  "B = 2 ^ k \<Longrightarrow> blocks_for B n = (if n mod B \<noteq> 0 then n div B + 1 else n div B)"
  unfolding blocks_for_def by (simp only: and_block_mask Let_def)

lemma blocks_for_cover:
  assumes "B = 2 ^ k"
  shows "n \<le> B * blocks_for B n"
proof -
  have eq: "B * (n div B) + n mod B = n" by (rule mult_div_mod_eq)
  show ?thesis
  proof (cases "n mod B = 0")
    case True
    then have "blocks_for B n = n div B" by (simp only: blocks_for_alt [OF assms] simp_thms if_False)
    with True eq show ?thesis by simp
  next
    case False
    then have "blocks_for B n = n div B + 1" by (simp only: blocks_for_alt [OF assms] simp_thms if_True)
    moreover have "n mod B < B" using assms by simp
    ultimately show ?thesis using eq by (simp only: distrib_left)
  qed
qed

lemma blocks_for_least:
  assumes "B = 2 ^ k" "n \<le> B * q"
  shows "blocks_for B n \<le> q"
proof (cases "n mod B = 0")
  case True
  then have "n = B * (n div B)" by auto
  with assms have "B * (n div B) \<le> B * q" by simp
  then have "n div B \<le> q" using assms(1) by simp
  with True show ?thesis by (simp add: blocks_for_alt [OF assms(1)])
next
  case False
  have "n = B * (n div B) + n mod B" by simp
  then have "B * (n div B) < B * q" using False assms(2) by linarith
  then have "n div B < q" by simp
  with False show ?thesis by (simp add: blocks_for_alt [OF assms(1)])
qed

lemma blocks_for_mono: "B = 2 ^ k \<Longrightarrow> n \<le> n' \<Longrightarrow> blocks_for B n \<le> blocks_for B n'"
  using blocks_for_cover [of B k n'] by (intro blocks_for_least) auto

lemma blocks_for_small: "B = 2 ^ k \<Longrightarrow> n < 2 ^ 64 \<Longrightarrow> blocks_for B n < 2 ^ 64"
proof -
  assume "B = 2 ^ k" "n < 2 ^ 64"
  moreover from this have "n \<le> B * n" by simp
  ultimately show ?thesis using blocks_for_least [of B k n n] by simp
qed

lemma block_index:
  fixes B i q :: nat
  assumes "B = 2 ^ k" "i < B * q"
  shows "i div B < q"
  using assms by (simp add: div_less_iff_less_mult mult.commute)

lemma div_mod_parts:
  fixes B q r :: nat
  assumes "r < B"
  shows "(B * q + r) div B = q" "(B * q + r) mod B = r"
  using assms by simp_all

lemma addr_step:
  assumes "0 < B" "n = min (B - offset mod B) rest" "j < n"
  shows "addr B blocks (offset + j) = blocks ! (offset div B) + offset mod B + j"
proof -
  have j: "offset mod B + j < B" using assms by auto
  have "B * (offset div B) + (offset mod B + j) = offset + j"
    unfolding add.assoc [symmetric] by (simp only: mult_div_mod_eq)
  with div_mod_parts [OF j, of "offset div B"] show ?thesis by (simp only: addr_def add.assoc)
qed

lemma read_loop_bytes:
  assumes "B = 2 ^ k" "offset + rest \<le> B * length blocks"
  shows "read_loop B blocks m offset rest = Some (map (\<lambda>i. m (addr B blocks i)) [offset..<offset + rest])"
  using assms
proof (induction B blocks m offset rest rule: read_loop.induct)
  case (1 B blocks m offset rest)
  show ?case
  proof (cases "rest = 0")
    case True
    then show ?thesis by (subst read_loop.simps) simp
  next
    case False
    have B: "0 < B" using 1(2) by simp
    define n where "n = min (B - offset mod B) rest"
    have n: "0 < n" "n \<le> rest" using B False by (auto simp: n_def)
    have blk: "offset div B < length blocks" using block_index [OF 1(2), of offset] 1(3) False by simp
    have IH: "read_loop B blocks m (offset + n) (rest - n) =
        Some (map (\<lambda>i. m (addr B blocks i)) [offset + n..<offset + n + (rest - n)])"
      using 1(1) [OF False _ refl refl refl] 1(2,3) B blk n and_block_mask [OF 1(2)] n_def by simp
    have "map m [blocks ! (offset div B) + offset mod B..<blocks ! (offset div B) + offset mod B + n]
        = map (\<lambda>i. m (addr B blocks i)) [offset..<offset + n]"
      using addr_step [OF B n_def] by (intro nth_equalityI) (simp_all add: add.assoc)
    moreover have "[offset..<offset + rest] = [offset..<offset + n] @ [offset + n..<offset + n + (rest - n)]"
      using n(2) upt_add_eq_append [of offset "offset + n" "rest - n"] by simp
    ultimately show ?thesis
      using IH False B blk n_def and_block_mask [OF 1(2)] by (subst read_loop.simps) (simp add: Let_def)
  qed
qed

lemma addr_inj:
  assumes "B = 2 ^ k" "distinct blocks" "aligned B blocks" "i < B * length blocks" "j < B * length blocks"
    and "addr B blocks i = addr B blocks j"
  shows "i = j"
proof -
  have B: "0 < B" using assms(1) by simp
  have ib: "i div B < length blocks" "j div B < length blocks"
    using block_index [OF assms(1)] assms(4,5) by auto
  then have "B dvd blocks ! (i div B)" "B dvd blocks ! (j div B)"
    using assms(3) by (auto simp: aligned_def)
  then obtain q r where qr: "blocks ! (i div B) = B * q" "blocks ! (j div B) = B * r" by (auto elim!: dvdE)
  have eq: "B * q + i mod B = B * r + j mod B" using assms(6) unfolding addr_def qr .
  have lt: "i mod B < B" "j mod B < B" using B by simp_all
  have "q = (B * q + i mod B) div B" "i mod B = (B * q + i mod B) mod B"
    by (simp_all only: div_mod_parts [OF lt(1)])
  then have qr': "q = r" "i mod B = j mod B"
    unfolding eq by (simp_all only: div_mod_parts [OF lt(2)])
  have "blocks ! (i div B) = blocks ! (j div B)" unfolding qr qr'(1) ..
  then have "i div B = j div B" using nth_eq_iff_index_eq [OF assms(2) ib] by blast
  then have "B * (i div B) + i mod B = B * (j div B) + j mod B" unfolding qr'(2) by (rule arg_cong)
  then show ?thesis unfolding mult_div_mod_eq .
qed

lemma write_loop_step:
  assumes "B = 2 ^ k" "bs \<noteq> []" "offset div B < length blocks"
    and "n = min (B - offset mod B) (length bs)" "p = blocks ! (offset div B) + offset mod B"
  shows "write_loop B blocks offset bs m = write_loop B blocks (offset + n) (drop n bs)
           (\<lambda>x. if p \<le> x \<and> x < p + n then bs ! (x - p) else m x)"
proof -
  have "B \<noteq> 0" "\<not> length blocks \<le> offset div B" using assms(1,3) by simp_all
  with assms(2) show ?thesis
    by (subst write_loop.simps) (simp only: Let_def and_block_mask [OF assms(1)] assms(4,5) if_False)
qed

lemma write_loop_bytes:
  assumes "B = 2 ^ k" "distinct blocks" "aligned B blocks" "offset + length bs \<le> B * length blocks"
  shows "\<exists>m'. write_loop B blocks offset bs m = Some m'
     \<and> (\<forall>j<length bs. m' (addr B blocks (offset + j)) = bs ! j)
     \<and> (\<forall>x. (\<forall>j<length bs. x \<noteq> addr B blocks (offset + j)) \<longrightarrow> m' x = m x)"
  using assms(4)
proof (induction "length bs" arbitrary: offset bs m rule: less_induct)
  case less
  show ?case
  proof (cases "bs = []")
    case True
    then show ?thesis by (subst write_loop.simps) simp
  next
    case False
    have B: "0 < B" using assms(1) by simp
    define n where "n = min (B - offset mod B) (length bs)"
    define p where "p = blocks ! (offset div B) + offset mod B"
    define m1 where "m1 = (\<lambda>x. if p \<le> x \<and> x < p + n then bs ! (x - p) else m x)"
    have n: "0 < n" "n \<le> length bs" using B False by (auto simp: n_def)
    have "offset < B * length blocks" using less(2) False by (cases bs) auto
    then have blk: "offset div B < length blocks" using block_index [OF assms(1)] by simp
    have ad: "addr B blocks (offset + j) = p + j" if "j < n" for j
      using addr_step [OF B n_def that] by (simp add: p_def)
    have step: "write_loop B blocks offset bs m = write_loop B blocks (offset + n) (drop n bs) m1"
      unfolding m1_def by (rule write_loop_step [OF assms(1) False blk n_def p_def])
    have "offset + n + length (drop n bs) \<le> B * length blocks" "length (drop n bs) < length bs"
      using less(2) n by simp_all
    from less(1) [OF this(2,1), of m1]
    obtain m' where m': "write_loop B blocks (offset + n) (drop n bs) m1 = Some m'"
      "\<forall>j<length (drop n bs). m' (addr B blocks (offset + n + j)) = drop n bs ! j"
      "\<forall>x. (\<forall>j<length (drop n bs). x \<noteq> addr B blocks (offset + n + j)) \<longrightarrow> m' x = m1 x"
      by blast
    have "m' (addr B blocks (offset + j)) = bs ! j" if j: "j < length bs" for j
    proof (cases "j < n")
      case True
      have "addr B blocks (offset + j) \<noteq> addr B blocks (offset + n + i)" if i: "i < length (drop n bs)" for i
      proof -
        have "offset + j < B * length blocks" "offset + n + i < B * length blocks"
          using i True less(2) n by simp_all
        from addr_inj [OF assms(1,2,3) this] show ?thesis using True by auto
      qed
      then have "m' (addr B blocks (offset + j)) = m1 (addr B blocks (offset + j))" using m'(3) by blast
      then have "m' (addr B blocks (offset + j)) = m1 (p + j)" unfolding ad [OF True] .
      then show ?thesis using True by (simp add: m1_def)
    next
      case False
      then have "j - n < length (drop n bs)" "n \<le> length bs" "offset + n + (j - n) = offset + j" using j by simp_all
      then show ?thesis using m'(2) [rule_format, of "j - n"] False by simp
    qed
    moreover have "m' x = m x" if x: "\<forall>j<length bs. x \<noteq> addr B blocks (offset + j)" for x
    proof -
      have "x \<noteq> addr B blocks (offset + n + i)" if "i < length (drop n bs)" for i
        using x [rule_format, of "n + i"] that n(2) by (simp add: add.assoc)
      then have "m' x = m1 x" using m'(3) by blast
      moreover have "\<not> (p \<le> x \<and> x < p + n)"
      proof
        assume "p \<le> x \<and> x < p + n"
        then have px: "p \<le> x" "x < p + n" by simp_all
        then have "x - p < n" by arith
        then have "addr B blocks (offset + (x - p)) = p + (x - p)" by (rule ad)
        then have "x = addr B blocks (offset + (x - p))" using px by simp
        moreover have "x - p < length bs" using px n(2) by simp
        ultimately show False using x by blast
      qed
      ultimately show ?thesis by (simp add: m1_def)
    qed
    ultimately show ?thesis unfolding step using m'(1) by blast
  qed
qed

section \<open>Reading and writing\<close>

lemma file_ok_cover: "B = 2 ^ k \<Longrightarrow> file_ok B f \<Longrightarrow> f_size f \<le> B * length (f_blocks f)"
  using blocks_for_cover [of B k "f_size f"] by (simp add: file_ok_def)

lemma length_content [simp]: "length (content B f m) = f_size f"
  by (simp add: content_def)

lemma nth_content: "i < f_size f \<Longrightarrow> content B f m ! i = m (addr B (f_blocks f) i)"
  by (simp add: content_def)

lemma take_drop_map_upt:
  "take n (drop k (map g [0..<l])) = map g [k..<min l (k + n)]"
  by (rule nth_equalityI) auto

lemma File_read_content:
  assumes "B = 2 ^ k" "file_ok B f" "offset + cnt < 2 ^ 64"
  shows "File_read B f m cnt offset = Some (take cnt (drop offset (content B f m)))"
proof (cases "offset < f_size f")
  case True
  define c where "c = (if offset + cnt > f_size f then f_size f - offset else cnt)"
  have c: "offset + c = min (f_size f) (offset + cnt)" using True by (simp add: c_def)
  have "offset + c \<le> B * length (f_blocks f)"
    using file_ok_cover [OF assms(1,2)] c by linarith
  then have "read_loop B (f_blocks f) m offset c = Some (map (\<lambda>i. m (addr B (f_blocks f) i)) [offset..<offset + c])"
    by (rule read_loop_bytes [OF assms(1)])
  moreover have "File_read B f m cnt offset = read_loop B (f_blocks f) m offset c"
    using True assms(3) by (simp add: File_read_def c_def Let_def)
  ultimately show ?thesis unfolding content_def take_drop_map_upt c by simp
qed (simp add: File_read_def)

lemma File_grow_cases:
  assumes B: "B = 2 ^ k" and ok: "store_ok B f bc" and n: "f_size f \<le> n" "n < 2 ^ 64"
  defines "d \<equiv> blocks_for B n - length (f_blocks f)"
  shows "File_grow B n f bc =
     (if d \<le> length (bc_blocks bc)
      then Some (0, f\<lparr>f_blocks := f_blocks f @ take d (bc_blocks bc)\<rparr>,
                 bc\<lparr>bc_blocks := drop d (bc_blocks bc), bc_free := bc_free bc - d\<rparr>)
      else Some (- ENOSPC, f, bc))"
proof -
  have len: "length (f_blocks f) \<le> blocks_for B n" "blocks_for B n < 2 ^ 64"
    using blocks_for_mono [OF B n(1)] blocks_for_small [OF B n(2)] ok by (simp_all add: store_ok_def file_ok_def)
  then have d: "size_sub (blocks_for B n) (length (f_blocks f)) = d"
    by (simp add: d_def)
  have bi: "bc_free bc = length (bc_blocks bc)" using ok by (simp add: store_ok_def bc_invar_def)
  show ?thesis using d bi by (simp add: File_grow_def bc_get_def Let_def)
qed

lemma store_ok_grown:
  assumes B: "B = 2 ^ k" and ok: "store_ok B f bc" and n: "f_size f \<le> n"
  defines "d \<equiv> blocks_for B n - length (f_blocks f)"
  assumes d: "d \<le> length (bc_blocks bc)"
  shows "store_ok B (f\<lparr>f_blocks := f_blocks f @ take d (bc_blocks bc), f_size := n\<rparr>)
           (bc\<lparr>bc_blocks := drop d (bc_blocks bc), bc_free := bc_free bc - d\<rparr>)"
proof -
  have "length (f_blocks f) \<le> blocks_for B n"
    using blocks_for_mono [OF B n] ok by (simp add: store_ok_def file_ok_def)
  then have "length (f_blocks f) + d = blocks_for B n" by (simp add: d_def)
  moreover have "set (take d (bc_blocks bc)) \<union> set (drop d (bc_blocks bc)) = set (bc_blocks bc)"
    by (metis append_take_drop_id set_append)
  moreover have "set (take d (bc_blocks bc)) \<inter> set (drop d (bc_blocks bc)) = {}"
    using ok by (simp add: store_ok_def set_take_disj_set_drop_if_distinct)
  ultimately show ?thesis
    using ok d unfolding store_ok_def file_ok_def bc_invar_def aligned_def by auto
qed

text \<open>A file whose blocks reach past the written range: the bytes afterwards.\<close>

lemma write_loop_content:
  assumes B: "B = 2 ^ k" and ok: "file_ok B f" and fit: "offset + length buf \<le> f_size f"
  obtains m' where "write_loop B (f_blocks f) offset buf m = Some m'"
    and "content B f m' = take offset (content B f m) @ buf @ drop (offset + length buf) (content B f m)"
    and "\<And>x. (\<And>b. b \<in> set (f_blocks f) \<Longrightarrow> x < b \<or> b + B \<le> x) \<Longrightarrow> m' x = m x"
proof -
  have d: "distinct (f_blocks f)" "aligned B (f_blocks f)" using ok by (simp_all add: file_ok_def)
  have "offset + length buf \<le> B * length (f_blocks f)" using file_ok_cover [OF B ok] fit by simp
  from write_loop_bytes [OF B d this, of m] obtain m' where
    w: "write_loop B (f_blocks f) offset buf m = Some m'"
    and new: "\<forall>j<length buf. m' (addr B (f_blocks f) (offset + j)) = buf ! j"
    and old: "\<forall>x. (\<forall>j<length buf. x \<noteq> addr B (f_blocks f) (offset + j)) \<longrightarrow> m' x = m x" by blast
  have out: "m' (addr B (f_blocks f) i) = m (addr B (f_blocks f) i)"
    if "i < f_size f" "i < offset \<or> offset + length buf \<le> i" for i
  proof -
    have "addr B (f_blocks f) i \<noteq> addr B (f_blocks f) (offset + j)" if j: "j < length buf" for j
    proof -
      have "i < B * length (f_blocks f)" "offset + j < B * length (f_blocks f)"
        using file_ok_cover [OF B ok] fit \<open>i < f_size f\<close> j by linarith+
      from addr_inj [OF B d this] show ?thesis using \<open>i < offset \<or> _\<close> j by auto
    qed
    with old show ?thesis by blast
  qed
  have "content B f m' = take offset (content B f m) @ buf @ drop (offset + length buf) (content B f m)"
  proof (rule nth_equalityI)
    show "length (content B f m') = length (take offset (content B f m) @ buf @ drop (offset + length buf) (content B f m))"
      using fit by simp
    fix i assume "i < length (content B f m')"
    then have i: "i < f_size f" by simp
    show "content B f m' ! i = (take offset (content B f m) @ buf @ drop (offset + length buf) (content B f m)) ! i"
    proof (cases "offset \<le> i \<and> i < offset + length buf")
      case True
      then have "i - offset < length buf" by arith
      then have "m' (addr B (f_blocks f) (offset + (i - offset))) = buf ! (i - offset)" using new by blast
      with True i \<open>i - offset < length buf\<close> show ?thesis by (simp add: nth_append nth_content)
    next
      case False
      with out [OF i] i show ?thesis by (auto simp: nth_append nth_content)
    qed
  qed
  moreover have "m' x = m x" if x: "\<And>b. b \<in> set (f_blocks f) \<Longrightarrow> x < b \<or> b + B \<le> x" for x
  proof -
    have "x \<noteq> addr B (f_blocks f) (offset + j)" if "j < length buf" for j
    proof -
      have "offset + j < B * length (f_blocks f)" using file_ok_cover [OF B ok] fit that by linarith
      then have "f_blocks f ! ((offset + j) div B) \<in> set (f_blocks f)" using block_index [OF B] by simp
      moreover have "(offset + j) mod B < B" using B by simp
      ultimately show ?thesis using x by (force simp: addr_def)
    qed
    with old show ?thesis by blast
  qed
  ultimately show thesis using that w by blast
qed

lemma content_grown:
  assumes B: "B = 2 ^ k" and ok: "file_ok B f" and "f_size f \<le> n"
  shows "take (f_size f) (content B (f\<lparr>f_blocks := f_blocks f @ bs, f_size := n\<rparr>) m) = content B f m"
proof (rule nth_equalityI)
  fix i assume "i < length (take (f_size f) (content B (f\<lparr>f_blocks := f_blocks f @ bs, f_size := n\<rparr>) m))"
  then have i: "i < f_size f" by simp
  then have "i div B < length (f_blocks f)"
    using block_index [OF B] file_ok_cover [OF B ok] by simp
  then show "take (f_size f) (content B (f\<lparr>f_blocks := f_blocks f @ bs, f_size := n\<rparr>) m) ! i = content B f m ! i"
    using i assms(3) by (simp add: nth_content addr_def nth_append)
qed (use assms(3) in simp)

lemma File_grow_enough:
  assumes B: "B = 2 ^ k" and ok: "store_ok B f bc" and n: "f_size f \<le> n" "n < 2 ^ 64"
    and enough: "blocks_for B n \<le> length (f_blocks f) + length (bc_blocks bc)"
  obtains g bc' where "File_grow B n f bc = Some (0, g, bc')" "store_ok B (g\<lparr>f_size := n\<rparr>) bc'"
    and "\<And>m. take (f_size f) (content B (g\<lparr>f_size := n\<rparr>) m) = content B f m"
    and "mset (f_blocks g) + mset (bc_blocks bc') = mset (f_blocks f) + mset (bc_blocks bc)"
    and "f_orphans g = f_orphans f"
proof -
  define d where "d = blocks_for B n - length (f_blocks f)"
  have d: "d \<le> length (bc_blocks bc)" using enough by (simp add: d_def)
  let ?g = "f\<lparr>f_blocks := f_blocks f @ take d (bc_blocks bc)\<rparr>"
  let ?bc = "bc\<lparr>bc_blocks := drop d (bc_blocks bc), bc_free := bc_free bc - d\<rparr>"
  show thesis
  proof (rule that)
    show "File_grow B n f bc = Some (0, ?g, ?bc)"
      unfolding File_grow_cases [OF B ok n] d_def [symmetric] using d by simp
    show "store_ok B (?g\<lparr>f_size := n\<rparr>) ?bc"
      using store_ok_grown [OF B ok n(1) d [unfolded d_def]] unfolding d_def [symmetric] by simp
    have "file_ok B f" using ok by (simp add: store_ok_def)
    from content_grown [OF B this n(1)]
    show "take (f_size f) (content B (?g\<lparr>f_size := n\<rparr>) m) = content B f m" for m by simp
    have "mset (take d (bc_blocks bc)) + mset (drop d (bc_blocks bc)) = mset (bc_blocks bc)"
      by (metis append_take_drop_id mset_append)
    then show "mset (f_blocks ?g) + mset (bc_blocks ?bc) = mset (f_blocks f) + mset (bc_blocks bc)"
      by (simp add: union_ac)
  qed simp
qed

lemma File_write_in_place:
  assumes "buf \<noteq> []" "offset + length buf \<le> f_size f" "offset + length buf < 2 ^ 64"
    and "write_loop B (f_blocks f) offset buf m = Some m'"
  shows "File_write B buf offset f bc m = Some (int (length buf), f, bc, m')"
  using assms by (simp add: File_write_def Let_def)

lemma File_write_growing:
  assumes "buf \<noteq> []" "f_size f < offset + length buf" "offset + length buf < 2 ^ 64"
    and "File_grow B (offset + length buf) f bc = Some (0, f', bc')"
    and "write_loop B (f_blocks f') offset buf m = Some m'"
  shows "File_write B buf offset f bc m = Some (int (length buf), f'\<lparr>f_size := offset + length buf\<rparr>, bc', m')"
  using assms by (simp add: File_write_def Let_def)

lemma File_write_short:
  assumes "buf \<noteq> []" "f_size f < offset + length buf" "offset + length buf < 2 ^ 64"
    and "File_grow B (offset + length buf) f bc = Some (- ENOSPC, f, bc)"
  shows "File_write B buf offset f bc m = Some (- ENOSPC, f\<lparr>f_size := offset + length buf\<rparr>, bc, m)"
  using assms by (simp add: File_write_def Let_def ENOSPC_def)

lemma File_write_content:
  assumes B: "B = 2 ^ k" and ok: "store_ok B f bc" and buf: "buf \<noteq> []" "offset + length buf < 2 ^ 64"
    and enough: "blocks_for B (max (f_size f) (offset + length buf)) \<le> length (f_blocks f) + length (bc_blocks bc)"
  shows "\<exists>f' bc' m' gap. File_write B buf offset f bc m = Some (int (length buf), f', bc', m')
     \<and> store_ok B f' bc' \<and> length gap = offset - f_size f
     \<and> content B f' m' = take offset (content B f m) @ gap @ buf @ drop (offset + length buf) (content B f m)
     \<and> (\<forall>x. (\<forall>b\<in>set (f_blocks f'). x < b \<or> b + B \<le> x) \<longrightarrow> m' x = m x)"
proof (cases "offset + length buf \<le> f_size f")
  case True
  have fo: "file_ok B f" using ok by (simp add: store_ok_def)
  from write_loop_content [OF B fo True, of m] obtain m' where
    m': "write_loop B (f_blocks f) offset buf m = Some m'"
    "content B f m' = take offset (content B f m) @ buf @ drop (offset + length buf) (content B f m)"
    "\<And>x. (\<And>b. b \<in> set (f_blocks f) \<Longrightarrow> x < b \<or> b + B \<le> x) \<Longrightarrow> m' x = m x" by blast
  show ?thesis
    using File_write_in_place [OF buf(1) True buf(2) m'(1), of bc] m'(2,3) ok True
    by (intro exI [of _ f] exI [of _ bc] exI [of _ m'] exI [of _ "[]"]) auto
next
  case False
  define n where "n = offset + length buf"
  have n: "f_size f \<le> n" "f_size f < n" "n < 2 ^ 64" using False buf(2) by (simp_all add: n_def)
  obtain g bc' where g: "File_grow B n f bc = Some (0, g, bc')" "store_ok B (g\<lparr>f_size := n\<rparr>) bc'"
    "take (f_size f) (content B (g\<lparr>f_size := n\<rparr>) m) = content B f m"
  proof -
    have "blocks_for B n \<le> length (f_blocks f) + length (bc_blocks bc)"
      using enough n(1) by (simp add: n_def max_def)
    from File_grow_enough [OF B ok n(1,3) this] show thesis using that by blast
  qed
  define f' where "f' = g\<lparr>f_size := n\<rparr>"
  have fo': "file_ok B f'" and ok': "store_ok B f' bc'" and pre: "take (f_size f) (content B f' m) = content B f m"
    using g(2,3) by (simp_all add: store_ok_def f'_def)
  have fit: "offset + length buf \<le> f_size f'" by (simp add: f'_def n_def)
  from write_loop_content [OF B fo' fit, of m] obtain m' where
    m': "write_loop B (f_blocks f') offset buf m = Some m'"
    "content B f' m' = take offset (content B f' m) @ buf @ drop (offset + length buf) (content B f' m)"
    "\<And>x. (\<And>b. b \<in> set (f_blocks f') \<Longrightarrow> x < b \<or> b + B \<le> x) \<Longrightarrow> m' x = m x" by blast
  define gap where "gap = drop (f_size f) (take offset (content B f' m))"
  have "take offset (content B f' m) = take (f_size f) (take offset (content B f' m)) @ gap"
    unfolding gap_def by (rule append_take_drop_id [symmetric])
  also have "take (f_size f) (take offset (content B f' m)) = take offset (content B f m)"
    unfolding pre [symmetric] by (simp add: min.commute)
  finally have "content B f' m' = take offset (content B f m) @ gap @ buf @ drop (offset + length buf) (content B f m)"
    using m'(2) False by (simp add: f'_def n_def)
  moreover have "File_write B buf offset f bc m = Some (int (length buf), f', bc', m')"
    using File_write_growing [OF buf(1) n(2) [unfolded n_def] buf(2) g(1) [unfolded n_def]] m'(1)
    by (simp add: f'_def n_def)
  moreover have "length gap = offset - f_size f" by (simp add: gap_def f'_def n_def)
  moreover have "\<forall>x. (\<forall>b\<in>set (f_blocks f'). x < b \<or> b + B \<le> x) \<longrightarrow> m' x = m x" using m'(3) by blast
  ultimately show ?thesis using ok' by blast
qed

text \<open>C2. A write that finds enough blocks returns the number of bytes and keeps the store well formed.
  The file's new content is the old one with the buffer written over it, after a gap when the offset
  lies beyond the old end; bytes outside the file's blocks keep their value.  Reading any range of the
  file then yields exactly that part of the new content.\<close>

theorem file_write_read:
  assumes B: "B = 2 ^ k" and ok: "store_ok B f bc" and buf: "buf \<noteq> []" "offset + length buf < 2 ^ 64"
    and enough: "blocks_for B (max (f_size f) (offset + length buf)) \<le> length (f_blocks f) + length (bc_blocks bc)"
  shows "\<exists>f' bc' m' gap. File_write B buf offset f bc m = Some (int (length buf), f', bc', m')
     \<and> store_ok B f' bc' \<and> length gap = offset - f_size f
     \<and> content B f' m' = take offset (content B f m) @ gap @ buf @ drop (offset + length buf) (content B f m)
     \<and> (\<forall>x. (\<forall>b\<in>set (f_blocks f'). x < b \<or> b + B \<le> x) \<longrightarrow> m' x = m x)
     \<and> (\<forall>pos cnt. pos + cnt < 2 ^ 64 \<longrightarrow> File_read B f' m' cnt pos = Some (take cnt (drop pos (content B f' m'))))"
proof -
  from File_write_content [OF assms, of m] obtain f' bc' m' gap where
    w: "File_write B buf offset f bc m = Some (int (length buf), f', bc', m')" "store_ok B f' bc'"
    "length gap = offset - f_size f"
    "content B f' m' = take offset (content B f m) @ gap @ buf @ drop (offset + length buf) (content B f m)"
    "\<forall>x. (\<forall>b\<in>set (f_blocks f'). x < b \<or> b + B \<le> x) \<longrightarrow> m' x = m x" by blast
  moreover have "file_ok B f'" using w(2) by (simp add: store_ok_def)
  ultimately show ?thesis using File_read_content [OF B] by blast
qed

lemma blocks_for_4_5: "blocks_for 4 5 = 2"
  by (simp add: blocks_for_def)

lemma length_5: "length [a, b, c, d, e] = 5"
  by simp

theorem file_write_read_witness:
  "\<exists>f' bc' m'. File_write 4 [7, 8, 9, 10, 11] 0 File_new \<lparr>bc_blocks = [4, 8, 12], bc_free = 3\<rparr> (\<lambda>_. 0)
       = Some (5, f', bc', m')
     \<and> store_ok 4 f' bc' \<and> content 4 f' m' = [7, 8, 9, 10, 11]
     \<and> File_read 4 f' m' 10 3 = Some [10, 11]"
proof -
  let ?bc = "\<lparr>bc_blocks = [4, 8, 12], bc_free = 3\<rparr>"
  have ok: "store_ok 4 File_new ?bc"
    by (simp add: store_ok_def file_ok_def File_new_def bc_invar_def aligned_def blocks_for_def)
  have "0 + (5 :: nat) < 2 ^ 64" "[7, 8, 9, 10, 11] \<noteq> ([] :: u8 list)"
    "blocks_for 4 (max (f_size File_new) (0 + 5)) \<le> length (f_blocks File_new) + length (bc_blocks ?bc)"
    by (simp_all add: File_new_def blocks_for_4_5)
  from file_write_read [of 4 2, unfolded length_5, OF _ ok this(2), unfolded length_5, OF _ this(1,3), of "\<lambda>_. 0"]
  obtain f' bc' m' where w:
    "File_write 4 [7, 8, 9, 10, 11] 0 File_new ?bc (\<lambda>_. 0) = Some (5, f', bc', m')"
    "store_ok 4 f' bc'" "content 4 f' m' = [7, 8, 9, 10, 11]"
    "\<forall>pos cnt. pos + cnt < 2 ^ 64 \<longrightarrow> File_read 4 f' m' cnt pos = Some (take cnt (drop pos (content 4 f' m')))"
    by (auto simp: File_new_def content_def)
  have "File_read 4 f' m' 10 3 = Some (take 10 (drop 3 (content 4 f' m')))"
    by (rule w(4) [rule_format]) simp
  with w show ?thesis by (intro exI [of _ f'] exI [of _ bc'] exI [of _ m']) simp
qed

text \<open>C15. When the blocks run out a write returns \<^verbatim>\<open>-ENOSPC\<close> without touching the memory or the cache, but it
  has raised the size of the file before: a read of the range then indexes past the file's blocks.\<close>

theorem file_write_enospc_breaks_read:
  assumes B: "B = 2 ^ k" and ok: "store_ok B f bc" and buf: "buf \<noteq> []" "offset + length buf < 2 ^ 64"
    and short: "length (f_blocks f) + length (bc_blocks bc) < blocks_for B (max (f_size f) (offset + length buf))"
  shows "\<exists>f'. File_write B buf offset f bc m = Some (- ENOSPC, f', bc, m)
     \<and> f_blocks f' = f_blocks f \<and> f_size f' = offset + length buf
     \<and> File_read B f' m' 1 (offset + length buf - 1) = None"
proof -
  let ?n = "offset + length buf"
  have sz: "f_size f < ?n"
  proof (rule ccontr)
    assume "\<not> f_size f < ?n"
    then have "max (f_size f) ?n = f_size f" by simp
    then show False using short ok by (simp add: store_ok_def file_ok_def)
  qed
  then have short': "\<not> blocks_for B ?n - length (f_blocks f) \<le> length (bc_blocks bc)"
    using short by (simp add: max_def)
  have g: "File_grow B ?n f bc = Some (- ENOSPC, f, bc)"
    unfolding File_grow_cases [OF B ok less_imp_le [OF sz] buf(2)] using short' by simp
  have "B * length (f_blocks f) < ?n"
  proof (rule ccontr)
    assume "\<not> B * length (f_blocks f) < ?n"
    then have "blocks_for B ?n \<le> length (f_blocks f)" by (intro blocks_for_least [OF B]) simp
    with short' show False by simp
  qed
  then have "B * length (f_blocks f) div B \<le> (?n - 1) div B" by (intro div_le_mono) simp
  moreover have "0 < B" using B by simp
  ultimately have "length (f_blocks f) \<le> (?n - 1) div B" by (simp only: nonzero_mult_div_cancel_left)
  then have "read_loop B (f_blocks f) m' (?n - 1) 1 = None"
    by (subst read_loop.simps) (simp add: Let_def)
  then have "File_read B (f\<lparr>f_size := ?n\<rparr>) m' 1 (?n - 1) = None"
    using sz buf(2) by (simp add: File_read_def)
  with File_write_short [OF buf(1) sz buf(2) g, of m] show ?thesis by simp
qed

theorem file_write_enospc_breaks_read_witness:
  "\<exists>f'. File_write 4 [7, 8, 9, 10, 11] 0 File_new \<lparr>bc_blocks = [4], bc_free = 1\<rparr> (\<lambda>_. 0)
       = Some (- ENOSPC, f', \<lparr>bc_blocks = [4], bc_free = 1\<rparr>, \<lambda>_. 0)
     \<and> f_size f' = 5 \<and> File_read 4 f' (\<lambda>_. 0) 1 4 = None"
proof -
  let ?bc = "\<lparr>bc_blocks = [4], bc_free = 1\<rparr>"
  have ok: "store_ok 4 File_new ?bc"
    by (simp add: store_ok_def file_ok_def File_new_def bc_invar_def aligned_def blocks_for_def)
  have "0 + (5 :: nat) < 2 ^ 64" "[7, 8, 9, 10, 11] \<noteq> ([] :: u8 list)"
    "length (f_blocks File_new) + length (bc_blocks ?bc) < blocks_for 4 (max (f_size File_new) (0 + 5))"
    by (simp_all add: File_new_def blocks_for_4_5)
  from file_write_enospc_breaks_read [of 4 2, unfolded length_5, OF _ ok this(2), unfolded length_5,
      OF _ this(1,3), of "\<lambda>_. 0" "\<lambda>_. 0"]
  show ?thesis by auto
qed

lemma File_shrink_enough:
  assumes B: "B = 2 ^ k" and ok: "store_ok B f bc" and n: "n \<le> f_size f"
    and len: "length (f_blocks f) < 2 ^ 64"
  defines "g \<equiv> f\<lparr>f_blocks := take (blocks_for B n) (f_blocks f),
                 f_orphans := f_orphans f @ drop (blocks_for B n) (f_blocks f)\<rparr>"
  shows "File_shrink B n f = Some (0, g)" "store_ok B (g\<lparr>f_size := n\<rparr>) bc"
    "content B (g\<lparr>f_size := n\<rparr>) m = take n (content B f m)"
    "mset (f_blocks g) + mset (f_orphans g) = mset (f_blocks f) + mset (f_orphans f)"
proof -
  let ?nr = "blocks_for B n"
  have nr: "?nr \<le> length (f_blocks f)"
    using blocks_for_mono [OF B n] ok by (simp add: store_ok_def file_ok_def)
  then show "File_shrink B n f = Some (0, g)"
    using len by (auto simp: File_shrink_def g_def Let_def)
  have sets: "set (f_blocks f) = set (take ?nr (f_blocks f)) \<union> set (drop ?nr (f_blocks f))"
    by (metis append_take_drop_id set_append)
  moreover have "set (take ?nr (f_blocks f)) \<inter> set (drop ?nr (f_blocks f)) = {}"
    using ok by (simp add: store_ok_def set_take_disj_set_drop_if_distinct)
  ultimately show "store_ok B (g\<lparr>f_size := n\<rparr>) bc"
    using ok nr unfolding store_ok_def file_ok_def aligned_def g_def by auto
  show "content B (g\<lparr>f_size := n\<rparr>) m = take n (content B f m)"
  proof (rule nth_equalityI)
    fix i assume "i < length (content B (g\<lparr>f_size := n\<rparr>) m)"
    then have i: "i < n" by simp
    then have "i div B < ?nr" using block_index [OF B] blocks_for_cover [OF B, of n] by simp
    then show "content B (g\<lparr>f_size := n\<rparr>) m ! i = take n (content B f m) ! i"
      using i n by (simp add: nth_content addr_def g_def)
  qed (use n in simp)
  have "mset (take ?nr (f_blocks f)) + mset (drop ?nr (f_blocks f)) = mset (f_blocks f)"
    by (metis append_take_drop_id mset_append)
  then show "mset (f_blocks g) + mset (f_orphans g) = mset (f_blocks f) + mset (f_orphans f)"
    by (simp add: g_def union_ac)
qed

text \<open>C14. Truncating to a size for which there are blocks succeeds and sets the size: the file keeps its bytes up to
  the smaller of the two sizes.  No block is lost: cutting moves the blocks behind the end to the orphans of
  the file and leaves the cache alone.\<close>

theorem file_truncate_keeps_prefix:
  assumes B: "B = 2 ^ k" and ok: "store_ok B f bc" and n: "f_size f < 2 ^ 64" "n < 2 ^ 64"
    and enough: "blocks_for B n \<le> length (f_blocks f) + length (bc_blocks bc)"
  shows "\<exists>f' bc'. File_truncate B n f bc = Some (0, f', bc') \<and> store_ok B f' bc' \<and> f_size f' = n
     \<and> (\<forall>m. take (f_size f) (content B f' m) = take n (content B f m))
     \<and> mset (f_blocks f' @ f_orphans f' @ bc_blocks bc') = mset (f_blocks f @ f_orphans f @ bc_blocks bc)
     \<and> (n \<le> f_size f \<longrightarrow> bc' = bc)"
proof (cases "n < f_size f")
  case True
  have "length (f_blocks f) < 2 ^ 64"
    using blocks_for_small [OF B n(1)] ok by (simp add: store_ok_def file_ok_def)
  note g = File_shrink_enough [OF B ok less_imp_le [OF True] this]
  show ?thesis
    using True g(1) g(2) g(3) g(4)
    by (simp add: File_truncate_def add.assoc [symmetric])
next
  case False
  then have le: "f_size f \<le> n" by simp
  from File_grow_enough [OF B ok le n(2) enough] obtain g bc' where
    g: "File_grow B n f bc = Some (0, g, bc')" "store_ok B (g\<lparr>f_size := n\<rparr>) bc'"
    "\<And>m. take (f_size f) (content B (g\<lparr>f_size := n\<rparr>) m) = content B f m"
    "mset (f_blocks g) + mset (bc_blocks bc') = mset (f_blocks f) + mset (bc_blocks bc)"
    "f_orphans g = f_orphans f" by blast
  show ?thesis
  proof (cases "n = f_size f")
    case True
    then have "f\<lparr>f_size := n\<rparr> = f" by simp
    with True ok show ?thesis by (simp add: File_truncate_def)
  next
    case False
    with le have "f_size f < n" by simp
    moreover have "mset (f_blocks g) + (mset (f_orphans f) + mset (bc_blocks bc'))
        = mset (f_blocks f) + (mset (f_orphans f) + mset (bc_blocks bc))"
      using g(4) by (metis union_lcomm)
    ultimately show ?thesis using g by (simp add: File_truncate_def)
  qed
qed

theorem file_truncate_keeps_prefix_witness:
  "\<exists>f' bc'. File_truncate 4 3 \<lparr>f_blocks = [8, 4], f_orphans = [], f_size = 5\<rparr> \<lparr>bc_blocks = [], bc_free = 0\<rparr>
       = Some (0, f', bc')
     \<and> store_ok 4 f' bc' \<and> f_size f' = 3 \<and> bc' = \<lparr>bc_blocks = [], bc_free = 0\<rparr>"
proof -
  have "store_ok 4 \<lparr>f_blocks = [8, 4], f_orphans = [], f_size = 5\<rparr> \<lparr>bc_blocks = [], bc_free = 0\<rparr>"
    by (simp add: store_ok_def file_ok_def bc_invar_def aligned_def blocks_for_4_5)
  from file_truncate_keeps_prefix [of 4 2, OF _ this, of 3] show ?thesis by (auto simp: blocks_for_def)
qed

section \<open>Blocks are conserved\<close>

text \<open>What a server does with a file between its creation and its deletion.\<close>

datatype file_op = Op_Write "u8 list" nat | Op_Truncate nat

fun file_step :: "nat \<Rightarrow> file_op \<Rightarrow> File \<times> BufferCache \<times> fs_mem \<Rightarrow> (File \<times> BufferCache \<times> fs_mem) option" where
  "file_step B (Op_Write buf offset) (f, bc, m) =
     map_option (\<lambda>(_, f, bc, m). (f, bc, m)) (File_write B buf offset f bc m)"
| "file_step B (Op_Truncate n) (f, bc, m) = map_option (\<lambda>(_, f, bc). (f, bc, m)) (File_truncate B n f bc)"

fun file_steps :: "nat \<Rightarrow> file_op list \<Rightarrow> File \<times> BufferCache \<times> fs_mem \<Rightarrow> (File \<times> BufferCache \<times> fs_mem) option" where
  "file_steps B [] s = Some s"
| "file_steps B (x # xs) s = Option.bind (file_step B x s) (file_steps B xs)"

definition file_pool :: "File \<Rightarrow> BufferCache \<Rightarrow> nat multiset" where
  "file_pool f bc = mset (f_blocks f) + mset (f_orphans f) + mset (bc_blocks bc)"

lemma file_pool_size [simp]: "file_pool (f\<lparr>f_size := n\<rparr>) bc = file_pool f bc"
  by (simp add: file_pool_def)

lemma File_grow_pool:
  assumes "bc_invar bc" "File_grow B n f bc = Some (r, f', bc')"
  shows "bc_invar bc' \<and> file_pool f' bc' = file_pool f bc"
proof -
  let ?d = "size_sub (blocks_for B n) (length (f_blocks f))"
  show ?thesis
  proof (cases "?d = 0")
    case True
    then show ?thesis using assms by (simp add: File_grow_def Let_def)
  next
    case False
    from bcache.get_total [OF assms(1)] obtain bs bc1 where g: "bc_get ?d bc = Some (bs, bc1)" "bc_invar bc1"
      by blast
    note c = bcache.get_conserves [OF assms(1) g(1)]
    show ?thesis
    proof (cases "length bs = ?d")
      case True
      then have "f' = f\<lparr>f_blocks := f_blocks f @ bs\<rparr>" "bc' = bc1"
        using assms(2) g(1) False by (auto simp: File_grow_def Let_def)
      then show ?thesis using g(2) c(1) by (simp add: file_pool_def union_ac)
    next
      case not: False
      then have "f' = f" "bc' = bc1"
        using assms(2) g(1) False by (auto simp: File_grow_def Let_def)
      moreover have "bc1 = bc" using c(2) not by simp
      ultimately show ?thesis using assms(1) by simp
    qed
  qed
qed

lemma File_shrink_pool:
  assumes "File_shrink B n f = Some (r, f')"
  shows "file_pool f' bc = file_pool f bc"
proof -
  have "mset (take k (f_blocks f)) + mset (drop k (f_blocks f)) = mset (f_blocks f)" for k
    by (metis append_take_drop_id mset_append)
  then have "file_pool (f\<lparr>f_blocks := take k (f_blocks f), f_orphans := f_orphans f @ drop k (f_blocks f)\<rparr>) bc
      = file_pool f bc" for k
    unfolding file_pool_def by (simp add: union_ac)
  then show ?thesis using assms by (auto simp: File_shrink_def Let_def split: if_splits)
qed

lemma file_step_pool:
  assumes "bc_invar bc" "file_step B x (f, bc, m) = Some (f', bc', m')"
  shows "bc_invar bc' \<and> file_pool f' bc' = file_pool f bc"
proof (cases x)
  case (Op_Write buf offset)
  with assms File_grow_pool [OF assms(1)] show ?thesis
    by (fastforce simp: File_write_def Let_def split: if_splits bind_splits)
next
  case (Op_Truncate n)
  with assms File_grow_pool [OF assms(1)] File_shrink_pool [of B n f] show ?thesis
    by (fastforce simp: File_truncate_def split: if_splits bind_splits)
qed

lemma file_steps_pool:
  assumes "bc_invar bc" "file_steps B ops (f, bc, m) = Some (f', bc', m')"
  shows "bc_invar bc' \<and> file_pool f' bc' = file_pool f bc"
  using assms
proof (induction ops arbitrary: f bc m)
  case (Cons x xs)
  from Cons.prems(2) obtain f1 bc1 m1 where s: "file_step B x (f, bc, m) = Some (f1, bc1, m1)"
    "file_steps B xs (f1, bc1, m1) = Some (f', bc', m')" by (auto split: bind_splits)
  from file_step_pool [OF Cons.prems(1) s(1)] Cons.IH [OF _ s(2)] show ?case by simp
qed simp

lemma File_delete_pool:
  assumes "bc_invar bc" "size (file_pool f bc) < 2 ^ 64"
  shows "bc_invar (File_delete f bc) \<and> mset (bc_blocks (File_delete f bc)) = file_pool f bc"
proof -
  have len: "length (f_blocks f) + length (bc_blocks bc) < 2 ^ 64"
    "length (f_orphans f) + length (f_blocks f @ bc_blocks bc) < 2 ^ 64"
    using assms(2) by (simp_all add: file_pool_def)
  note p = bcache.put_law [OF assms(1) len(1)]
  note q = bcache.put_law [OF conjunct1 [OF p], of "f_orphans f"]
  from p q len show ?thesis by (simp add: File_delete_def file_pool_def union_ac)
qed

text \<open>C11. Whatever is done with a file, successful or not, no block is lost or handed out twice: when the file is deleted the
  cache holds exactly the blocks it had before the file was created, and its count of free blocks is exact.\<close>

theorem file_blocks_conserved:
  assumes "bc_invar bc" "file_steps B ops (File_new, bc, m) = Some (f, bc', m')"
  shows "bc_invar (File_delete f bc') \<and> mset (bc_blocks (File_delete f bc')) = mset (bc_blocks bc)"
proof -
  have new: "file_pool File_new bc = mset (bc_blocks bc)" by (simp add: file_pool_def File_new_def)
  have s: "bc_invar bc'" "file_pool f bc' = mset (bc_blocks bc)"
    using file_steps_pool [OF assms] new by simp_all
  moreover have "size (file_pool f bc') < 2 ^ 64" using assms(1) s(2) by (simp add: bc_invar_def)
  ultimately show ?thesis using File_delete_pool by metis
qed

theorem file_blocks_conserved_witness:
  "\<exists>f bc' m'. file_steps 4 [Op_Write [7, 8, 9, 10, 11] 0, Op_Truncate 2, Op_Write [1] 100]
       (File_new, \<lparr>bc_blocks = [4, 8, 12], bc_free = 3\<rparr>, \<lambda>_. 0) = Some (f, bc', m')
     \<and> mset (bc_blocks (File_delete f bc')) = {#4, 8, 12#}"
proof -
  let ?bc = "\<lparr>bc_blocks = [4, 8, 12], bc_free = 3\<rparr>"
  have "\<exists>f bc' m'. file_steps 4 [Op_Write [7, 8, 9, 10, 11] 0, Op_Truncate 2, Op_Write [1] 100] (File_new, ?bc, \<lambda>_. 0)
      = Some (f, bc', m')"
    by (simp add: File_write_def File_truncate_def File_grow_def File_shrink_def bc_get_def File_new_def
        blocks_for_def write_loop.simps Let_def ENOSPC_def)
  then obtain f bc' m' where w: "file_steps 4 [Op_Write [7, 8, 9, 10, 11] 0, Op_Truncate 2, Op_Write [1] 100]
      (File_new, ?bc, \<lambda>_. 0) = Some (f, bc', m')" by blast
  moreover have "bc_invar ?bc" by (simp add: bc_invar_def)
  from file_blocks_conserved [OF this w] have "mset (bc_blocks (File_delete f bc')) = {#4, 8, 12#}" by simp
  ultimately show ?thesis by blast
qed

section \<open>The partition of the memory\<close>

lemma c_int_nat: "n < 2 ^ 31 \<Longrightarrow> c_int (int n) = int n"
  by (rule c_int_id) auto

lemma nat_mod_u64: "n < 2 ^ 64 \<Longrightarrow> nat (int n mod 2 ^ 64) = n"
  by (simp add: nat_mod_distrib)

lemma int_less_2_31: "n < 2 ^ 31 \<Longrightarrow> int n < 2 ^ 31"
  by simp

lemma region_blocks_upt:
  "0 < B \<Longrightarrow> region_blocks B (B * i) (B * j) = map (\<lambda>q. B * q) [i..<j]"
proof (induction "j - i" arbitrary: i)
  case 0
  then show ?case by (subst region_blocks.simps) simp
next
  case (Suc d)
  then have "i < j" "d = j - Suc i" by simp_all
  with Suc have "region_blocks B (B * Suc i) (B * j) = map (\<lambda>q. B * q) [Suc i..<j]" by blast
  with \<open>i < j\<close> Suc(3) show ?case by (subst region_blocks.simps) (simp add: upt_conv_Cons add.commute)
qed

lemma BufferCache_new_blocks:
  assumes "0 < B" "M div N = B * p" "i < N" "N * (B * p) < 2 ^ 31"
  shows "BufferCache_new M B N (int i) = Some \<lparr>bc_blocks = map (\<lambda>q. B * q) [i * p..<(i + 1) * p], bc_free = p\<rparr>"
proof -
  let ?P = "B * p"
  have lt: "(i + 1) * ?P < 2 ^ 31"
    using mult_le_mono1 [of "i + 1" N ?P] assms(3,4) by linarith
  then have "i * ?P < 2 ^ 31" "?P < 2 ^ 31" by (auto simp: algebra_simps)
  then have c: "c_int (int ?P) = int ?P" by (intro c_int_nat)
  have r: "region_blocks B (i * ?P) ((i + 1) * ?P) = map (\<lambda>q. B * q) [i * p..<(i + 1) * p]"
    using region_blocks_upt [OF assms(1), of "i * p" "(i + 1) * p"] by (simp add: ac_simps)
  have f: "M div (B * N) = p" using assms(1,2) by (simp add: mult.commute [of B] div_mult2_eq)
  have e: "int i * int ?P = int (i * ?P)" "(int i + 1) * int ?P = int ((i + 1) * ?P)"
    by (simp_all add: algebra_simps)
  have "nat (int i * int ?P mod 2 ^ 64) = i * ?P" "nat ((int i + 1) * int ?P mod 2 ^ 64) = (i + 1) * ?P"
    unfolding e by (rule nat_mod_u64, use lt in simp)+
  moreover have "\<not> 2 ^ 31 \<le> \<bar>int i * int ?P\<bar>" "\<not> 2 ^ 31 \<le> \<bar>(int i + 1) * int ?P\<bar>"
    unfolding e abs_of_nat not_le by (rule int_less_2_31, use lt in simp)+
  moreover have "N \<noteq> 0" "B \<noteq> 0" using assms(1,3) by simp_all
  ultimately show ?thesis
    unfolding BufferCache_new_def Let_def assms(2) c f by (simp only: r if_False simp_thms)
qed

text \<open>C13. When a partition is a whole number of blocks and the memory fits an \<^verbatim>\<open>int\<close>, the caches of the servers
  partition the memory: each holds an exact count of distinct, aligned blocks inside the memory, and no
  block belongs to two servers.\<close>

theorem buffer_caches_partition:
  assumes "0 < B" "B dvd M div N" "M < 2 ^ 31" "i < N" "j < N" "i \<noteq> j"
  shows "\<exists>bi bj. BufferCache_new M B N (int i) = Some bi \<and> BufferCache_new M B N (int j) = Some bj
     \<and> bc_invar bi \<and> distinct (bc_blocks bi @ bc_blocks bj) \<and> aligned B (bc_blocks bi)
     \<and> (\<forall>b\<in>set (bc_blocks bi). b + B \<le> M)"
proof -
  from assms(2) obtain p where p: "M div N = B * p" by (elim dvdE)
  have NP: "N * (B * p) \<le> M" unfolding p [symmetric] by simp
  then have lt: "N * (B * p) < 2 ^ 31" using assms(3) by simp
  let ?bc = "\<lambda>i. \<lparr>bc_blocks = map (\<lambda>q. B * q) [i * p..<(i + 1) * p], bc_free = p\<rparr>"
  have new: "BufferCache_new M B N (int x) = Some (?bc x)" if "x < N" for x
    by (rule BufferCache_new_blocks [OF assms(1) p that lt])
  have dis: "{i * p..<(i + 1) * p} \<inter> {j * p..<(j + 1) * p} = {}"
  proof (cases "i < j")
    case True
    then have "(i + 1) * p \<le> j * p" by (intro mult_le_mono1) simp
    then show ?thesis by auto
  next
    case False
    then have "(j + 1) * p \<le> i * p" using assms(6) by (intro mult_le_mono1) simp
    then show ?thesis by auto
  qed
  have inj: "inj_on (\<lambda>q. B * q) S" for S using assms(1) by (auto simp: inj_on_def)
  have d: "distinct (bc_blocks (?bc i) @ bc_blocks (?bc j))"
    using dis inj [of "{i * p..<(i + 1) * p} \<union> {j * p..<(j + 1) * p}"] assms(1)
    by (auto simp: distinct_map inj)
  have "p \<le> N * (B * p)" using assms(1,4) by (cases N; cases B) auto
  then have "p < 2 ^ 31" using lt by (rule le_less_trans)
  then have inv: "bc_invar (?bc i)" by (simp add: bc_invar_def)
  have "B * q + B \<le> M" if "q < (i + 1) * p" for q
  proof -
    have "B * q + B \<le> B * ((i + 1) * p)" using that mult_le_mono2 [of "q + 1" "(i + 1) * p" B] by simp
    also have "\<dots> \<le> N * (B * p)" using mult_le_mono1 [of "i + 1" N "B * p"] assms(4) by (simp add: ac_simps)
    finally show ?thesis using NP by simp
  qed
  then have "\<forall>b\<in>set (bc_blocks (?bc i)). b + B \<le> M" by auto
  moreover have "aligned B (bc_blocks (?bc i))" by (simp add: aligned_def)
  ultimately show ?thesis using new [OF assms(4)] new [OF assms(5)] d inv by blast
qed

theorem buffer_caches_partition_witness:
  "\<exists>bi bj. BufferCache_new 32 4 2 0 = Some bi \<and> BufferCache_new 32 4 2 1 = Some bj
     \<and> bc_invar bi \<and> distinct (bc_blocks bi @ bc_blocks bj)"
  using buffer_caches_partition [of 4 32 2 0 1] by auto

end
