(* ===== verification/Fs_Types.thy ===== *)
theory Fs_Types
  imports Fs_File "HOL-Library.AList"
begin

text \<open>
  What the file-system servers and their clients share (\<open>sys/fs/include/fs.h\<close>): inodes, file types,
  the hash that distributes directory entries over the servers; and the objects of a server
  (\<open>sys/fs/file.hpp\<close>, \<open>file.cpp\<close>): virtual files with their attributes, directories, pipes and
  symbolic links.

  The build's configuration is a record \<open>FsConf\<close>; what an operation takes from its surroundings (the
  clocks, the cycle counter, \<^verbatim>\<open>rand()\<close>, the address of a new object, the channels that the applications
  have closed) is a record \<open>FsEnv\<close>.
\<close>

unbundle bit_operations_syntax

section \<open>Configuration and surroundings\<close>

record FsConf =
  cf_block_size :: nat
  cf_memory_size :: nat
  cf_server_count :: nat
  cf_max_fname_len :: nat
  cf_hardware_khz :: nat
  cf_directory_cache :: bool
  cf_directory_distribution :: bool
  cf_show_ops :: bool

text \<open>A \<^verbatim>\<open>struct timespec\<close>: seconds and nanoseconds.\<close>

type_synonym timespec = "int \<times> int"

record FsEnv =
  en_coarse :: timespec
  en_now :: timespec
  en_tsc :: nat
  en_start :: nat
  en_stop :: nat
  en_rand :: nat
  en_rand2 :: nat
  en_loc :: nat
  en_closed :: "nat \<Rightarrow> bool"

section \<open>Inodes and their distribution\<close>

datatype FileType = TYPE_FILE | TYPE_DIR | TYPE_SYMLINK | TYPE_PIPE | TYPE_DIR_SHARED

fun type_bits :: "FileType \<Rightarrow> nat" where
  "type_bits TYPE_FILE = 32768"
| "type_bits TYPE_DIR = 16384"
| "type_bits TYPE_SYMLINK = 40960"
| "type_bits TYPE_PIPE = 4096"
| "type_bits TYPE_DIR_SHARED = 24576"

record Inode =
  ino_server :: int
  ino_id :: nat

record InodeType = Inode +
  ino_type :: FileType

abbreviation InodeOnly :: "InodeType \<Rightarrow> Inode" where
  "InodeOnly \<equiv> Inode.truncate"

definition O_WRONLY :: u32 where "O_WRONLY = 1"
definition O_RDWR :: u32 where "O_RDWR = 2"
definition O_CREAT :: u32 where "O_CREAT = 64"
definition O_EXCL :: u32 where "O_EXCL = 128"
definition O_TRUNC :: u32 where "O_TRUNC = 512"
definition O_APPEND :: u32 where "O_APPEND = 1024"
definition O_DIRECTORY :: u32 where "O_DIRECTORY = 65536"
definition S_ISSHR :: u32 where "S_ISSHR = 512"

definition INODE_MASK :: nat where "INODE_MASK = 0x3FFFFFF"
definition INODE_SHIFT :: nat where "INODE_SHIFT = 26"

definition CACHE_MODIFIED :: nat where "CACHE_MODIFIED = 0"
definition CACHE_EXCLUSIVE :: nat where "CACHE_EXCLUSIVE = 1"
definition CACHE_SHARED :: nat where "CACHE_SHARED = 2"
definition CACHE_INVALID :: nat where "CACHE_INVALID = 3"

definition RMDIR_TRY :: int where "RMDIR_TRY = 0"
definition RMDIR_FAIL :: int where "RMDIR_FAIL = 1"
definition RMDIR_SUCCESS :: int where "RMDIR_SUCCESS = 2"
definition RMDIR_FORCE :: int where "RMDIR_FORCE = 3"
definition RMDIR_AND_MAP :: int where "RMDIR_AND_MAP = 4"

lemmas rmdir_defs = RMDIR_TRY_def RMDIR_FAIL_def RMDIR_SUCCESS_def RMDIR_FORCE_def RMDIR_AND_MAP_def

text \<open>The checksum of a sequence of (signed) characters, from position \<open>i\<close> on.\<close>

fun crc_loop :: "nat \<Rightarrow> u32 \<Rightarrow> u8 list \<Rightarrow> u32" where
  "crc_loop i chk [] = chk"
| "crc_loop i chk (b # bs) = crc_loop (i + 1) (chk + scast b * of_nat (i + 1)) bs"

definition getCRC :: "u32 \<Rightarrow> u8 list \<Rightarrow> u32" where
  "getCRC init data = crc_loop 0 (if init \<noteq> 0 then init else 0x12395679) data"

text \<open>The bytes of a 64-bit number in memory, and of a string.\<close>

definition id_bytes :: "nat \<Rightarrow> u8 list" where
  "id_bytes fid = map (\<lambda>k. of_nat (fid div 256 ^ k)) [0..<8]"

definition path_bytes :: "string \<Rightarrow> u8 list" where
  "path_bytes path = map of_char path"

definition fosPathHashn :: "nat \<Rightarrow> string \<Rightarrow> u32" where
  "fosPathHashn fid path = getCRC (getCRC 0 (id_bytes fid)) (path_bytes path)"

definition fosPathHashDirect :: "nat \<Rightarrow> string \<Rightarrow> nat" where
  "fosPathHashDirect n path = unat (fosPathHashn 0 path) mod n"

definition fosPathOwnern :: "nat \<Rightarrow> InodeType \<Rightarrow> string \<Rightarrow> int option" where
  "fosPathOwnern n inode path =
     (if ino_id inode = 0 \<and> (path = '''' \<or> path = ''..'') then Some 0
      else if ino_type inode = TYPE_DIR_SHARED
      then Some (if n > 1 then int (unat (fosPathHashn (ino_id inode) path) mod n) else 0)
      else if ino_type inode = TYPE_DIR then Some (ino_server inode)
      else None)"

definition fosPathOwner :: "nat \<Rightarrow> InodeType \<Rightarrow> string \<Rightarrow> int option" where
  "fosPathOwner n inode path = (if n > 1 then fosPathOwnern n inode path else Some 0)"

section \<open>Directory entries\<close>

text \<open>A \<^verbatim>\<open>VFileLoc\<close> is known by its address to the caches of the applications.\<close>

record VFileLoc =
  vl_addr :: nat
  vl_inode :: InodeType

definition vl_isDir :: "VFileLoc \<Rightarrow> bool" where
  "vl_isDir l \<longleftrightarrow> ino_type (vl_inode l) = TYPE_DIR \<or> ino_type (vl_inode l) = TYPE_DIR_SHARED"

definition vl_isFile :: "VFileLoc \<Rightarrow> bool" where
  "vl_isFile l \<longleftrightarrow> ino_type (vl_inode l) = TYPE_FILE"

definition vl_isSymlink :: "VFileLoc \<Rightarrow> bool" where
  "vl_isSymlink l \<longleftrightarrow> ino_type (vl_inode l) = TYPE_SYMLINK"

definition vl_isShared :: "VFileLoc \<Rightarrow> bool" where
  "vl_isShared l \<longleftrightarrow> ino_type (vl_inode l) = TYPE_DIR_SHARED"

text \<open>The children of a directory, in the order the hash map enumerates them.\<close>

type_synonym ChildMap = "(string \<times> VFileLoc) list"

definition addChild :: "nat \<Rightarrow> string \<Rightarrow> InodeType \<Rightarrow> ChildMap \<Rightarrow> ChildMap" where
  "addChild loc filename inode children =
     AList.update filename \<lparr>vl_addr = loc, vl_inode = inode\<rparr> children"

definition child_find :: "string \<Rightarrow> ChildMap \<Rightarrow> VFileLoc option" where
  "child_find needle children = map_of children needle"

definition child_erase :: "string \<Rightarrow> ChildMap \<Rightarrow> ChildMap" where
  "child_erase needle children = AList.delete needle children"

definition child_find_id :: "nat \<Rightarrow> ChildMap \<Rightarrow> (string \<times> VFileLoc) option" where
  "child_find_id needle children = find (\<lambda>(_, l). ino_id (vl_inode l) = needle) children"

section \<open>Virtual files\<close>

record Dir =
  d_vdir :: bool
  d_locked :: bool
  d_children :: ChildMap

record Pipe =
  p_size :: nat
  p_read_fd :: nat
  p_write_fd :: nat

datatype VBody = FileBody File | DirBody Dir | PipeBody Pipe | SymlinkBody string

record VFile =
  vf_id :: nat
  vf_type :: FileType
  vf_mode :: u32
  vf_atime :: timespec
  vf_mtime :: timespec
  vf_ctime :: timespec
  vf_uid :: nat
  vf_gid :: nat
  vf_body :: VBody

definition vf_isDir :: "VFile \<Rightarrow> bool" where
  "vf_isDir vf \<longleftrightarrow> vf_type vf = TYPE_DIR \<or> vf_type vf = TYPE_DIR_SHARED"

definition vf_isFile :: "VFile \<Rightarrow> bool" where
  "vf_isFile vf \<longleftrightarrow> vf_type vf = TYPE_FILE"

definition vf_isSymlink :: "VFile \<Rightarrow> bool" where
  "vf_isSymlink vf \<longleftrightarrow> vf_type vf = TYPE_SYMLINK"

text \<open>The setters of the owner ignore \<^verbatim>\<open>UINT32_MAX\<close>.\<close>

definition set_uid :: "nat \<Rightarrow> VFile \<Rightarrow> VFile" where
  "set_uid u vf = (if u \<noteq> 2 ^ 32 - 1 then vf\<lparr>vf_uid := u\<rparr> else vf)"

definition set_gid :: "nat \<Rightarrow> VFile \<Rightarrow> VFile" where
  "set_gid g vf = (if g \<noteq> 2 ^ 32 - 1 then vf\<lparr>vf_gid := g\<rparr> else vf)"

fun vf_size :: "VFile \<Rightarrow> nat" where
  "vf_size vf = (case vf_body vf of
       FileBody f \<Rightarrow> f_size f
     | DirBody d \<Rightarrow> 4096
     | PipeBody p \<Rightarrow> 0
     | SymlinkBody dest \<Rightarrow> length dest)"

text \<open>The number of a new object: the sequence number, with the server's number above it except on the
  first server.  The sequence is an \<^verbatim>\<open>int\<close>.\<close>

definition inode_number :: "nat \<Rightarrow> nat \<Rightarrow> nat" where
  "inode_number server seq =
     (if server \<noteq> 0 then (seq AND INODE_MASK) OR (push_bit INODE_SHIFT server mod 2 ^ 32) else seq)"

definition VFile_new :: "FsEnv \<Rightarrow> nat \<Rightarrow> FileType \<Rightarrow> u32 \<Rightarrow> VBody \<Rightarrow> nat \<Rightarrow> (VFile \<times> nat) option" where
  "VFile_new env server type mode body seq =
     (if 2 ^ 31 - 1 \<le> seq then None
      else Some (\<lparr>vf_id = inode_number server seq, vf_type = type, vf_mode = mode,
                  vf_atime = en_coarse env, vf_mtime = en_coarse env, vf_ctime = en_coarse env,
                  vf_uid = 0, vf_gid = 0, vf_body = body\<rparr>, seq + 1))"

definition new_File :: "FsEnv \<Rightarrow> nat \<Rightarrow> u32 \<Rightarrow> nat \<Rightarrow> (VFile \<times> nat) option" where
  "new_File env server mode seq = VFile_new env server TYPE_FILE mode (FileBody File_new) seq"

definition new_Dir :: "FsConf \<Rightarrow> FsEnv \<Rightarrow> nat \<Rightarrow> bool \<Rightarrow> u32 \<Rightarrow> nat \<Rightarrow> (VFile \<times> nat) option" where
  "new_Dir cf env server vdir mode seq =
     VFile_new env server
       (if cf_directory_distribution cf \<and> (mode AND S_ISSHR \<noteq> 0 \<or> vdir) then TYPE_DIR_SHARED else TYPE_DIR)
       (mode AND NOT S_ISSHR) (DirBody \<lparr>d_vdir = vdir, d_locked = False, d_children = []\<rparr>) seq"

definition new_Symlink :: "FsEnv \<Rightarrow> nat \<Rightarrow> string \<Rightarrow> nat \<Rightarrow> (VFile \<times> nat) option" where
  "new_Symlink env server dest seq = VFile_new env server TYPE_SYMLINK 0x1FF (SymlinkBody dest) seq"

definition new_Pipe :: "FsEnv \<Rightarrow> nat \<Rightarrow> u32 \<Rightarrow> nat \<Rightarrow> nat \<Rightarrow> nat \<Rightarrow> (VFile \<times> nat) option" where
  "new_Pipe env server mode rfd wfd seq =
     VFile_new env server TYPE_PIPE mode (PipeBody \<lparr>p_size = 0, p_read_fd = rfd, p_write_fd = wfd\<rparr>) seq"

section \<open>Pipes\<close>

text \<open>A pipe carries only the number of bytes.  \<^verbatim>\<open>ssize_t\<close> results are integers.\<close>

definition to_ssize :: "nat \<Rightarrow> int" where
  "to_ssize n = (if n < 2 ^ 63 then int n else int n - 2 ^ 64)"

definition closeRead :: "Pipe \<Rightarrow> Pipe" where
  "closeRead p = p\<lparr>p_read_fd := 0\<rparr>"

definition closeWrite :: "Pipe \<Rightarrow> Pipe" where
  "closeWrite p = p\<lparr>p_write_fd := 0\<rparr>"

definition Pipe_write :: "nat \<Rightarrow> Pipe \<Rightarrow> int \<times> Pipe" where
  "Pipe_write cnt p = (to_ssize cnt, p\<lparr>p_size := size_t (p_size p + cnt)\<rparr>)"

definition Pipe_read :: "nat \<Rightarrow> Pipe \<Rightarrow> int \<times> Pipe" where
  "Pipe_read cnt p =
     (if p_size p \<noteq> 0
      then (let cnt = min cnt (p_size p) in (to_ssize cnt, p\<lparr>p_size := p_size p - cnt\<rparr>))
      else if p_write_fd p \<noteq> 0 then (- EAGAIN, p)
      else (0, p))"

end
