(* ===== verification/Fs_Server.thy ===== *)
theory Fs_Server
  imports Fs_Types Time_Arith
begin

text \<open>
  The file-system server (\<open>sys/fs/server.hpp\<close>, \<open>server.cpp\<close>): one definition per method of
  \<^verbatim>\<open>FilesystemServer\<close>, over the record of its members.

  \<^verbatim>\<open>m_files\<close> and \<^verbatim>\<open>m_pipes\<close> are maps; \<^verbatim>\<open>m_fds\<close> and \<^verbatim>\<open>m_apps\<close>, which the code enumerates, are
  association lists.  The directory \<^verbatim>\<open>m_orphans\<close> is the object the constructor installs under the number
  \<^verbatim>\<open>-1\<close> and stays there; deleting it, or the root, which are members and not on the heap, ends the
  process.  Notifications to applications are appended to \<open>fs_sent\<close>; the allocation of their buffers is
  taken to succeed, as \<^verbatim>\<open>dispatchAllocate\<close> asserts.  Out-parameters a method leaves
  unset are \<^term>\<open>None\<close> in its result.  A failed \<^verbatim>\<open>assert\<close>, a wrong cast or a null pointer is \<^term>\<open>None\<close>.
\<close>

unbundle bit_operations_syntax

section \<open>State\<close>

record FileDescriptor =
  fd_count :: nat
  fd_offset :: nat
  fd_id :: nat

record FS =
  fs_id :: nat
  fs_seq :: nat
  fs_files :: "nat \<rightharpoonup> VFile"
  fs_pipes :: "nat \<rightharpoonup> VFile"
  fs_fds :: "(nat \<times> FileDescriptor) list"
  fs_cache :: BufferCache
  fs_memory :: fs_mem
  fs_apps :: "(nat \<times> nat list) list"
  fs_sent :: "(nat \<times> Inode) list"
  fs_op_count :: "nat \<Rightarrow> nat"
  fs_op_times :: "nat \<Rightarrow> nat"

definition ORPHANS_INO :: nat where
  "ORPHANS_INO = SIZE_MAX"

text \<open>The constructor.  The first argument of the two directories is a string literal, which converts to
  \<^verbatim>\<open>true\<close>.  The counters are not initialised: \<open>op_counts\<close> and \<open>cycles\<close>, as are the bytes of the memory.\<close>

definition FilesystemServer_new ::
    "FsConf \<Rightarrow> FsEnv \<Rightarrow> nat \<Rightarrow> (nat \<Rightarrow> nat) \<Rightarrow> (nat \<Rightarrow> nat) \<Rightarrow> fs_mem \<Rightarrow> FS option" where
  "FilesystemServer_new cf env sid op_counts cycles m = do {
     (root, seq) \<leftarrow> new_Dir cf env sid True 0x1ED 0;
     (orphans, seq) \<leftarrow> new_Dir cf env sid True 0x1ED seq;
     bc \<leftarrow> BufferCache_new (cf_memory_size cf) (cf_block_size cf) (cf_server_count cf) (int sid);
     let root_inode = \<lparr>ino_server = int sid, ino_id = 0, ino_type = TYPE_DIR\<rparr>;
     let root = (case vf_body root of
         DirBody d \<Rightarrow> root\<lparr>vf_id := 0,
           vf_body := DirBody (d\<lparr>d_children := addChild (en_loc env) ''..'' root_inode (d_children d)\<rparr>)\<rparr>
       | _ \<Rightarrow> root);
     let files = (if sid = 0 then Map.empty(0 \<mapsto> root) else Map.empty);
     Some \<lparr>fs_id = sid, fs_seq = seq, fs_files = files(ORPHANS_INO \<mapsto> orphans\<lparr>vf_id := ORPHANS_INO\<rparr>),
           fs_pipes = Map.empty, fs_fds = [], fs_cache = bc, fs_memory = m, fs_apps = [], fs_sent = [],
           fs_op_count = op_counts, fs_op_times = cycles\<rparr>
   }"

section \<open>Operation counters\<close>

text \<open>The numbers of the operations, which index the counters.\<close>

datatype MessageTypes = CREATE | DESTROY | ADDMAP | REMOVEMAP | PIPE | OPEN | READ | WRITE | LSEEK | CLOSE
  | DUP | FSTAT | DIRENT | UNLINK | READLINK | RMDIR | TRUNC | CHMOD | CHOWN | RESOLVE | UTIMENS | SYMLINK
  | BLOCKS | FLUSH

definition all_ops :: "MessageTypes list" where
  "all_ops = [CREATE, DESTROY, ADDMAP, REMOVEMAP, PIPE, OPEN, READ, WRITE, LSEEK, CLOSE, DUP, FSTAT, DIRENT,
     UNLINK, READLINK, RMDIR, TRUNC, CHMOD, CHOWN, RESOLVE, UTIMENS, SYMLINK, BLOCKS, FLUSH]"

fun op_num :: "MessageTypes \<Rightarrow> nat" where
  "op_num CREATE = 0" | "op_num DESTROY = 1" | "op_num ADDMAP = 2" | "op_num REMOVEMAP = 3"
| "op_num PIPE = 4" | "op_num OPEN = 5" | "op_num READ = 6" | "op_num WRITE = 7" | "op_num LSEEK = 8"
| "op_num CLOSE = 9" | "op_num DUP = 10" | "op_num FSTAT = 11" | "op_num DIRENT = 12"
| "op_num UNLINK = 13" | "op_num READLINK = 14" | "op_num RMDIR = 15" | "op_num TRUNC = 16"
| "op_num CHMOD = 17" | "op_num CHOWN = 18" | "op_num RESOLVE = 19" | "op_num UTIMENS = 20"
| "op_num SYMLINK = 21" | "op_num BLOCKS = 22" | "op_num FLUSH = 23"

definition NUM_FS_TYPES :: nat where
  "NUM_FS_TYPES = 24"

definition opStart :: "MessageTypes \<Rightarrow> FS \<Rightarrow> FS" where
  "opStart op fs = fs\<lparr>fs_op_count := (fs_op_count fs)(op_num op := size_t (fs_op_count fs (op_num op) + 1))\<rparr>"

definition opEnd :: "FsEnv \<Rightarrow> MessageTypes \<Rightarrow> FS \<Rightarrow> FS" where
  "opEnd env op fs =
     (let elapsed_cycles = to_ssize (size_sub (en_stop env) (en_start env))
      in if elapsed_cycles > 0
         then fs\<lparr>fs_op_times := (fs_op_times fs)(op_num op := size_t (fs_op_times fs (op_num op) + nat elapsed_cycles))\<rparr>
         else fs)"

text \<open>\<^verbatim>\<open>OP_COUNTER\<close>: an object whose constructor and destructor frame the body of a method.\<close>

definition op_counter ::
    "FsConf \<Rightarrow> FsEnv \<Rightarrow> MessageTypes \<Rightarrow> (FS \<Rightarrow> ('r \<times> FS) option) \<Rightarrow> FS \<Rightarrow> ('r \<times> FS) option" where
  "op_counter cf env op body fs =
     (if cf_show_ops cf
      then map_option (\<lambda>(r, fs). (r, opEnd env op fs)) (body (opStart op fs))
      else body fs)"

definition clear_stats :: "FS \<Rightarrow> FS" where
  "clear_stats fs =
     fs\<lparr>fs_op_count := (\<lambda>i. if i < NUM_FS_TYPES then 0 else fs_op_count fs i),
        fs_op_times := (\<lambda>i. if i < NUM_FS_TYPES then 0 else fs_op_times fs i)\<rparr>"

section \<open>Caches of the applications\<close>

definition appClose :: "nat \<Rightarrow> FS \<Rightarrow> FS" where
  "appClose appid fs = fs\<lparr>fs_apps := AList.delete appid (fs_apps fs)\<rparr>"

definition app_entries :: "nat \<Rightarrow> (nat \<times> nat list) list \<Rightarrow> nat list" where
  "app_entries appid apps = (case map_of apps appid of None \<Rightarrow> [] | Some es \<Rightarrow> es)"

definition appAddCache :: "nat \<Rightarrow> VFileLoc \<Rightarrow> FS \<Rightarrow> FS" where
  "appAddCache appid entry fs =
     fs\<lparr>fs_apps := AList.update appid (List.insert (vl_addr entry) (app_entries appid (fs_apps fs))) (fs_apps fs)\<rparr>"

definition as_dir :: "VFile \<Rightarrow> Dir option" where
  "as_dir vf = (case vf_body vf of DirBody d \<Rightarrow> Some d | _ \<Rightarrow> None)"

definition as_file :: "VFile \<Rightarrow> File option" where
  "as_file vf = (case vf_body vf of FileBody f \<Rightarrow> Some f | _ \<Rightarrow> None)"

definition as_pipe :: "VFile \<Rightarrow> Pipe option" where
  "as_pipe vf = (case vf_body vf of PipeBody p \<Rightarrow> Some p | _ \<Rightarrow> None)"

text \<open>The overload of \<^verbatim>\<open>appAddCache\<close> that names the entry.\<close>

definition appAddCache_path :: "nat \<Rightarrow> Inode \<Rightarrow> string \<Rightarrow> FS \<Rightarrow> FS option" where
  "appAddCache_path appid parent path fs = do {
     vf \<leftarrow> fs_files fs (ino_id parent);
     if \<not> vf_isDir vf then None else do {
       d \<leftarrow> as_dir vf;
       entry \<leftarrow> child_find path (d_children d);
       Some (appAddCache appid entry fs)
     }
   }"

text \<open>\<^verbatim>\<open>dispatchNotify\<close>: what is sent on the channel of an application.  Nothing when polling the channel tells that
  the application has closed it.\<close>

definition dispatchNotify :: "FsEnv \<Rightarrow> nat \<Rightarrow> Inode \<Rightarrow> (nat \<times> Inode) list" where
  "dispatchNotify env chan notify = (if en_closed env chan then [] else [(chan, notify)])"

text \<open>The loop of \<^verbatim>\<open>appRemoveCache\<close>: the caches without the entry, and the notifications to the others.\<close>

fun remove_cached ::
    "FsEnv \<Rightarrow> nat \<Rightarrow> VFileLoc \<Rightarrow> (nat \<times> nat list) list \<Rightarrow> (nat \<times> nat list) list \<times> (nat \<times> Inode) list" where
  "remove_cached env appid entry [] = ([], [])"
| "remove_cached env appid entry ((app, es) # apps) =
     (let (apps', sent) = remove_cached env appid entry apps
      in if vl_addr entry \<in> set es
         then ((app, removeAll (vl_addr entry) es) # apps',
               (if app \<noteq> appid then dispatchNotify env app (InodeOnly (vl_inode entry)) else []) @ sent)
         else ((app, es) # apps', sent))"

definition appRemoveCache :: "FsEnv \<Rightarrow> nat \<Rightarrow> VFileLoc \<Rightarrow> FS \<Rightarrow> FS" where
  "appRemoveCache env appid entry fs =
     (let (apps, sent) = remove_cached env appid entry (fs_apps fs)
      in fs\<lparr>fs_apps := apps, fs_sent := fs_sent fs @ sent\<rparr>)"

section \<open>Objects\<close>

definition put_file :: "nat \<Rightarrow> VFile \<Rightarrow> FS \<Rightarrow> FS" where
  "put_file i vf fs = fs\<lparr>fs_files := (fs_files fs)(i \<mapsto> vf)\<rparr>"

text \<open>A directory that other servers share is allocated here when it is first used.\<close>

definition lazy_dir :: "FsConf \<Rightarrow> FsEnv \<Rightarrow> nat \<Rightarrow> FS \<Rightarrow> FS option" where
  "lazy_dir cf env i fs =
     (if fs_files fs i = None
      then do {
        (lazyp, seq) \<leftarrow> new_Dir cf env (fs_id fs) True 0x1FF (fs_seq fs);
        Some (put_file i (lazyp\<lparr>vf_id := i\<rparr>) (fs\<lparr>fs_seq := seq\<rparr>))
      }
      else Some fs)"

text \<open>\<^verbatim>\<open>m_files.erase\<close> and \<^verbatim>\<open>delete\<close>: a file returns its blocks.\<close>

definition erase_delete :: "nat \<Rightarrow> VFile \<Rightarrow> FS \<Rightarrow> FS option" where
  "erase_delete i vf fs =
     (if i = ORPHANS_INO \<or> (i = 0 \<and> fs_id fs = 0) then None
      else let fs = fs\<lparr>fs_files := (fs_files fs)(i := None)\<rparr>
      in Some (case vf_body vf of
           FileBody f \<Rightarrow> fs\<lparr>fs_cache := File_delete f (fs_cache fs)\<rparr>
         | _ \<Rightarrow> fs))"

text \<open>Is some descriptor open on the object?  The count is converted to \<^verbatim>\<open>int\<close>.\<close>

definition has_fd :: "nat \<Rightarrow> FS \<Rightarrow> bool" where
  "has_fd i fs = list_ex (\<lambda>(_, d). fd_id d = i \<and> c_int (int (fd_count d)) \<noteq> 0) (fs_fds fs)"

text \<open>The decimal and hexadecimal numerals of \<^verbatim>\<open>printf\<close>.\<close>

fun numeral_string :: "nat \<Rightarrow> nat \<Rightarrow> string" where
  "numeral_string base n =
     (let digit = ''0123456789abcdef'' ! (n mod base)
      in if base < 2 \<or> base > 16 \<or> n < base then [digit] else numeral_string base (n div base) @ [digit])"

declare numeral_string.simps [simp del]

definition lld_string :: "nat \<Rightarrow> string" where
  "lld_string n = (if n < 2 ^ 63 then numeral_string 10 n else ''-'' @ numeral_string 10 (2 ^ 64 - n))"

text \<open>An object still open joins the orphans under a new name, which has to fit its buffer.\<close>

definition add_orphan :: "FsConf \<Rightarrow> FsEnv \<Rightarrow> string \<Rightarrow> VFile \<Rightarrow> FS \<Rightarrow> FS option" where
  "add_orphan cf env newname vf fs =
     (if cf_max_fname_len cf \<le> length newname then None
      else do {
        orphans \<leftarrow> fs_files fs ORPHANS_INO;
        d \<leftarrow> as_dir orphans;
        let child = \<lparr>ino_server = int (fs_id fs), ino_id = vf_id vf, ino_type = vf_type vf\<rparr>;
        Some (put_file ORPHANS_INO
          (orphans\<lparr>vf_body := DirBody (d\<lparr>d_children := addChild (en_loc env) newname child (d_children d)\<rparr>)\<rparr>) fs)
      })"

section \<open>Creating and destroying\<close>

text \<open>\<^verbatim>\<open>create\<close>: the status, and the inode found or made.  The precedence of \<^verbatim>\<open>! flags & O_DIRECTORY\<close> is the
  source's.\<close>

definition fs_create ::
    "FsConf \<Rightarrow> FsEnv \<Rightarrow> Inode \<Rightarrow> string \<Rightarrow> u32 \<Rightarrow> u32 \<Rightarrow> FS \<Rightarrow> ((int \<times> InodeType option) \<times> FS) option" where
  "fs_create cf env parent path flags mode = op_counter cf env CREATE (\<lambda>fs. do {
     fs \<leftarrow> lazy_dir cf env (ino_id parent) fs;
     p \<leftarrow> fs_files fs (ino_id parent);
     if \<not> vf_isDir p then Some ((INVALID, None), fs)
     else if path = [] then None
     else do {
       d \<leftarrow> as_dir p;
       case child_find path (d_children d) of
         Some loc \<Rightarrow>
           if vl_isDir loc \<and> (if flags = 0 then 1 else 0) AND O_DIRECTORY \<noteq> 0
           then Some ((ISDIR, Some (vl_inode loc)), fs)
           else if vl_isSymlink loc then Some ((ISSYM, Some (vl_inode loc)), fs)
           else Some ((EXIST, Some (vl_inode loc)), fs)
       | None \<Rightarrow> do {
           (vf, seq) \<leftarrow> (if flags AND O_DIRECTORY \<noteq> 0
              then new_Dir cf env (fs_id fs) False mode (fs_seq fs)
              else new_File env (fs_id fs) mode (fs_seq fs));
           let exist = \<lparr>ino_server = int (fs_id fs), ino_id = vf_id vf, ino_type = vf_type vf\<rparr>;
           Some ((OK, Some exist), put_file (vf_id vf) vf (fs\<lparr>fs_seq := seq\<rparr>))
         }
     }
   })"

text \<open>What \<^verbatim>\<open>destroy\<close>, \<^verbatim>\<open>unlink\<close> and \<^verbatim>\<open>rmdir\<close> do at the end: an open object is kept among the orphans.\<close>

definition remove_object :: "FsConf \<Rightarrow> FsEnv \<Rightarrow> string \<Rightarrow> nat \<Rightarrow> VFile \<Rightarrow> FS \<Rightarrow> (int \<times> FS) option" where
  "remove_object cf env newname i c fs =
     map_option (\<lambda>fs. (OK, fs))
       (if has_fd (vf_id c) fs then add_orphan cf env newname c fs else erase_delete i c fs)"

definition fs_destroy :: "FsConf \<Rightarrow> FsEnv \<Rightarrow> nat \<Rightarrow> FS \<Rightarrow> (int \<times> FS) option" where
  "fs_destroy cf env i = op_counter cf env DESTROY (\<lambda>fs.
     case fs_files fs i of
       None \<Rightarrow> Some (NOT_FOUND, fs)
     | Some c \<Rightarrow>
         if vf_isDir c then map_option (\<lambda>fs. (OK, fs)) (erase_delete i c fs)
         else remove_object cf env (''f.'' @ lld_string (en_tsc env)) i c fs)"

definition fs_unlink :: "FsConf \<Rightarrow> FsEnv \<Rightarrow> nat \<Rightarrow> FS \<Rightarrow> (int \<times> FS) option" where
  "fs_unlink cf env i = op_counter cf env UNLINK (\<lambda>fs.
     case fs_files fs i of
       None \<Rightarrow> Some (NOT_FOUND, fs)
     | Some c \<Rightarrow>
         if \<not> (vf_isFile c \<or> vf_isSymlink c) then None
         else remove_object cf env (''f.'' @ lld_string (en_tsc env)) i c fs)"

definition set_locked :: "nat \<Rightarrow> VFile \<Rightarrow> Dir \<Rightarrow> bool \<Rightarrow> FS \<Rightarrow> FS" where
  "set_locked i vf d l fs = put_file i (vf\<lparr>vf_body := DirBody (d\<lparr>d_locked := l\<rparr>)\<rparr>) fs"

definition fs_rmdir :: "FsConf \<Rightarrow> FsEnv \<Rightarrow> nat \<Rightarrow> int \<Rightarrow> FS \<Rightarrow> (int \<times> FS) option" where
  "fs_rmdir cf env i phase = op_counter cf env RMDIR (\<lambda>fs. do {
     fs \<leftarrow> lazy_dir cf env i fs;
     c \<leftarrow> fs_files fs i;
     if \<not> vf_isDir c then Some (NOT_DIR, fs)
     else do {
       d \<leftarrow> as_dir c;
       if list_ex (\<lambda>(name, _). name \<noteq> ''..'') (d_children d) then Some (NOT_EMPTY, fs)
       else if phase = RMDIR_TRY
       then Some (if d_locked d then (- EAGAIN, fs) else (OK, set_locked i c d True fs))
       else if phase = RMDIR_FAIL
       then (if d_locked d then Some (OK, set_locked i c d False fs) else None)
       else if phase = RMDIR_SUCCESS \<and> \<not> d_locked d then None
       else let fs = (if phase = RMDIR_SUCCESS then set_locked i c d False fs else fs)
       in remove_object cf env (''f.'' @ numeral_string 16 (en_tsc env)) i c fs
     }
   })"

section \<open>Descriptors\<close>

definition new_fd :: "nat \<Rightarrow> FileDescriptor" where
  "new_fd i = \<lparr>fd_count = 1, fd_offset = 0, fd_id = i\<rparr>"

definition put_fd :: "nat \<Rightarrow> FileDescriptor \<Rightarrow> FS \<Rightarrow> FS" where
  "put_fd fd d fs = fs\<lparr>fs_fds := AList.update fd d (fs_fds fs)\<rparr>"

text \<open>\<^verbatim>\<open>File::truncate\<close> on the server's state; its result is ignored by the callers.\<close>

definition truncate_file :: "FsConf \<Rightarrow> nat \<Rightarrow> VFile \<Rightarrow> nat \<Rightarrow> FS \<Rightarrow> FS option" where
  "truncate_file cf i vf n fs = do {
     f \<leftarrow> as_file vf;
     (_, f, bc) \<leftarrow> File_truncate (cf_block_size cf) n f (fs_cache fs);
     Some (put_file i (vf\<lparr>vf_body := FileBody f\<rparr>) (fs\<lparr>fs_cache := bc\<rparr>))
   }"

record OpenResult =
  or_fd :: "nat option"
  or_type :: "FileType option"
  or_size :: "nat option"
  or_state :: nat

definition fs_open :: "FsConf \<Rightarrow> FsEnv \<Rightarrow> nat \<Rightarrow> u32 \<Rightarrow> FS \<Rightarrow> ((int \<times> OpenResult) \<times> FS) option" where
  "fs_open cf env i flags = op_counter cf env OPEN (\<lambda>fs.
     let unset = \<lparr>or_fd = None, or_type = None, or_size = None, or_state = CACHE_INVALID\<rparr>
     in case fs_files fs i of
       None \<Rightarrow> Some ((NOT_FOUND, unset), fs)
     | Some vf \<Rightarrow>
         if vf_isFile vf \<and> flags AND O_DIRECTORY \<noteq> 0 then Some ((NOT_DIR, unset), fs)
         else if vf_isDir vf \<and> flags AND (O_CREAT OR O_TRUNC OR O_WRONLY OR O_RDWR) \<noteq> 0
         then Some ((ISDIR, unset), fs)
         else if vf_isSymlink vf then Some ((OK, unset\<lparr>or_type := Some (vf_type vf)\<rparr>), fs)
         else do {
           let fd = en_rand env;
           let fs = put_fd fd (new_fd i) fs;
           fs \<leftarrow> (if vf_isFile vf \<and> flags AND O_TRUNC \<noteq> 0
                  then truncate_file cf i
                    (vf\<lparr>vf_ctime := en_now env, vf_atime := en_now env, vf_mtime := en_now env\<rparr>) 0 fs
                  else Some fs);
           vf \<leftarrow> fs_files fs i;
           let fs = (if vf_isFile vf \<and> flags AND O_APPEND \<noteq> 0
                     then put_fd fd ((new_fd i)\<lparr>fd_offset := vf_size vf\<rparr>) fs else fs);
           Some ((OK, \<lparr>or_fd = Some fd, or_type = Some (vf_type vf), or_size = Some (vf_size vf),
                       or_state = CACHE_SHARED\<rparr>), fs)
         })"

definition fs_pipe :: "FsConf \<Rightarrow> FsEnv \<Rightarrow> FS \<Rightarrow> ((int \<times> nat \<times> nat \<times> Inode) \<times> FS) option" where
  "fs_pipe cf env = op_counter cf env PIPE (\<lambda>fs. do {
     let read_fd = en_rand env;
     let write_fd = en_rand2 env;
     (vf, seq) \<leftarrow> new_Pipe env (fs_id fs) 0x1FF read_fd write_fd (fs_seq fs);
     let inode = \<lparr>ino_server = int (fs_id fs), ino_id = vf_id vf\<rparr>;
     let fs = put_fd write_fd (new_fd (vf_id vf)) (put_fd read_fd (new_fd (vf_id vf)) (fs\<lparr>fs_seq := seq\<rparr>));
     Some ((OK, read_fd, write_fd, inode), fs\<lparr>fs_pipes := (fs_pipes fs)(vf_id vf \<mapsto> vf)\<rparr>)
   })"

section \<open>Reading and writing\<close>

text \<open>\<^verbatim>\<open>read(file_id_t, ...)\<close>: the status, the bytes stored in the buffer and the new value of \<^verbatim>\<open>*count\<close>.  A pipe
  delivers no bytes, only a count.\<close>

definition fs_read_id :: "FsConf \<Rightarrow> FsEnv \<Rightarrow> nat \<Rightarrow> nat \<Rightarrow> nat \<Rightarrow> FS \<Rightarrow> ((int \<times> u8 list \<times> nat) \<times> FS) option" where
  "fs_read_id cf env i offset cnt = op_counter cf env READ (\<lambda>fs.
     case fs_files fs i of
       None \<Rightarrow> (case fs_pipes fs i of
           None \<Rightarrow> Some ((NOT_FOUND, [], 0), fs)
         | Some vf \<Rightarrow> do {
             p \<leftarrow> as_pipe vf;
             let (retval, p) = Pipe_read cnt p;
             let fs = fs\<lparr>fs_pipes := (fs_pipes fs)(i \<mapsto> vf\<lparr>vf_body := PipeBody p\<rparr>)\<rparr>;
             Some (if retval > 0 then ((OK, [], nat retval), fs) else ((c_int retval, [], 0), fs))
           })
     | Some vf \<Rightarrow>
         if \<not> vf_isFile vf then None
         else do {
           f \<leftarrow> as_file vf;
           bs \<leftarrow> File_read (cf_block_size cf) f (fs_memory fs) cnt offset;
           let fs = put_file i (vf\<lparr>vf_atime := en_now env\<rparr>) fs;
           Some (if bs \<noteq> [] then ((OK, bs, length bs), fs) else ((0, [], 0), fs))
         })"

text \<open>\<^verbatim>\<open>File::write\<close> on the server's state: the times are set unless it returns early.\<close>

definition write_file :: "FsConf \<Rightarrow> FsEnv \<Rightarrow> nat \<Rightarrow> VFile \<Rightarrow> u8 list \<Rightarrow> nat \<Rightarrow> FS \<Rightarrow> (int \<times> FS) option" where
  "write_file cf env i vf buf offset fs = do {
     f \<leftarrow> as_file vf;
     (retval, f, bc, m) \<leftarrow> File_write (cf_block_size cf) buf offset f (fs_cache fs) (fs_memory fs);
     let vf = vf\<lparr>vf_body := FileBody f\<rparr>;
     let vf = (if retval > 0 then vf\<lparr>vf_atime := en_now env, vf_mtime := en_now env\<rparr> else vf);
     Some (retval, put_file i vf (fs\<lparr>fs_cache := bc, fs_memory := m\<rparr>))
   }"

definition fs_write_id :: "FsConf \<Rightarrow> FsEnv \<Rightarrow> nat \<Rightarrow> nat \<Rightarrow> u8 list \<Rightarrow> FS \<Rightarrow> ((int \<times> nat) \<times> FS) option" where
  "fs_write_id cf env i offset buf = op_counter cf env WRITE (\<lambda>fs.
     case fs_files fs i of
       None \<Rightarrow> (case fs_pipes fs i of
           None \<Rightarrow> Some ((NOT_FOUND, length buf), fs)
         | Some vf \<Rightarrow> do {
             p \<leftarrow> as_pipe vf;
             let (retval, p) = Pipe_write (length buf) p;
             let fs = fs\<lparr>fs_pipes := (fs_pipes fs)(i \<mapsto> vf\<lparr>vf_body := PipeBody p\<rparr>)\<rparr>;
             Some (if retval > 0 then ((OK, nat retval), fs) else ((c_int retval, 0), fs))
           })
     | Some vf \<Rightarrow> do {
         (retval, fs) \<leftarrow> write_file cf env i vf buf offset fs;
         Some (if retval > 0 then ((OK, nat retval), fs) else ((c_int retval, 0), fs))
       })"

text \<open>The overloads on a descriptor advance its offset by the resulting count.\<close>

definition fs_read :: "FsConf \<Rightarrow> FsEnv \<Rightarrow> nat \<Rightarrow> nat \<Rightarrow> FS \<Rightarrow> ((int \<times> u8 list \<times> nat) \<times> FS) option" where
  "fs_read cf env fd cnt fs = do {
     d \<leftarrow> map_of (fs_fds fs) fd;
     ((ret, bs, cnt), fs) \<leftarrow> fs_read_id cf env (fd_id d) (fd_offset d) cnt fs;
     Some ((ret, bs, cnt), put_fd fd (d\<lparr>fd_offset := size_t (fd_offset d + cnt)\<rparr>) fs)
   }"

definition fs_write :: "FsConf \<Rightarrow> FsEnv \<Rightarrow> nat \<Rightarrow> u8 list \<Rightarrow> FS \<Rightarrow> ((int \<times> nat) \<times> FS) option" where
  "fs_write cf env fd buf fs = do {
     d \<leftarrow> map_of (fs_fds fs) fd;
     ((ret, cnt), fs) \<leftarrow> fs_write_id cf env (fd_id d) (fd_offset d) buf fs;
     Some ((ret, cnt), put_fd fd (d\<lparr>fd_offset := size_t (fd_offset d + cnt)\<rparr>) fs)
   }"

definition SEEK_SET :: int where "SEEK_SET = 0"
definition SEEK_CUR :: int where "SEEK_CUR = 1"
definition SEEK_END :: int where "SEEK_END = 2"
definition SEEK_DATA :: int where "SEEK_DATA = 3"
definition SEEK_HOLE :: int where "SEEK_HOLE = 4"

definition fs_lseek :: "FsConf \<Rightarrow> FsEnv \<Rightarrow> nat \<Rightarrow> nat \<Rightarrow> int \<Rightarrow> FS \<Rightarrow> ((int \<times> nat) \<times> FS) option" where
  "fs_lseek cf env fd offset whence = op_counter cf env LSEEK (\<lambda>fs. do {
     d \<leftarrow> map_of (fs_fds fs) fd;
     vf \<leftarrow> fs_files fs (fd_id d);
     if \<not> vf_isFile vf then None
     else do {
       f \<leftarrow> as_file vf;
       offset \<leftarrow> (if whence = SEEK_SET then Some offset
                  else if whence = SEEK_CUR then Some (size_t (offset + fd_offset d))
                  else if whence = SEEK_END then Some (size_t (f_size f + offset))
                  else if whence = SEEK_DATA then Some (fd_offset d)
                  else if whence = SEEK_HOLE then Some (f_size f)
                  else None);
       Some ((OK, offset), put_fd fd (d\<lparr>fd_offset := offset\<rparr>) fs)
     }
   })"

section \<open>Closing and sharing descriptors\<close>

definition set_file_size :: "nat \<Rightarrow> nat \<Rightarrow> FS \<Rightarrow> FS option" where
  "set_file_size i n fs = do {
     vf \<leftarrow> fs_files fs i;
     f \<leftarrow> as_file vf;
     Some (put_file i (vf\<lparr>vf_body := FileBody (f\<lparr>f_size := n\<rparr>)\<rparr>) fs)
   }"

text \<open>The last reference of a descriptor: a pipe goes when both ends are closed, an orphan goes now, and any
  other file takes the size the client reports.\<close>

definition close_pipe :: "nat \<Rightarrow> nat \<Rightarrow> FS \<Rightarrow> FS option" where
  "close_pipe fd i fs = do {
     vf \<leftarrow> fs_pipes fs i;
     p \<leftarrow> as_pipe vf;
     let p = (if p_read_fd p = fd then closeRead p else p);
     let p = (if p_write_fd p = fd then closeWrite p else p);
     Some (fs\<lparr>fs_pipes := (if p_read_fd p = 0 \<and> p_write_fd p = 0 then (fs_pipes fs)(i := None)
                           else (fs_pipes fs)(i \<mapsto> vf\<lparr>vf_body := PipeBody p\<rparr>))\<rparr>)
   }"

definition close_file :: "nat \<Rightarrow> VFile \<Rightarrow> nat \<Rightarrow> FS \<Rightarrow> FS option" where
  "close_file i vf n fs = do {
     orphans \<leftarrow> fs_files fs ORPHANS_INO;
     d \<leftarrow> as_dir orphans;
     case child_find_id (vf_id vf) (d_children d) of
       Some (name, _) \<Rightarrow>
         erase_delete i vf (put_file ORPHANS_INO
           (orphans\<lparr>vf_body := DirBody (d\<lparr>d_children := child_erase name (d_children d)\<rparr>)\<rparr>) fs)
     | None \<Rightarrow> if n \<noteq> SIZE_MAX then set_file_size i n fs else Some fs
   }"

definition fs_close :: "FsConf \<Rightarrow> FsEnv \<Rightarrow> nat \<Rightarrow> int \<Rightarrow> nat \<Rightarrow> FS \<Rightarrow> (int \<times> FS) option" where
  "fs_close cf env fd offset n = op_counter cf env CLOSE (\<lambda>fs. do {
     d \<leftarrow> map_of (fs_fds fs) fd;
     let d = d\<lparr>fd_count := size_dec (fd_count d)\<rparr>;
     let cnt = c_int (int (fd_count d));
     if cnt < 0 then None
     else if cnt = 0
     then do {
       fs \<leftarrow> (case fs_files fs (fd_id d) of
           None \<Rightarrow> close_pipe fd (fd_id d) fs
         | Some vf \<Rightarrow> close_file (fd_id d) vf n fs);
       Some (OK, fs\<lparr>fs_fds := AList.delete fd (fs_fds fs)\<rparr>)
     }
     else do {
       let d = (if offset \<noteq> - 1 then d\<lparr>fd_offset := nat (offset mod 2 ^ 64)\<rparr> else d);
       let fs = put_fd fd d fs;
       fs \<leftarrow> (if n \<noteq> SIZE_MAX then set_file_size (fd_id d) n fs else Some fs);
       Some (OK, fs)
     }
   })"

definition fs_dup :: "FsConf \<Rightarrow> FsEnv \<Rightarrow> nat \<Rightarrow> FS \<Rightarrow> ((int \<times> (Inode \<times> FileType \<times> nat) option) \<times> FS) option" where
  "fs_dup cf env fd = op_counter cf env DUP (\<lambda>fs.
     case map_of (fs_fds fs) fd of
       None \<Rightarrow> Some ((INVALID, None), fs)
     | Some d \<Rightarrow>
         (case (case fs_files fs (fd_id d) of None \<Rightarrow> fs_pipes fs (fd_id d) | Some vf \<Rightarrow> Some vf) of
           None \<Rightarrow> Some ((NOT_FOUND, None), fs)
         | Some vf \<Rightarrow>
             Some ((OK, Some (\<lparr>ino_server = int (fs_id fs), ino_id = vf_id vf\<rparr>, vf_type vf, vf_size vf)),
                   put_fd fd (d\<lparr>fd_count := size_t (fd_count d + 1)\<rparr>) fs)))"

definition fs_blocks :: "FsConf \<Rightarrow> FsEnv \<Rightarrow> nat \<Rightarrow> nat \<Rightarrow> nat \<Rightarrow> FS \<Rightarrow> ((int \<times> nat list) \<times> FS) option" where
  "fs_blocks cf env i offset cnt = op_counter cf env BLOCKS (\<lambda>fs. do {
     vf \<leftarrow> fs_files fs i;
     if \<not> vf_isFile vf then None
     else do {
       f \<leftarrow> as_file vf;
       r \<leftarrow> File_blocks f (c_int (int offset)) (c_int (int cnt));
       Some (r, fs)
     }
   })"

definition fs_flush :: "FsConf \<Rightarrow> FsEnv \<Rightarrow> nat \<Rightarrow> nat \<Rightarrow> int \<Rightarrow> FS \<Rightarrow> (int \<times> FS) option" where
  "fs_flush cf env fd n offset = op_counter cf env FLUSH (\<lambda>fs.
     case map_of (fs_fds fs) fd of
       None \<Rightarrow> Some (INVALID, fs)
     | Some d \<Rightarrow> do {
         fs \<leftarrow> set_file_size (fd_id d) n (put_fd fd (d\<lparr>fd_offset := nat (offset mod 2 ^ 64)\<rparr>) fs);
         Some (OK, fs)
       })"

section \<open>Statistics\<close>

text \<open>Fields of the stream output: right-adjusted in a width, and ended by \<^verbatim>\<open>endl\<close>.\<close>

definition setw :: "nat \<Rightarrow> string \<Rightarrow> string" where
  "setw w s = replicate (w - length s) CHR '' '' @ s"

definition endl :: string where
  "endl = [CHR 0x0A]"

definition opnames :: "string list" where
  "opnames =
    [''CREATE   '', ''DESTROY  '', ''ADD_MAP  '', ''RM_MAP   '', ''PIPE     '', ''OPEN     '', ''READ     '',
     ''WRITE    '', ''LSEEK    '', ''CLOSE    '', ''DUP      '', ''FSTAT    '', ''DIRENT   '', ''UNLINK   '',
     ''READLINK '', ''RMDIR    '', ''TRUNC    '', ''CHMOD    '', ''CHOWN    '', ''RESOLVE  '', ''UTIMENS  '',
     ''SYMLINK  '', ''BLOCKS   '', ''FLUSH    '']"

definition stat_row :: "string \<Rightarrow> nat \<Rightarrow> nat \<Rightarrow> nat \<Rightarrow> string" where
  "stat_row name cnt time avg =
     name @ setw 10 (numeral_string 10 cnt) @ setw 16 (numeral_string 10 time)
       @ setw 16 (numeral_string 10 avg) @ endl"

definition stat_line :: string where
  "stat_line = replicate 60 CHR ''-'' @ endl"

text \<open>The text of the statistics: only the section on the operations is compiled in.  The average of the
  last row divides by the number of all operations.\<close>

definition stat_text :: "FsConf \<Rightarrow> FS \<Rightarrow> string option" where
  "stat_text cf fs =
     (if \<not> cf_show_ops cf then Some []
      else if cf_hardware_khz cf div 1000 = 0 then None
      else let cnt = fs_op_count fs;
               cycles = fs_op_times fs;
               time = (\<lambda>i. ts_to_us (cf_hardware_khz cf) (cycles i));
               count_total = size_t (sum_list (map cnt [0..<NUM_FS_TYPES]));
               time_total = size_t (sum_list (map time [0..<NUM_FS_TYPES]));
               cycles_total = size_t (sum_list (map cycles [0..<NUM_FS_TYPES]))
      in if count_total = 0 then None
         else Some (stat_line @ ''Ops:'' @ endl
           @ ''Name     '' @ setw 10 ''Count'' @ setw 16 ''Time (us)'' @ setw 16 ''Avg (cycle/op)'' @ endl
           @ concat (map (\<lambda>i. stat_row (opnames ! i) (cnt i) (time i) (if cnt i > 0 then cycles i div cnt i else 0))
               [0..<NUM_FS_TYPES])
           @ stat_line @ stat_row ''TOTAL    '' count_total time_total (cycles_total div count_total)))"

definition update_stat_file :: "FsConf \<Rightarrow> FsEnv \<Rightarrow> nat \<Rightarrow> FS \<Rightarrow> FS option" where
  "update_stat_file cf env i fs = do {
     vf \<leftarrow> fs_files fs i;
     txt \<leftarrow> stat_text cf fs;
     fs \<leftarrow> truncate_file cf i vf (length txt) fs;
     vf \<leftarrow> fs_files fs i;
     (_, fs) \<leftarrow> write_file cf env i vf (path_bytes txt) 0 fs;
     Some fs
   }"

section \<open>Directory entries\<close>

definition set_children :: "nat \<Rightarrow> VFile \<Rightarrow> Dir \<Rightarrow> ChildMap \<Rightarrow> FS \<Rightarrow> FS" where
  "set_children i vf d ch fs = put_file i (vf\<lparr>vf_body := DirBody (d\<lparr>d_children := ch\<rparr>)\<rparr>) fs"

text \<open>\<^verbatim>\<open>addmap\<close>: the status and the inode the name had or has now.\<close>

definition fs_addmap ::
    "FsConf \<Rightarrow> FsEnv \<Rightarrow> nat \<Rightarrow> Inode \<Rightarrow> string \<Rightarrow> InodeType \<Rightarrow> bool \<Rightarrow> FS \<Rightarrow> ((int \<times> InodeType) \<times> FS) option" where
  "fs_addmap cf env appid parent path child overwrite = op_counter cf env ADDMAP (\<lambda>fs. do {
     fs \<leftarrow> (if path = ''stats'' then update_stat_file cf env (ino_id child) fs else Some fs);
     fs \<leftarrow> lazy_dir cf env (ino_id parent) fs;
     p \<leftarrow> fs_files fs (ino_id parent);
     d \<leftarrow> as_dir p;
     let old = child_find path (d_children d);
     case old of
       Some entry \<Rightarrow>
         if \<not> overwrite then Some ((EXIST, vl_inode entry), fs)
         else (let fs = (if cf_directory_cache cf then appRemoveCache env appid entry fs else fs);
                   ch = addChild (en_loc env) path child (child_erase path (d_children d));
                   fs = set_children (ino_id parent) p d ch fs;
                   fs = (if cf_directory_cache cf \<and> path \<noteq> ''..''
                         then appAddCache appid \<lparr>vl_addr = en_loc env, vl_inode = child\<rparr> fs else fs)
               in Some ((EXIST, vl_inode entry), fs))
     | None \<Rightarrow>
         (let ch = addChild (en_loc env) path child (d_children d);
              fs = set_children (ino_id parent) p d ch fs;
              fs = (if cf_directory_cache cf \<and> path \<noteq> ''..''
                    then appAddCache appid \<lparr>vl_addr = en_loc env, vl_inode = child\<rparr> fs else fs)
          in Some ((OK, child), fs))
   })"

definition fs_removemap :: "FsConf \<Rightarrow> FsEnv \<Rightarrow> nat \<Rightarrow> nat \<Rightarrow> string \<Rightarrow> FS \<Rightarrow> (int \<times> FS) option" where
  "fs_removemap cf env appid parent path = op_counter cf env REMOVEMAP (\<lambda>fs.
     let fs = (if path = ''stats'' then clear_stats fs else fs)
     in case fs_files fs parent of
       None \<Rightarrow> Some (NOT_FOUND, fs)
     | Some p \<Rightarrow>
         if \<not> vf_isDir p then Some (NOT_DIR, fs)
         else do {
           d \<leftarrow> as_dir p;
           case child_find path (d_children d) of
             None \<Rightarrow> Some (NOT_FOUND, fs)
           | Some entry \<Rightarrow>
               (let fs = (if cf_directory_cache cf \<and> path \<noteq> ''..'' then appRemoveCache env appid entry fs else fs)
                in Some (OK, set_children parent p d (child_erase path (d_children d)) fs))
         })"

definition fs_resolve ::
    "FsConf \<Rightarrow> FsEnv \<Rightarrow> nat \<Rightarrow> nat \<Rightarrow> string \<Rightarrow> FS \<Rightarrow> ((int \<times> InodeType option) \<times> FS) option" where
  "fs_resolve cf env appid parent path = op_counter cf env RESOLVE (\<lambda>fs.
     if path = [] then None
     else case fs_files fs parent of
       None \<Rightarrow> Some ((NOT_FOUND, None), fs)
     | Some p \<Rightarrow>
         if \<not> vf_isDir p then Some ((INVALID, None), fs)
         else do {
           d \<leftarrow> as_dir p;
           case child_find path (d_children d) of
             None \<Rightarrow> Some ((NOT_FOUND, None), fs)
           | Some entry \<Rightarrow>
               Some ((OK, Some (vl_inode entry)), if cf_directory_cache cf then appAddCache appid entry fs else fs)
         })"

definition fs_symlink :: "FsConf \<Rightarrow> FsEnv \<Rightarrow> nat \<Rightarrow> string \<Rightarrow> string \<Rightarrow> FS \<Rightarrow> (int \<times> FS) option" where
  "fs_symlink cf env parent src dest = op_counter cf env SYMLINK (\<lambda>fs. do {
     fs \<leftarrow> lazy_dir cf env parent fs;
     p \<leftarrow> fs_files fs parent;
     if \<not> vf_isDir p then Some (NOT_DIR, fs)
     else do {
       d \<leftarrow> as_dir p;
       if child_find src (d_children d) \<noteq> None then Some (EXIST, fs)
       else do {
         (slink, seq) \<leftarrow> new_Symlink env (fs_id fs) dest (fs_seq fs);
         let fs = put_file (vf_id slink) slink (fs\<lparr>fs_seq := seq\<rparr>);
         let inode = \<lparr>ino_server = int (fs_id fs), ino_id = vf_id slink, ino_type = vf_type slink\<rparr>;
         if vf_id slink = parent then Some (OK, fs)
         else Some (OK, set_children parent p d (addChild (en_loc env) src inode (d_children d)) fs)
       }
     }
   })"

section \<open>Attributes\<close>

record FauxStat64 =
  st_dev :: nat
  st_ino :: nat
  st_nlink :: nat
  st_mode :: nat
  st_uid :: nat
  st_gid :: nat
  st_rdev :: nat
  st_size :: nat
  st_blksize :: nat
  st_blocks :: nat
  st_atime :: timespec
  st_mtime :: timespec
  st_ctime :: timespec

definition fs_fstatat :: "FsConf \<Rightarrow> FsEnv \<Rightarrow> nat \<Rightarrow> FS \<Rightarrow> ((int \<times> FauxStat64 option) \<times> FS) option" where
  "fs_fstatat cf env i = op_counter cf env FSTAT (\<lambda>fs.
     case fs_files fs i of
       None \<Rightarrow> Some ((NOT_FOUND, None), fs)
     | Some vf \<Rightarrow>
         if cf_block_size cf = 0 then None
         else Some ((OK, Some \<lparr>st_dev = 0, st_ino = vf_id vf, st_nlink = 0,
                st_mode = unat (vf_mode vf) OR type_bits (vf_type vf), st_uid = vf_uid vf, st_gid = vf_gid vf,
                st_rdev = 0, st_size = vf_size vf, st_blksize = cf_block_size cf,
                st_blocks = vf_size vf div cf_block_size cf + 1,
                st_atime = vf_atime vf, st_mtime = vf_mtime vf, st_ctime = vf_ctime vf\<rparr>), fs))"

definition fs_chmod :: "FsConf \<Rightarrow> FsEnv \<Rightarrow> nat \<Rightarrow> u32 \<Rightarrow> FS \<Rightarrow> (int \<times> FS) option" where
  "fs_chmod cf env i mode = op_counter cf env CHMOD (\<lambda>fs.
     case fs_files fs i of
       None \<Rightarrow> Some (NOT_FOUND, fs)
     | Some vf \<Rightarrow> Some (OK, put_file i (vf\<lparr>vf_mode := mode\<rparr>) fs))"

definition fs_chown :: "FsConf \<Rightarrow> FsEnv \<Rightarrow> nat \<Rightarrow> nat \<Rightarrow> nat \<Rightarrow> FS \<Rightarrow> (int \<times> FS) option" where
  "fs_chown cf env i uid gid = op_counter cf env CHOWN (\<lambda>fs.
     case fs_files fs i of
       None \<Rightarrow> Some (NOT_FOUND, fs)
     | Some vf \<Rightarrow> Some (OK, put_file i (set_gid gid (set_uid uid vf)) fs))"

definition AT_SYMLINK_NOFOLLOW :: u32 where "AT_SYMLINK_NOFOLLOW = 0x100"
definition UTIME_OMIT :: int where "UTIME_OMIT = 2 ^ 30 - 2"

definition fs_utimens :: "FsConf \<Rightarrow> FsEnv \<Rightarrow> nat \<Rightarrow> timespec \<Rightarrow> timespec \<Rightarrow> u32 \<Rightarrow> FS \<Rightarrow> (int \<times> FS) option" where
  "fs_utimens cf env i at mt flags = op_counter cf env UTIMENS (\<lambda>fs.
     case fs_files fs i of
       None \<Rightarrow> Some (NOT_FOUND, fs)
     | Some vf \<Rightarrow>
         if vf_isSymlink vf \<and> flags AND AT_SYMLINK_NOFOLLOW = 0 then Some (ISSYM, fs)
         else let vf = (if snd at \<noteq> UTIME_OMIT then vf\<lparr>vf_atime := at\<rparr> else vf);
                  vf = (if snd mt \<noteq> UTIME_OMIT then vf\<lparr>vf_mtime := mt\<rparr> else vf)
         in Some (0, put_file i vf fs))"

definition fs_truncate :: "FsConf \<Rightarrow> FsEnv \<Rightarrow> nat \<Rightarrow> nat \<Rightarrow> FS \<Rightarrow> (int \<times> FS) option" where
  "fs_truncate cf env i len = op_counter cf env TRUNC (\<lambda>fs.
     case fs_files fs i of
       None \<Rightarrow> Some (NOT_FOUND, fs)
     | Some vf \<Rightarrow>
         if vf_isSymlink vf then Some (ISSYM, fs)
         else if vf_isDir vf then Some (ISDIR, fs)
         else if \<not> vf_isFile vf then None
         else map_option (\<lambda>fs. (OK, fs)) (truncate_file cf i vf len fs))"

text \<open>\<^verbatim>\<open>readlink\<close>: the status, and the destination with its size.\<close>

definition fs_readlink :: "FsConf \<Rightarrow> FsEnv \<Rightarrow> nat \<Rightarrow> FS \<Rightarrow> ((int \<times> (string \<times> nat) option) \<times> FS) option" where
  "fs_readlink cf env i = op_counter cf env READLINK (\<lambda>fs.
     case fs_files fs i of
       None \<Rightarrow> Some ((NOT_FOUND, None), fs)
     | Some vf \<Rightarrow>
         (case vf_body vf of
           SymlinkBody dest \<Rightarrow>
             if vf_isSymlink vf \<and> length dest < cf_max_fname_len cf
             then Some ((OK, Some (dest, length dest)), fs) else None
         | _ \<Rightarrow> None))"

section \<open>Listing a directory\<close>

record FauxDirent =
  d_ino :: nat
  d_off :: int
  d_reclen :: nat
  d_type :: nat
  d_name :: string

definition DT_DIR :: nat where "DT_DIR = 4"
definition DT_BLK :: nat where "DT_BLK = 6"
definition DT_REG :: nat where "DT_REG = 8"
definition DT_LNK :: nat where "DT_LNK = 10"

text \<open>\<^verbatim>\<open>ALIGN\<close> of the offset of the name, 19, its length and the terminating zero.\<close>

definition reclen_of :: "string \<Rightarrow> nat" where
  "reclen_of name = (let n = 19 + length name + 1 in (n + 7) div 8 * 8)"

definition shown_ino :: "nat \<Rightarrow> nat" where
  "shown_ino i = (if i = 0 then 0xDEADBEEF else i)"

definition dirent_type :: "VFileLoc \<Rightarrow> nat option" where
  "dirent_type l =
     (if vl_isDir l then Some (if vl_isShared l then DT_BLK else DT_DIR)
      else if vl_isFile l then Some DT_REG
      else if vl_isSymlink l then Some DT_LNK
      else None)"

text \<open>The loop over the children, with its variables \<^verbatim>\<open>i\<close>, \<^verbatim>\<open>offset\<close>, \<^verbatim>\<open>written\<close>: the entries written, the
  children left and the entries given to the application's cache.\<close>

fun dirent_loop ::
    "nat \<Rightarrow> int \<Rightarrow> int \<Rightarrow> nat \<Rightarrow> ChildMap \<Rightarrow> (FauxDirent list \<times> ChildMap \<times> VFileLoc list) option" where
  "dirent_loop n i offset written [] = Some ([], [], [])"
| "dirent_loop n i offset written ((name, l) # rest) =
     (if i < offset then dirent_loop n (i + 1) offset written rest
      else let reclen = reclen_of name
      in if written + reclen > n then Some ([], (name, l) # rest, [])
         else do {
           ty \<leftarrow> dirent_type l;
           (es, left, cached) \<leftarrow> dirent_loop n (i + 1) (offset + 1) (written + reclen) rest;
           Some (\<lparr>d_ino = shown_ino (ino_id (vl_inode l)), d_off = offset + 1, d_reclen = reclen,
                  d_type = ty, d_name = name\<rparr> # es, left,
                 if (ty = DT_DIR \<or> ty = DT_BLK) \<and> name \<noteq> ''..'' then l # cached else cached)
         })"

definition dot_entry :: "nat \<Rightarrow> VFile \<Rightarrow> FauxDirent" where
  "dot_entry i p =
     \<lparr>d_ino = shown_ino i, d_off = 1, d_reclen = reclen_of ''.'', d_type = type_bits (vf_type p) mod 256,
      d_name = ''.''\<rparr>"

text \<open>\<^verbatim>\<open>direntry\<close>: the return value, the records in the buffer, the new \<^verbatim>\<open>*size\<close> and \<^verbatim>\<open>*more\<close>.\<close>

definition fs_direntry ::
    "FsConf \<Rightarrow> FsEnv \<Rightarrow> nat \<Rightarrow> nat \<Rightarrow> int \<Rightarrow> nat \<Rightarrow> FS
     \<Rightarrow> ((int \<times> FauxDirent list \<times> nat \<times> bool) \<times> FS) option" where
  "fs_direntry cf env appid i offset n = op_counter cf env DIRENT (\<lambda>fs.
     case fs_files fs i of
       None \<Rightarrow> Some ((NOT_FOUND, [], 0, False), fs)
     | Some p \<Rightarrow>
         if \<not> vf_isDir p then None
         else do {
           d \<leftarrow> as_dir p;
           (first, pos, offset) \<leftarrow>
             (if d_vdir d then Some ([], 0, offset)
              else if offset \<noteq> 0 then Some ([], 1, offset)
              else if reclen_of ''.'' \<le> n then Some ([dot_entry i p], 1, 1) else None);
           let written = sum_list (map d_reclen first);
           (es, left, cached) \<leftarrow> dirent_loop n pos offset written (d_children d);
           let es = first @ es;
           let written = sum_list (map d_reclen es);
           let fs = (if cf_directory_cache cf then fold (appAddCache appid) cached fs else fs);
           Some ((if written \<noteq> 0 then int (length es) else - 1, es, written, left \<noteq> []), fs)
         })"

end
