(* ===== verification/Fs_Server_Inv.thy ===== *)
theory Fs_Server_Inv
  imports Fs_Server
begin

text \<open>
  The well-formedness invariant of a file-system server and its preservation by every method: objects are
  stored under their own number with a body of their type, and the blocks of different files and of the
  buffer cache are distinct, aligned and never shared.
\<close>

section \<open>The counters do not matter\<close>

definition tick :: "FsConf \<Rightarrow> MessageTypes \<Rightarrow> FS \<Rightarrow> FS" where
  "tick cf op fs = (if cf_show_ops cf then opStart op fs else fs)"

definition tock :: "FsConf \<Rightarrow> FsEnv \<Rightarrow> MessageTypes \<Rightarrow> FS \<Rightarrow> FS" where
  "tock cf env op fs = (if cf_show_ops cf then opEnd env op fs else fs)"

lemma op_counter_eq:
  "op_counter cf env op body fs = map_option (\<lambda>(r, fs). (r, tock cf env op fs)) (body (tick cf op fs))"
  by (cases "body fs") (auto simp: op_counter_def tick_def tock_def)

lemma op_counter_Some:
  "op_counter cf env op body fs = Some (r, fs') \<longleftrightarrow>
     (\<exists>fs1. body (tick cf op fs) = Some (r, fs1) \<and> fs' = tock cf env op fs1)"
  by (cases "body (tick cf op fs)") (auto simp: op_counter_eq)

lemma tick_sel [simp]:
  "fs_id (tick cf op fs) = fs_id fs" "fs_seq (tick cf op fs) = fs_seq fs"
  "fs_files (tick cf op fs) = fs_files fs" "fs_pipes (tick cf op fs) = fs_pipes fs"
  "fs_fds (tick cf op fs) = fs_fds fs" "fs_cache (tick cf op fs) = fs_cache fs"
  "fs_memory (tick cf op fs) = fs_memory fs" "fs_apps (tick cf op fs) = fs_apps fs"
  "fs_sent (tick cf op fs) = fs_sent fs"
  by (simp_all add: tick_def opStart_def)

lemma tock_sel [simp]:
  "fs_id (tock cf env op fs) = fs_id fs" "fs_seq (tock cf env op fs) = fs_seq fs"
  "fs_files (tock cf env op fs) = fs_files fs" "fs_pipes (tock cf env op fs) = fs_pipes fs"
  "fs_fds (tock cf env op fs) = fs_fds fs" "fs_cache (tock cf env op fs) = fs_cache fs"
  "fs_memory (tock cf env op fs) = fs_memory fs" "fs_apps (tock cf env op fs) = fs_apps fs"
  "fs_sent (tock cf env op fs) = fs_sent fs"
  by (simp_all add: tock_def opEnd_def Let_def)

lemma put_file_sel [simp]:
  "fs_files (put_file i vf fs) = (fs_files fs)(i \<mapsto> vf)" "fs_id (put_file i vf fs) = fs_id fs"
  "fs_seq (put_file i vf fs) = fs_seq fs" "fs_pipes (put_file i vf fs) = fs_pipes fs"
  "fs_fds (put_file i vf fs) = fs_fds fs" "fs_cache (put_file i vf fs) = fs_cache fs"
  "fs_memory (put_file i vf fs) = fs_memory fs" "fs_apps (put_file i vf fs) = fs_apps fs"
  "fs_sent (put_file i vf fs) = fs_sent fs"
  by (simp_all add: put_file_def)

lemma put_fd_sel [simp]:
  "fs_files (put_fd fd d fs) = fs_files fs" "fs_id (put_fd fd d fs) = fs_id fs"
  "fs_seq (put_fd fd d fs) = fs_seq fs" "fs_pipes (put_fd fd d fs) = fs_pipes fs"
  "fs_fds (put_fd fd d fs) = AList.update fd d (fs_fds fs)" "fs_cache (put_fd fd d fs) = fs_cache fs"
  "fs_memory (put_fd fd d fs) = fs_memory fs" "fs_apps (put_fd fd d fs) = fs_apps fs"
  "fs_sent (put_fd fd d fs) = fs_sent fs"
  by (simp_all add: put_fd_def)

lemma app_sel [simp]:
  "fs_files (appAddCache a e fs) = fs_files fs" "fs_files (appRemoveCache env a e fs) = fs_files fs"
  "fs_pipes (appAddCache a e fs) = fs_pipes fs" "fs_pipes (appRemoveCache env a e fs) = fs_pipes fs"
  "fs_cache (appAddCache a e fs) = fs_cache fs" "fs_cache (appRemoveCache env a e fs) = fs_cache fs"
  "fs_memory (appAddCache a e fs) = fs_memory fs" "fs_memory (appRemoveCache env a e fs) = fs_memory fs"
  "fs_fds (appAddCache a e fs) = fs_fds fs" "fs_fds (appRemoveCache env a e fs) = fs_fds fs"
  "fs_id (appAddCache a e fs) = fs_id fs" "fs_id (appRemoveCache env a e fs) = fs_id fs"
  "fs_seq (appAddCache a e fs) = fs_seq fs" "fs_seq (appRemoveCache env a e fs) = fs_seq fs"
  by (simp_all add: appAddCache_def appRemoveCache_def split: prod.splits)

lemma fold_appAddCache_sel [simp]:
  "fs_files (fold (appAddCache a) es fs) = fs_files fs" "fs_pipes (fold (appAddCache a) es fs) = fs_pipes fs"
  "fs_cache (fold (appAddCache a) es fs) = fs_cache fs" "fs_memory (fold (appAddCache a) es fs) = fs_memory fs"
  "fs_fds (fold (appAddCache a) es fs) = fs_fds fs" "fs_id (fold (appAddCache a) es fs) = fs_id fs"
  "fs_seq (fold (appAddCache a) es fs) = fs_seq fs"
  by (induction es arbitrary: fs) simp_all

lemma clear_stats_sel [simp]:
  "fs_files (clear_stats fs) = fs_files fs" "fs_pipes (clear_stats fs) = fs_pipes fs"
  "fs_cache (clear_stats fs) = fs_cache fs" "fs_memory (clear_stats fs) = fs_memory fs"
  "fs_fds (clear_stats fs) = fs_fds fs" "fs_id (clear_stats fs) = fs_id fs"
  "fs_apps (clear_stats fs) = fs_apps fs" "fs_sent (clear_stats fs) = fs_sent fs"
  "fs_seq (clear_stats fs) = fs_seq fs"
  by (simp_all add: clear_stats_def)

section \<open>The invariant\<close>

definition blocks_of :: "VFile \<Rightarrow> nat list" where
  "blocks_of vf = (case vf_body vf of FileBody f \<Rightarrow> f_blocks f @ f_orphans f | _ \<Rightarrow> [])"

definition body_ok :: "VFile \<Rightarrow> bool" where
  "body_ok vf = (case vf_body vf of
       FileBody f \<Rightarrow> vf_type vf = TYPE_FILE
     | DirBody d \<Rightarrow> vf_isDir vf
     | PipeBody p \<Rightarrow> vf_type vf = TYPE_PIPE
     | SymlinkBody s \<Rightarrow> vf_type vf = TYPE_SYMLINK)"

definition blocks_ok :: "nat \<Rightarrow> nat \<Rightarrow> nat list \<Rightarrow> bool" where
  "blocks_ok B M bs \<longleftrightarrow> distinct bs \<and> (\<forall>b\<in>set bs. B dvd b \<and> b < M)"

text \<open>One object under the number \<open>i\<close> beside the free blocks.\<close>

definition object_ok :: "nat \<Rightarrow> nat \<Rightarrow> BufferCache \<Rightarrow> nat \<Rightarrow> VFile \<Rightarrow> bool" where
  "object_ok B M bc i vf \<longleftrightarrow> vf_id vf = i \<and> body_ok vf \<and> blocks_ok B M (blocks_of vf @ bc_blocks bc)"

definition files_apart :: "(nat \<rightharpoonup> VFile) \<Rightarrow> bool" where
  "files_apart files \<longleftrightarrow> (\<forall>i j vi vj. i \<noteq> j \<longrightarrow> files i = Some vi \<longrightarrow> files j = Some vj \<longrightarrow>
     set (blocks_of vi) \<inter> set (blocks_of vj) = {})"

lemma files_apartD:
  "files_apart files \<Longrightarrow> i \<noteq> j \<Longrightarrow> files i = Some vi \<Longrightarrow> files j = Some vj \<Longrightarrow>
     set (blocks_of vi) \<inter> set (blocks_of vj) = {}"
  unfolding files_apart_def by blast

definition orphans_ok :: "(nat \<rightharpoonup> VFile) \<Rightarrow> bool" where
  "orphans_ok files \<longleftrightarrow> (\<exists>vf d. files ORPHANS_INO = Some vf \<and> vf_body vf = DirBody d)"

definition server_inv :: "nat \<Rightarrow> nat \<Rightarrow> (nat \<rightharpoonup> VFile) \<Rightarrow> (nat \<rightharpoonup> VFile) \<Rightarrow> BufferCache \<Rightarrow> bool" where
  "server_inv B M files pipes bc \<longleftrightarrow>
     M < 2 ^ 64 \<and> (\<forall>i vf. files i = Some vf \<longrightarrow> object_ok B M bc i vf)
     \<and> (\<forall>i vf. pipes i = Some vf \<longrightarrow> vf_id vf = i \<and> vf_type vf = TYPE_PIPE \<and> body_ok vf)
     \<and> files_apart files \<and> orphans_ok files \<and> bc_invar bc \<and> blocks_ok B M (bc_blocks bc)"

abbreviation fs_inv :: "nat \<Rightarrow> nat \<Rightarrow> FS \<Rightarrow> bool" where
  "fs_inv B M fs \<equiv> server_inv B M (fs_files fs) (fs_pipes fs) (fs_cache fs)"

lemma blocks_ok_mset: "blocks_ok B M xs \<Longrightarrow> mset ys = mset xs \<Longrightarrow> blocks_ok B M ys"
  unfolding blocks_ok_def by (metis mset_eq_imp_distinct_iff mset_eq_setD)

lemma blocks_ok_append:
  "blocks_ok B M (xs @ ys) \<longleftrightarrow> blocks_ok B M xs \<and> blocks_ok B M ys \<and> set xs \<inter> set ys = {}"
  by (auto simp: blocks_ok_def)

lemma blocks_ok_length: "blocks_ok B M xs \<Longrightarrow> length xs \<le> M"
proof -
  assume "blocks_ok B M xs"
  then have "length xs = card (set xs)" "set xs \<subseteq> {..<M}" by (auto simp: blocks_ok_def distinct_card)
  then show ?thesis using card_mono [of "{..<M}" "set xs"] by simp
qed

text \<open>The one rule behind every change of an object: its blocks and the free blocks stay the same together.\<close>

lemma server_inv_update:
  assumes inv: "server_inv B M files pipes bc" and old: "files i = Some vf \<or> (files i = None \<and> blocks_of vf = [])"
    and new: "vf_id vf' = i" "body_ok vf'" "i = ORPHANS_INO \<longrightarrow> (\<exists>d. vf_body vf' = DirBody d)"
    and cons: "mset (blocks_of vf') + mset (bc_blocks bc') = mset (blocks_of vf) + mset (bc_blocks bc)"
    and bc': "bc_invar bc'"
  shows "server_inv B M (files(i \<mapsto> vf')) pipes bc'"
proof -
  have pool: "blocks_ok B M (blocks_of vf @ bc_blocks bc)"
    using inv old by (auto simp: server_inv_def object_ok_def)
  then have pool': "blocks_ok B M (blocks_of vf' @ bc_blocks bc')"
    by (rule blocks_ok_mset) (simp add: cons)
  have sets: "set (blocks_of vf') \<union> set (bc_blocks bc') = set (blocks_of vf) \<union> set (bc_blocks bc)"
    using arg_cong [OF cons, of set_mset] by simp
  have apart: "set (blocks_of vj) \<inter> (set (blocks_of vf) \<union> set (bc_blocks bc)) = {}"
    if "files j = Some vj" "j \<noteq> i" for j vj
  proof -
    have "set (blocks_of vj) \<inter> set (bc_blocks bc) = {}"
      using inv that(1) by (auto simp: server_inv_def object_ok_def blocks_ok_append)
    moreover have "set (blocks_of vj) \<inter> set (blocks_of vf) = {}"
      using old files_apartD [of files j i vj vf] that inv by (auto simp: server_inv_def)
    ultimately show ?thesis by auto
  qed
  have others: "object_ok B M bc' j vj \<and> set (blocks_of vj) \<inter> set (blocks_of vf') = {}"
    if "files j = Some vj" "j \<noteq> i" for j vj
  proof -
    have "vf_id vj = j" "body_ok vj" "blocks_ok B M (blocks_of vj)"
      using inv that(1) by (auto simp: server_inv_def object_ok_def blocks_ok_append)
    then show ?thesis
      using apart [OF that] pool' sets by (auto simp: object_ok_def blocks_ok_append)
  qed
  have "files_apart (files(i \<mapsto> vf'))"
    using inv others unfolding files_apart_def server_inv_def by (auto split: if_splits)
  moreover have "orphans_ok (files(i \<mapsto> vf'))"
    using inv new(3) by (auto simp: server_inv_def orphans_ok_def)
  moreover have "object_ok B M bc' i vf'" using new pool' by (simp add: object_ok_def)
  ultimately show ?thesis
    using inv bc' others pool' unfolding server_inv_def by (auto simp: blocks_ok_append)
qed

lemma server_inv_fresh:
  assumes "server_inv B M files pipes bc" "vf_id vf' = i" "body_ok vf'" "blocks_of vf' = []"
    and "i = ORPHANS_INO \<longrightarrow> (\<exists>d. vf_body vf' = DirBody d)"
  shows "server_inv B M (files(i \<mapsto> vf')) pipes bc"
  using assms unfolding server_inv_def files_apart_def orphans_ok_def object_ok_def
  by (auto split: if_splits)

text \<open>Two more things are followed along a run: that files have the numbers \<open>N\<close>, and that the blocks of the files
  and the free ones together are the blocks \<open>U\<close>.\<close>

definition owned :: "(nat \<rightharpoonup> VFile) \<Rightarrow> BufferCache \<Rightarrow> nat set" where
  "owned files bc = set (bc_blocks bc) \<union> (\<Union>vf\<in>ran files. set (blocks_of vf))"

definition server_own ::
    "nat \<Rightarrow> nat \<Rightarrow> nat set option \<Rightarrow> nat set \<Rightarrow> (nat \<rightharpoonup> VFile) \<Rightarrow> (nat \<rightharpoonup> VFile) \<Rightarrow> BufferCache \<Rightarrow> bool" where
  "server_own B M U N files pipes bc \<longleftrightarrow> server_inv B M files pipes bc
     \<and> (\<forall>i vf f. files i = Some vf \<and> vf_body vf = FileBody f \<longrightarrow> i \<in> N)
     \<and> (\<forall>u. U = Some u \<longrightarrow> owned files bc = u)"

abbreviation fs_own :: "nat \<Rightarrow> nat \<Rightarrow> nat set option \<Rightarrow> nat set \<Rightarrow> FS \<Rightarrow> bool" where
  "fs_own B M U N fs \<equiv> server_own B M U N (fs_files fs) (fs_pipes fs) (fs_cache fs)"

lemma own_trivial: "server_own B M None UNIV files pipes bc = server_inv B M files pipes bc"
  by (simp add: server_own_def)

lemma own_inv: "server_own B M U N files pipes bc \<Longrightarrow> server_inv B M files pipes bc"
  by (simp add: server_own_def)

lemma own_mono: "server_own B M U N files pipes bc \<Longrightarrow> N \<subseteq> N' \<Longrightarrow> server_own B M U N' files pipes bc"
  unfolding server_own_def by blast

lemma owned_at:
  "owned (files(i \<mapsto> vf)) bc = set (blocks_of vf) \<union> owned (files(i := None)) bc"
  "files i = Some vf \<Longrightarrow> owned files bc = set (blocks_of vf) \<union> owned (files(i := None)) bc"
proof -
  have "ran (files(i \<mapsto> vf)) = insert vf (ran (files(i := None)))" for vf by (auto simp: ran_def)
  then show upd: "owned (files(i \<mapsto> vf)) bc = set (blocks_of vf) \<union> owned (files(i := None)) bc" for vf
    by (auto simp: owned_def)
  show "files i = Some vf \<Longrightarrow> owned files bc = set (blocks_of vf) \<union> owned (files(i := None)) bc"
    using upd [of vf] by (simp add: fun_upd_idem)
qed

lemma owned_cache: "set (bc_blocks bc') \<union> s' = set (bc_blocks bc) \<union> s \<Longrightarrow> s' \<union> owned files bc' = s \<union> owned files bc"
  by (auto simp: owned_def)

lemma server_own_update:
  assumes own: "server_own B M U N files pipes bc" and old: "files i = Some vf \<or> (files i = None \<and> blocks_of vf = [])"
    and new: "vf_id vf' = i" "body_ok vf'" "i = ORPHANS_INO \<longrightarrow> (\<exists>d. vf_body vf' = DirBody d)"
    and cons: "mset (blocks_of vf') + mset (bc_blocks bc') = mset (blocks_of vf) + mset (bc_blocks bc)"
    and bc': "bc_invar bc'" and num: "\<And>f. vf_body vf' = FileBody f \<Longrightarrow> i \<in> N"
  shows "server_own B M U N (files(i \<mapsto> vf')) pipes bc'"
proof -
  have "set (blocks_of vf') \<union> set (bc_blocks bc') = set (blocks_of vf) \<union> set (bc_blocks bc)"
    using arg_cong [OF cons, of set_mset] by simp
  then have "owned (files(i \<mapsto> vf')) bc' = set (blocks_of vf) \<union> owned (files(i := None)) bc"
    unfolding owned_at(1) by (intro owned_cache) auto
  also have "\<dots> = owned files bc" using old owned_at(2) [of files i vf bc] by (auto simp: fun_upd_idem)
  finally show ?thesis
    using own server_inv_update [OF own_inv [OF own] old new cons bc'] num by (auto simp: server_own_def)
qed

lemma server_own_same:
  assumes "server_own B M U N files pipes bc" "files i = Some vf" "vf_id vf' = i" "body_ok vf'"
    and "i = ORPHANS_INO \<longrightarrow> (\<exists>d. vf_body vf' = DirBody d)" "blocks_of vf' = blocks_of vf"
    and "\<And>f. vf_body vf' = FileBody f \<Longrightarrow> i \<in> N"
  shows "server_own B M U N (files(i \<mapsto> vf')) pipes bc"
proof (rule server_own_update [OF assms(1) _ assms(3-5)])
  show "bc_invar bc" using own_inv [OF assms(1)] by (simp add: server_inv_def)
qed (use assms(2,6,7) in auto)

text \<open>An object under a new number; a number in use would lose the blocks of its file.\<close>

lemma server_own_fresh:
  assumes own: "server_own B M U N files pipes bc" and new: "vf_id vf' = i" "body_ok vf'" "blocks_of vf' = []"
    "i = ORPHANS_INO \<longrightarrow> (\<exists>d. vf_body vf' = DirBody d)"
    and unused: "files i = None \<or> i \<notin> N \<or> U = None"
    and num: "\<And>f. vf_body vf' = FileBody f \<Longrightarrow> i \<in> N'" "N \<subseteq> N'"
  shows "server_own B M U N' (files(i \<mapsto> vf')) pipes bc"
proof -
  have "server_inv B M (files(i \<mapsto> vf')) pipes bc"
    by (rule server_inv_fresh [OF own_inv [OF own] new])
  moreover have "owned (files(i \<mapsto> vf')) bc = owned files bc" if "files i = None \<or> i \<notin> N"
  proof (cases "files i")
    case None
    then have "files(i := None) = files" by (rule fun_upd_idem)
    then show ?thesis using owned_at(1) [of files i vf' bc] new(3) by simp
  next
    case (Some vf)
    then have "i \<notin> N" using that by simp
    then have "\<forall>f. vf_body vf \<noteq> FileBody f" using own Some unfolding server_own_def by blast
    then have "blocks_of vf = []" by (auto simp: blocks_of_def split: VBody.splits)
    then have "owned files bc = owned (files(i := None)) bc" using owned_at(2) [of files i vf bc, OF Some] by simp
    then show ?thesis using owned_at(1) [of files i vf' bc] new(3) by simp
  qed
  moreover have "j \<in> N'" if "(files(i \<mapsto> vf')) j = Some vj" "vf_body vj = FileBody f" for j vj f
  proof (cases "j = i")
    case False
    then show ?thesis using own num(2) that unfolding server_own_def by auto
  qed (use num(1) that in auto)
  moreover have "owned files bc = u" if "U = Some u" for u using own that unfolding server_own_def by blast
  ultimately show ?thesis using unused unfolding server_own_def by (metis option.distinct(1))
qed

lemma server_own_pipe:
  assumes "server_own B M U N files pipes bc" "vf_id vf' = i" "vf_type vf' = TYPE_PIPE" "body_ok vf'"
  shows "server_own B M U N files (pipes(i \<mapsto> vf')) bc"
  using assms unfolding server_own_def server_inv_def by auto

lemma server_own_pipe_gone:
  "server_own B M U N files pipes bc \<Longrightarrow> server_own B M U N files (pipes(i := None)) bc"
  unfolding server_own_def server_inv_def by auto

lemma server_own_erase:
  assumes own: "server_own B M U N files pipes bc" and vf: "files i = Some vf" "i \<noteq> ORPHANS_INO"
    and bc': "mset (bc_blocks bc') = mset (blocks_of vf) + mset (bc_blocks bc)" "bc_invar bc'"
  shows "server_own B M U N (files(i := None)) pipes bc'"
proof -
  let ?vf = "vf\<lparr>vf_body := FileBody File_new, vf_type := TYPE_FILE\<rparr>"
  note inv = own_inv [OF own]
  have "blocks_of ?vf = []" "body_ok ?vf" "vf_id ?vf = i"
    using inv vf by (auto simp: blocks_of_def File_new_def body_ok_def server_inv_def object_ok_def)
  then have "server_inv B M (files(i \<mapsto> ?vf)) pipes bc'"
    using server_inv_update [OF inv, of i vf ?vf bc'] vf bc' by simp
  then have "server_inv B M (files(i := None)) pipes bc'"
    using vf(2) unfolding server_inv_def files_apart_def orphans_ok_def by (auto split: if_splits)
  moreover have "set (bc_blocks bc') \<union> {} = set (bc_blocks bc) \<union> set (blocks_of vf)"
    using arg_cong [OF bc'(1), of set_mset] by auto
  from owned_cache [OF this] have "owned (files(i := None)) bc' = owned files bc"
    unfolding owned_at(2) [of files i vf bc, OF vf(1)] by simp
  ultimately show ?thesis using own by (auto simp: server_own_def)
qed

lemma mset_two: "mset xs + (mset ys + mset zs) = mset (ys @ xs) + mset zs"
  by (simp add: union_ac)

lemma erase_delete_own:
  assumes inv: "fs_own B M U N fs" and vf: "fs_files fs i = Some vf" and e: "erase_delete i vf fs = Some fs'"
  shows "fs_own B M U N fs' \<and> fs_files fs' i = None"
proof -
  have i: "i \<noteq> ORPHANS_INO" using e by (auto simp: erase_delete_def split: if_splits)
  have files: "fs_files fs' = (fs_files fs)(i := None)" "fs_pipes fs' = fs_pipes fs"
    using e by (auto simp: erase_delete_def Let_def split: if_splits VBody.splits)
  have bc: "bc_invar (fs_cache fs)" and pool: "blocks_ok B M (blocks_of vf @ bc_blocks (fs_cache fs))" and M: "M < 2 ^ 64"
    using inv vf by (auto simp: server_own_def server_inv_def object_ok_def)
  have "mset (bc_blocks (fs_cache fs')) = mset (blocks_of vf) + mset (bc_blocks (fs_cache fs)) \<and> bc_invar (fs_cache fs')"
  proof (cases "vf_body vf")
    case (FileBody f)
    then have "file_pool f (fs_cache fs) = mset (blocks_of vf @ bc_blocks (fs_cache fs))"
      by (simp add: file_pool_def blocks_of_def)
    moreover from this have "size (file_pool f (fs_cache fs)) < 2 ^ 64"
      using blocks_ok_length [OF pool] M by simp
    ultimately show ?thesis
      using File_delete_pool [OF bc, of f] FileBody e
      by (auto simp: erase_delete_def Let_def split: if_splits)
  qed (use e bc in \<open>auto simp: erase_delete_def Let_def blocks_of_def split: if_splits\<close>)
  with server_own_erase [OF inv vf i] files show ?thesis by simp
qed

text \<open>Changing a file in place.\<close>

lemma server_own_file:
  assumes inv: "server_own B M U N files pipes bc" and vf: "files i = Some vf" "vf_body vf = FileBody f"
    and new: "vf_id vf' = vf_id vf" "vf_type vf' = vf_type vf" "vf_body vf' = FileBody f'"
    and pool: "bc_invar bc'" "file_pool f' bc' = file_pool f bc"
  shows "server_own B M U N (files(i \<mapsto> vf')) pipes bc'"
proof (rule server_own_update [OF inv])
  have ok: "object_ok B M bc i vf" using inv vf(1) by (simp add: server_own_def server_inv_def)
  then show "vf_id vf' = i" "body_ok vf'" using vf new by (simp_all add: object_ok_def body_ok_def)
  show "mset (blocks_of vf') + mset (bc_blocks bc') = mset (blocks_of vf) + mset (bc_blocks bc)"
    using pool(2) vf(2) new(3) by (simp add: file_pool_def blocks_of_def)
  show "i = ORPHANS_INO \<longrightarrow> (\<exists>d. vf_body vf' = DirBody d)"
    using inv vf by (auto simp: server_own_def server_inv_def orphans_ok_def)
  show "i \<in> N" using inv vf by (simp add: server_own_def)
qed (use vf(1) pool(1) in auto)

lemma truncate_file_own:
  assumes inv: "fs_own B M U N fs" and vf: "fs_files fs i = Some vf"
    and vf2: "vf_id vf2 = vf_id vf" "vf_type vf2 = vf_type vf" "vf_body vf2 = vf_body vf"
    and t: "truncate_file cf i vf2 n fs = Some fs'"
  shows "fs_own B M U N fs' \<and> fs_files fs' i \<noteq> None"
proof -
  from t vf2(3) obtain f r f' bc' where f: "vf_body vf = FileBody f"
    and tr: "File_truncate (cf_block_size cf) n f (fs_cache fs) = Some (r, f', bc')"
    and fs': "fs' = put_file i (vf2\<lparr>vf_body := FileBody f'\<rparr>) (fs\<lparr>fs_cache := bc'\<rparr>)"
    by (auto simp: truncate_file_def as_file_def split: VBody.splits bind_splits)
  have bc: "bc_invar (fs_cache fs)" using inv by (simp add: server_own_def server_inv_def)
  have "bc_invar bc' \<and> file_pool f' bc' = file_pool f (fs_cache fs)"
    using file_step_pool [OF bc, of "cf_block_size cf" "Op_Truncate n" f "\<lambda>_. 0"] tr by simp
  then show ?thesis
    using server_own_file [OF inv vf f, of "vf2\<lparr>vf_body := FileBody f'\<rparr>" f' bc'] vf2 fs' by simp
qed

lemma write_file_own:
  assumes inv: "fs_own B M U N fs" and vf: "fs_files fs i = Some vf"
    and w: "write_file cf env i vf buf offset fs = Some (r, fs')"
  shows "fs_own B M U N fs' \<and> fs_files fs' i \<noteq> None"
proof -
  from w obtain f f' bc' m' where f: "vf_body vf = FileBody f"
    and wr: "File_write (cf_block_size cf) buf offset f (fs_cache fs) (fs_memory fs) = Some (r, f', bc', m')"
    by (auto simp: write_file_def as_file_def Let_def split: VBody.splits bind_splits)
  define vf' where "vf' = (if r > 0 then vf\<lparr>vf_body := FileBody f', vf_atime := en_now env, vf_mtime := en_now env\<rparr>
    else vf\<lparr>vf_body := FileBody f'\<rparr>)"
  have fs': "fs' = put_file i vf' (fs\<lparr>fs_cache := bc', fs_memory := m'\<rparr>)"
    using w f wr by (auto simp: write_file_def as_file_def vf'_def Let_def)
  have bc: "bc_invar (fs_cache fs)" using inv by (simp add: server_own_def server_inv_def)
  have "bc_invar bc' \<and> file_pool f' bc' = file_pool f (fs_cache fs)"
    using file_step_pool [OF bc, of "cf_block_size cf" "Op_Write buf offset" f "fs_memory fs"] wr by simp
  then show ?thesis
    using server_own_file [OF inv vf f, of vf' f' bc'] fs' by (simp add: vf'_def)
qed

section \<open>Every method preserves the invariant\<close>

lemma VFile_new_facts:
  assumes "VFile_new env server type mode body seq = Some (vf, seq')"
  shows "vf_id vf = inode_number server seq" "vf_type vf = type" "vf_body vf = body" "seq' = seq + 1" "seq < 2 ^ 31 - 1"
  using assms by (auto simp: VFile_new_def split: if_splits)

lemma new_Dir_facts:
  assumes "new_Dir cf env server vdir mode seq = Some (vf, seq')"
  shows "vf_id vf = inode_number server seq" "vf_isDir vf" "blocks_of vf = []"
    "vf_body vf = DirBody \<lparr>d_vdir = vdir, d_locked = False, d_children = []\<rparr>" "seq' = seq + 1"
  using VFile_new_facts [OF assms [unfolded new_Dir_def]] by (auto simp: vf_isDir_def blocks_of_def)

lemma new_File_facts:
  assumes "new_File env server mode seq = Some (vf, seq')"
  shows "vf_id vf = inode_number server seq" "vf_type vf = TYPE_FILE" "blocks_of vf = []"
    "vf_body vf = FileBody File_new" "seq' = seq + 1"
  using VFile_new_facts [OF assms [unfolded new_File_def]] by (auto simp: blocks_of_def File_new_def)

lemma inode_number_small:
  assumes "seq < 2 ^ 31"
  shows "inode_number server seq < 2 ^ 32"
proof -
  have "seq AND INODE_MASK \<le> INODE_MASK" by (rule and_nat_le)
  then have "seq AND INODE_MASK < 2 ^ 32" by (simp add: INODE_MASK_def)
  moreover have "push_bit INODE_SHIFT server mod 2 ^ 32 < (2 :: nat) ^ 32" by simp
  ultimately have "take_bit 32 ((seq AND INODE_MASK) OR (push_bit INODE_SHIFT server mod 2 ^ 32))
      = (seq AND INODE_MASK) OR (push_bit INODE_SHIFT server mod 2 ^ 32)"
    by (simp only: take_bit_or take_bit_nat_eq_self)
  then have "(seq AND INODE_MASK) OR (push_bit INODE_SHIFT server mod 2 ^ 32) < 2 ^ 32"
    by (metis take_bit_nat_less_exp)
  then show ?thesis using assms by (simp add: inode_number_def)
qed

lemma new_not_orphans:
  assumes "VFile_new env server type mode body seq = Some (vf, seq')"
  shows "vf_id vf \<noteq> ORPHANS_INO"
  using VFile_new_facts [OF assms] inode_number_small [of seq server] by (auto simp: ORPHANS_INO_def)

lemma lazy_dir_own:
  assumes "fs_own B M U N fs" "lazy_dir cf env i fs = Some fs'"
  shows "fs_own B M U N fs' \<and> fs_id fs' = fs_id fs \<and> fs_fds fs' = fs_fds fs \<and> fs_files fs' i \<noteq> None
    \<and> fs_seq fs \<le> fs_seq fs'"
proof (cases "fs_files fs i")
  case None
  then obtain vf seq where n: "new_Dir cf env (fs_id fs) True 0x1FF (fs_seq fs) = Some (vf, seq)"
    and fs': "fs' = put_file i (vf\<lparr>vf_id := i\<rparr>) (fs\<lparr>fs_seq := seq\<rparr>)"
    using assms(2) by (auto simp: lazy_dir_def split: bind_splits)
  have "body_ok (vf\<lparr>vf_id := i\<rparr>)" "blocks_of (vf\<lparr>vf_id := i\<rparr>) = []" "\<exists>d. vf_body (vf\<lparr>vf_id := i\<rparr>) = DirBody d"
    using new_Dir_facts [OF n] by (auto simp: body_ok_def blocks_of_def vf_isDir_def)
  then have "server_own B M U N ((fs_files fs)(i \<mapsto> vf\<lparr>vf_id := i\<rparr>)) (fs_pipes fs) (fs_cache fs)"
    using None by (intro server_own_fresh [OF assms(1)]) auto
  then show ?thesis using fs' new_Dir_facts(5) [OF n] by simp
qed (use assms in \<open>auto simp: lazy_dir_def\<close>)

text \<open>Replacing an object that is not a file, or changing what is not its blocks.\<close>

lemma fs_own_objectD:
  "fs_own B M U N fs \<Longrightarrow> fs_files fs i = Some vf \<Longrightarrow> vf_id vf = i \<and> body_ok vf"
  by (auto simp: server_own_def server_inv_def object_ok_def)

lemma body_ok_cong:
  "vf_type vf' = vf_type vf \<Longrightarrow> vf_body vf' = vf_body vf \<Longrightarrow> body_ok vf' = body_ok vf"
  by (cases "vf_body vf") (simp_all add: body_ok_def vf_isDir_def)

lemma fs_own_attr:
  assumes "fs_own B M U N fs" "fs_files fs i = Some vf"
    and "vf_id vf' = vf_id vf" "vf_type vf' = vf_type vf" "vf_body vf' = vf_body vf"
  shows "server_own B M U N ((fs_files fs)(i \<mapsto> vf')) (fs_pipes fs) (fs_cache fs)"
proof (rule server_own_same [OF assms(1,2)])
  show "i = ORPHANS_INO \<longrightarrow> (\<exists>d. vf_body vf' = DirBody d)"
    using assms by (auto simp: server_own_def server_inv_def orphans_ok_def)
  show "i \<in> N" if "vf_body vf' = FileBody f" for f
  proof -
    have "vf_body vf = FileBody f" using that assms(5) by simp
    with assms(1,2) show ?thesis unfolding server_own_def by blast
  qed
qed (use fs_own_objectD [OF assms(1,2)] assms(3-) body_ok_cong [OF assms(4,5)] in \<open>auto simp: blocks_of_def\<close>)

lemma fs_own_dir:
  assumes "fs_own B M U N fs" "fs_files fs i = Some vf" "vf_body vf = DirBody d"
  shows "server_own B M U N ((fs_files fs)(i \<mapsto> vf\<lparr>vf_body := DirBody d'\<rparr>)) (fs_pipes fs) (fs_cache fs)"
proof (rule server_own_same [OF assms(1,2)])
  show "body_ok (vf\<lparr>vf_body := DirBody d'\<rparr>)"
    using fs_own_objectD [OF assms(1,2)] assms(3) by (simp add: body_ok_def vf_isDir_def)
qed (use fs_own_objectD [OF assms(1,2)] assms(3) in \<open>auto simp: blocks_of_def\<close>)

lemma fs_own_size:
  assumes "fs_own B M U N fs" "fs_files fs i = Some vf" "vf_body vf = FileBody f"
  shows "server_own B M U N ((fs_files fs)(i \<mapsto> vf\<lparr>vf_body := FileBody (f\<lparr>f_size := n\<rparr>)\<rparr>)) (fs_pipes fs) (fs_cache fs)"
  using server_own_file [OF assms, of "vf\<lparr>vf_body := FileBody (f\<lparr>f_size := n\<rparr>)\<rparr>" "f\<lparr>f_size := n\<rparr>" "fs_cache fs"]
    assms(1) by (simp add: server_own_def server_inv_def)

lemmas as_defs = as_dir_def as_file_def as_pipe_def

lemma as_dir_eq [simp]: "as_dir vf = Some d \<longleftrightarrow> vf_body vf = DirBody d"
  by (auto simp: as_dir_def split: VBody.splits)

lemma as_file_eq [simp]: "as_file vf = Some f \<longleftrightarrow> vf_body vf = FileBody f"
  by (auto simp: as_file_def split: VBody.splits)

lemma as_pipe_eq [simp]: "as_pipe vf = Some p \<longleftrightarrow> vf_body vf = PipeBody p"
  by (auto simp: as_pipe_def split: VBody.splits)

text \<open>The numbers a call hands out, and that none of them is the number of a file whose blocks are accounted for.\<close>

definition new_numbers :: "FS \<Rightarrow> FS \<Rightarrow> nat set" where
  "new_numbers fs fs' = inode_number (fs_id fs) ` {fs_seq fs..<fs_seq fs'}"

lemma create_own:
  assumes "fs_own B M U N fs" "fs_create cf env parent path flags mode fs = Some (r, fs')"
    and "U = None \<or> N \<inter> new_numbers fs fs' = {}"
  shows "fs_own B M U (N \<union> new_numbers fs fs') fs'"
proof -
  let ?fs0 = "tick cf CREATE fs"
  from assms(2) obtain fs1 where l: "lazy_dir cf env (ino_id parent) ?fs0 = Some fs1"
    by (auto simp: fs_create_def op_counter_Some split: bind_splits)
  have inv1: "fs_own B M U N fs1" "fs_id fs1 = fs_id fs" "fs_seq fs \<le> fs_seq fs1"
    using lazy_dir_own [OF _ l] assms(1) by simp_all
  have new: "fs_own B M U (N \<union> new_numbers fs fs') fs'"
    if "VFile_new env (fs_id fs1) t mo body (fs_seq fs1) = Some (vf, q)" "body_ok vf" "blocks_of vf = []"
      "fs' = tock cf env CREATE (put_file (vf_id vf) vf (fs1\<lparr>fs_seq := q\<rparr>))" for vf t mo body q
  proof -
    have "vf_id vf \<in> new_numbers fs fs'"
      using VFile_new_facts [OF that(1)] that(4) inv1(2,3) by (auto simp: new_numbers_def)
    then have "server_own B M U (N \<union> new_numbers fs fs') ((fs_files fs1)(vf_id vf \<mapsto> vf)) (fs_pipes fs1) (fs_cache fs1)"
      using new_not_orphans [OF that(1)] assms(3) by (intro server_own_fresh [OF inv1(1) refl that(2,3)]) auto
    then show ?thesis using that(4) by simp
  qed
  have f: "fs_own B M U (N \<union> new_numbers fs fs') fs'"
    if "new_File env (fs_id fs1) mo (fs_seq fs1) = Some (vf, q)"
      "fs' = tock cf env CREATE (put_file (vf_id vf) vf (fs1\<lparr>fs_seq := q\<rparr>))" for vf mo q
    using new [OF that(1) [unfolded new_File_def] _ _ that(2)] new_File_facts [OF that(1)] by (simp add: body_ok_def)
  have d: "fs_own B M U (N \<union> new_numbers fs fs') fs'"
    if "new_Dir cf env (fs_id fs1) v mo (fs_seq fs1) = Some (vf, q)"
      "fs' = tock cf env CREATE (put_file (vf_id vf) vf (fs1\<lparr>fs_seq := q\<rparr>))" for vf v mo q
    using new [OF that(1) [unfolded new_Dir_def] _ _ that(2)] new_Dir_facts [OF that(1)] by (simp add: body_ok_def)
  have "fs' = tock cf env CREATE fs1 \<Longrightarrow> fs_own B M U (N \<union> new_numbers fs fs') fs'"
    using own_mono [OF inv1(1)] by simp
  then show ?thesis
    using assms(2) l f d
    by (auto simp: fs_create_def op_counter_Some Let_def split: bind_splits if_splits option.splits)
qed

lemma add_orphan_own:
  assumes "fs_own B M U N fs" "add_orphan cf env name vf fs = Some fs'"
  shows "fs_own B M U N fs'"
  using assms fs_own_dir [OF assms(1)]
  by (auto simp: add_orphan_def Let_def split: if_splits bind_splits)

lemma remove_object_own:
  assumes "fs_own B M U N fs" "fs_files fs i = Some c" "remove_object cf env name i c fs = Some (r, fs')"
  shows "fs_own B M U N fs'"
  using assms add_orphan_own [OF assms(1)] erase_delete_own [OF assms(1,2)]
  by (auto simp: remove_object_def split: if_splits)

lemma destroy_own:
  assumes "fs_own B M U N fs" "fs_destroy cf env i fs = Some (r, fs')"
  shows "fs_own B M U N fs'"
proof -
  have inv: "fs_own B M U N (tick cf DESTROY fs)" using assms(1) by simp
  show ?thesis
    using assms(2) inv erase_delete_own [OF inv] remove_object_own [OF inv]
    by (auto simp: fs_destroy_def op_counter_Some split: option.splits if_splits)
qed

lemma unlink_own:
  assumes "fs_own B M U N fs" "fs_unlink cf env i fs = Some (r, fs')"
  shows "fs_own B M U N fs'"
proof -
  have inv: "fs_own B M U N (tick cf UNLINK fs)" using assms(1) by simp
  show ?thesis
    using assms(2) inv remove_object_own [OF inv]
    by (auto simp: fs_unlink_def op_counter_Some split: option.splits if_splits)
qed

lemma set_locked_own:
  assumes "fs_own B M U N fs" "fs_files fs i = Some vf" "vf_body vf = DirBody d"
  shows "fs_own B M U N (set_locked i vf d l fs)"
  using fs_own_dir [OF assms] by (simp add: set_locked_def)

lemma remove_object_locked_own:
  assumes "fs_own B M U N fs" "fs_files fs i = Some vf" "vf_body vf = DirBody d"
    and "remove_object cf env name i vf (set_locked i vf d l fs) = Some (r, fs')"
  shows "fs_own B M U N fs'"
proof -
  let ?vf = "vf\<lparr>vf_body := DirBody (d\<lparr>d_locked := l\<rparr>)\<rparr>"
  have "add_orphan cf env name ?vf s = add_orphan cf env name vf s" for s by (simp add: add_orphan_def)
  moreover have "erase_delete i ?vf s = erase_delete i vf s" for s
    using assms(3) by (simp add: erase_delete_def)
  ultimately have "remove_object cf env name i ?vf (set_locked i vf d l fs) = Some (r, fs')"
    using assms(4) by (auto simp: remove_object_def split: if_splits)
  moreover have "fs_files (set_locked i vf d l fs) i = Some ?vf" by (simp add: set_locked_def)
  ultimately show ?thesis using remove_object_own [OF set_locked_own [OF assms(1-3)]] by blast
qed

lemma rmdir_own:
  assumes "fs_own B M U N fs" "fs_rmdir cf env i phase fs = Some (r, fs')"
  shows "fs_own B M U N fs'"
proof -
  from assms(2) obtain fs1 where l: "lazy_dir cf env i (tick cf RMDIR fs) = Some fs1"
    by (auto simp: fs_rmdir_def op_counter_Some split: bind_splits)
  have inv: "fs_own B M U N fs1" using lazy_dir_own [OF _ l] assms(1) by simp
  show ?thesis
    using assms(2) l inv remove_object_own [OF inv] remove_object_locked_own [OF inv] set_locked_own [OF inv]
    by (auto simp: fs_rmdir_def op_counter_Some Let_def split: bind_splits if_splits)
qed

lemma open_own:
  assumes "fs_own B M U N fs" "fs_open cf env i flags fs = Some (r, fs')"
  shows "fs_own B M U N fs'"
proof -
  have inv: "fs_own B M U N (put_fd fd d (tick cf OPEN fs))" for fd d using assms(1) by simp
  have t: "fs_own B M U N fs1"
    if "fs_files fs i = Some vf" "truncate_file cf i (vf\<lparr>vf_ctime := t1, vf_atime := t2, vf_mtime := t3\<rparr>) n
          (put_fd fd d (tick cf OPEN fs)) = Some fs1" for vf t1 t2 t3 n fd d fs1
    using truncate_file_own [OF inv _ _ _ _ that(2)] that(1) by simp
  show ?thesis
    using assms t by (auto simp: fs_open_def op_counter_Some Let_def split: option.splits if_splits bind_splits)
qed

lemma pipe_own:
  assumes "fs_own B M U N fs" "fs_pipe cf env fs = Some (r, fs')"
  shows "fs_own B M U N fs'"
proof -
  from assms(2) obtain vf seq where
    n: "new_Pipe env (fs_id fs) 0x1FF (en_rand env) (en_rand2 env) (fs_seq fs) = Some (vf, seq)"
    and fs': "fs_files fs' = fs_files fs" "fs_pipes fs' = (fs_pipes fs)(vf_id vf \<mapsto> vf)" "fs_cache fs' = fs_cache fs"
    by (auto simp: fs_pipe_def op_counter_Some Let_def split: bind_splits)
  have "vf_type vf = TYPE_PIPE" "body_ok vf"
    using VFile_new_facts [OF n [unfolded new_Pipe_def]] by (auto simp: body_ok_def)
  then show ?thesis using server_own_pipe [OF assms(1) refl] fs' by simp
qed

lemma pipe_body_own:
  assumes "fs_own B M U N fs" "fs_pipes fs i = Some vf" "vf_body vf = PipeBody p"
  shows "server_own B M U N (fs_files fs) ((fs_pipes fs)(i \<mapsto> vf\<lparr>vf_body := PipeBody p'\<rparr>)) (fs_cache fs)"
  using assms by (intro server_own_pipe) (auto simp: server_own_def server_inv_def body_ok_def)

lemma read_id_own:
  assumes "fs_own B M U N fs" "fs_read_id cf env i offset cnt fs = Some (r, fs')"
  shows "fs_own B M U N fs'"
proof -
  have a: "server_own B M U N ((fs_files fs)(i \<mapsto> vf\<lparr>vf_atime := t\<rparr>)) (fs_pipes fs) (fs_cache fs)"
    if "fs_files fs i = Some vf" for vf t using fs_own_attr [OF assms(1) that] by simp
  show ?thesis
    using assms a pipe_body_own [OF assms(1)]
    by (auto simp: fs_read_id_def op_counter_Some Let_def split: option.splits if_splits bind_splits prod.splits)
qed

lemma write_id_own:
  assumes "fs_own B M U N fs" "fs_write_id cf env i offset buf fs = Some (r, fs')"
  shows "fs_own B M U N fs'"
proof -
  have inv: "fs_own B M U N (tick cf WRITE fs)" using assms(1) by simp
  show ?thesis
    using assms write_file_own [OF inv] pipe_body_own [OF assms(1)]
    by (auto simp: fs_write_id_def op_counter_Some Let_def split: option.splits if_splits bind_splits prod.splits)
qed

lemma read_own:
  assumes "fs_own B M U N fs" "fs_read cf env fd cnt fs = Some (r, fs')"
  shows "fs_own B M U N fs'"
  using assms read_id_own [OF assms(1)] by (auto simp: fs_read_def split: bind_splits)

lemma write_own:
  assumes "fs_own B M U N fs" "fs_write cf env fd buf fs = Some (r, fs')"
  shows "fs_own B M U N fs'"
  using assms write_id_own [OF assms(1)] by (auto simp: fs_write_def split: bind_splits)

lemma lseek_own:
  assumes "fs_own B M U N fs" "fs_lseek cf env fd offset whence fs = Some (r, fs')"
  shows "fs_own B M U N fs'"
  using assms by (auto simp: fs_lseek_def op_counter_Some split: bind_splits if_splits)

lemma set_file_size_own:
  assumes "fs_own B M U N fs" "set_file_size i n fs = Some fs'"
  shows "fs_own B M U N fs'"
  using assms fs_own_size [OF assms(1)] by (auto simp: set_file_size_def split: bind_splits)

lemma close_pipe_own:
  assumes "fs_own B M U N fs" "close_pipe fd i fs = Some fs'"
  shows "fs_own B M U N fs'"
  using assms pipe_body_own [OF assms(1)] server_own_pipe_gone [OF assms(1)]
  by (auto simp: close_pipe_def Let_def split: bind_splits if_splits)

lemma close_file_own:
  assumes "fs_own B M U N fs" "fs_files fs i = Some vf" "close_file i vf n fs = Some fs'"
  shows "fs_own B M U N fs'"
proof -
  from assms(3) obtain o_vf d where o: "fs_files fs ORPHANS_INO = Some o_vf" "vf_body o_vf = DirBody d"
    by (auto simp: close_file_def split: bind_splits)
  show ?thesis
  proof (cases "child_find_id (vf_id vf) (d_children d)")
    case None
    then show ?thesis using assms o set_file_size_own [OF assms(1)]
      by (auto simp: close_file_def as_dir_def split: if_splits)
  next
    case (Some x)
    let ?fs = "put_file ORPHANS_INO (o_vf\<lparr>vf_body := DirBody (d\<lparr>d_children := child_erase (fst x) (d_children d)\<rparr>)\<rparr>) fs"
    have e: "erase_delete i vf ?fs = Some fs'"
      using assms(3) o Some by (cases x) (simp add: close_file_def as_dir_def)
    then have "i \<noteq> ORPHANS_INO" by (auto simp: erase_delete_def split: if_splits)
    moreover have "fs_own B M U N ?fs" using fs_own_dir [OF assms(1) o] by simp
    ultimately show ?thesis using erase_delete_own [OF _ _ e] assms(2) by simp
  qed
qed

lemma close_own:
  assumes "fs_own B M U N fs" "fs_close cf env fd offset n fs = Some (r, fs')"
  shows "fs_own B M U N fs'"
proof -
  have inv: "fs_own B M U N (tick cf CLOSE fs)" "fs_own B M U N (put_fd x d (tick cf CLOSE fs))" for x d
    using assms(1) by simp_all
  show ?thesis
    using assms close_pipe_own [OF inv(1)] close_file_own [OF inv(1)] set_file_size_own [OF inv(2)]
    by (auto simp: fs_close_def op_counter_Some Let_def split: bind_splits if_splits option.splits)
qed

lemma dup_own:
  assumes "fs_own B M U N fs" "fs_dup cf env fd fs = Some (r, fs')"
  shows "fs_own B M U N fs'"
  using assms by (auto simp: fs_dup_def op_counter_Some split: option.splits)

lemma blocks_own:
  assumes "fs_own B M U N fs" "fs_blocks cf env i offset cnt fs = Some (r, fs')"
  shows "fs_own B M U N fs'"
  using assms by (auto simp: fs_blocks_def op_counter_Some split: bind_splits if_splits)

lemma flush_own:
  assumes "fs_own B M U N fs" "fs_flush cf env fd n offset fs = Some (r, fs')"
  shows "fs_own B M U N fs'"
proof -
  have inv: "fs_own B M U N (put_fd x d (tick cf FLUSH fs))" for x d using assms(1) by simp
  show ?thesis
    using assms set_file_size_own [OF inv]
    by (auto simp: fs_flush_def op_counter_Some split: option.splits bind_splits)
qed

lemma update_stat_file_own:
  assumes "fs_own B M U N fs" "update_stat_file cf env i fs = Some fs'"
  shows "fs_own B M U N fs'"
proof -
  from assms(2) obtain vf s fs1 vf1 r where
    vf: "fs_files fs i = Some vf" and t: "truncate_file cf i vf (length s) fs = Some fs1"
    and vf1: "fs_files fs1 i = Some vf1" and w: "write_file cf env i vf1 (path_bytes s) 0 fs1 = Some (r, fs')"
    by (auto simp: update_stat_file_def split: bind_splits)
  have "fs_own B M U N fs1" using truncate_file_own [OF assms(1) vf _ _ _ t] by simp
  from write_file_own [OF this vf1 w] show ?thesis by simp
qed

lemma set_children_sel [simp]:
  "fs_files (set_children i vf d ch fs) = (fs_files fs)(i \<mapsto> vf\<lparr>vf_body := DirBody (d\<lparr>d_children := ch\<rparr>)\<rparr>)"
  "fs_pipes (set_children i vf d ch fs) = fs_pipes fs" "fs_cache (set_children i vf d ch fs) = fs_cache fs"
  "fs_fds (set_children i vf d ch fs) = fs_fds fs" "fs_memory (set_children i vf d ch fs) = fs_memory fs"
  "fs_apps (set_children i vf d ch fs) = fs_apps fs" "fs_sent (set_children i vf d ch fs) = fs_sent fs"
  "fs_id (set_children i vf d ch fs) = fs_id fs" "fs_seq (set_children i vf d ch fs) = fs_seq fs"
  by (simp_all add: set_children_def)

lemma addmap_own:
  assumes "fs_own B M U N fs" "fs_addmap cf env a parent path child ow fs = Some (r, fs')"
  shows "fs_own B M U N fs'"
proof -
  from assms(2) obtain fs1 fs2 where
    s: "(if path = ''stats'' then update_stat_file cf env (ino_id child) (tick cf ADDMAP fs)
         else Some (tick cf ADDMAP fs)) = Some fs1"
    and l: "lazy_dir cf env (ino_id parent) fs1 = Some fs2"
    by (auto simp: fs_addmap_def op_counter_Some simp del: if_split split: bind_splits)
  have "fs_own B M U N fs1" using s update_stat_file_own [of B M U N "tick cf ADDMAP fs"] assms(1) by (auto split: if_splits)
  then have inv: "fs_own B M U N fs2" using lazy_dir_own [OF _ l] by simp
  show ?thesis
    using assms(2) s l inv fs_own_dir [OF inv]
    by (auto simp: fs_addmap_def op_counter_Some Let_def simp del: if_split
        split: bind_splits option.splits) (auto simp: Let_def split: if_splits)
qed

lemma removemap_own:
  assumes "fs_own B M U N fs" "fs_removemap cf env a parent path fs = Some (r, fs')"
  shows "fs_own B M U N fs'"
  using assms fs_own_dir [OF assms(1)]
  by (auto simp: fs_removemap_def op_counter_Some Let_def split: option.splits if_splits bind_splits)

lemma resolve_own:
  assumes "fs_own B M U N fs" "fs_resolve cf env a parent path fs = Some (r, fs')"
  shows "fs_own B M U N fs'"
  using assms by (auto simp: fs_resolve_def op_counter_Some split: option.splits if_splits bind_splits)

lemma symlink_own:
  assumes "fs_own B M U N fs" "fs_symlink cf env parent src dest fs = Some (r, fs')"
    and "U = None \<or> N \<inter> new_numbers fs fs' = {}"
  shows "fs_own B M U (N \<union> new_numbers fs fs') fs'"
proof -
  from assms(2) obtain fs1 where l: "lazy_dir cf env parent (tick cf SYMLINK fs) = Some fs1"
    by (auto simp: fs_symlink_def op_counter_Some split: bind_splits)
  have inv: "fs_own B M U N fs1" "fs_id fs1 = fs_id fs" "fs_seq fs \<le> fs_seq fs1"
    using lazy_dir_own [OF _ l] assms(1) by simp_all
  have new: "fs_own B M U (N \<union> new_numbers fs fs') (put_file (vf_id vf) vf (fs1\<lparr>fs_seq := q\<rparr>))"
    if n: "new_Symlink env (fs_id fs1) dst (fs_seq fs1) = Some (vf, q)" and q: "fs_seq fs' = q" for dst vf q
  proof -
    note f = VFile_new_facts [OF n [unfolded new_Symlink_def]]
    have vf: "body_ok vf" "blocks_of vf = []" using f by (auto simp: body_ok_def blocks_of_def)
    have "vf_id vf \<in> new_numbers fs fs'" using f q inv(2,3) by (auto simp: new_numbers_def)
    then have "server_own B M U (N \<union> new_numbers fs fs') ((fs_files fs1)(vf_id vf \<mapsto> vf)) (fs_pipes fs1) (fs_cache fs1)"
      using new_not_orphans [OF n [unfolded new_Symlink_def]] assms(3)
      by (intro server_own_fresh [OF inv(1) refl vf]) auto
    then show ?thesis by simp
  qed
  have "fs_own B M U (N \<union> new_numbers fs fs') fs1" using own_mono [OF inv(1)] by simp
  then show ?thesis
    using assms(2) l new fs_own_dir [OF new]
    by (auto simp: fs_symlink_def op_counter_Some Let_def split: bind_splits if_splits)
qed

lemma attr_own:
  assumes "fs_own B M U N fs"
  shows "fs_chmod cf env i mode fs = Some (r, fs') \<Longrightarrow> fs_own B M U N fs'"
    and "fs_chown cf env i u g fs = Some (r, fs') \<Longrightarrow> fs_own B M U N fs'"
    and "fs_utimens cf env i at mt flags fs = Some (r, fs') \<Longrightarrow> fs_own B M U N fs'"
  using assms fs_own_attr [OF assms]
  by (auto simp: fs_chmod_def fs_chown_def fs_utimens_def set_uid_def set_gid_def op_counter_Some Let_def
      split: option.splits if_splits)

lemma truncate_own:
  assumes "fs_own B M U N fs" "fs_truncate cf env i n fs = Some (r, fs')"
  shows "fs_own B M U N fs'"
proof -
  have inv: "fs_own B M U N (tick cf TRUNC fs)" using assms(1) by simp
  show ?thesis
    using assms truncate_file_own [OF inv]
    by (auto simp: fs_truncate_def op_counter_Some split: option.splits if_splits)
qed

lemma reading_own:
  assumes "fs_own B M U N fs"
  shows "fs_fstatat cf env i fs = Some (r1, fs') \<Longrightarrow> fs_own B M U N fs'"
    and "fs_readlink cf env i fs = Some (r2, fs') \<Longrightarrow> fs_own B M U N fs'"
    and "fs_direntry cf env a i offset n fs = Some (r3, fs') \<Longrightarrow> fs_own B M U N fs'"
  using assms
  by (auto simp: fs_fstatat_def fs_readlink_def fs_direntry_def op_counter_Some Let_def
      split: option.splits if_splits bind_splits VBody.splits)

section \<open>Runs of a server\<close>

text \<open>The calls a server executes, one after the other.\<close>

datatype FsCall =
    Call_create Inode string u32 u32
  | Call_destroy nat
  | Call_addmap nat Inode string InodeType bool
  | Call_removemap nat nat string
  | Call_pipe
  | Call_open nat u32
  | Call_read nat nat
  | Call_write nat "u8 list"
  | Call_lseek nat nat int
  | Call_close nat int nat
  | Call_dup nat
  | Call_fstat nat
  | Call_direntry nat nat int nat
  | Call_unlink nat
  | Call_readlink nat
  | Call_rmdir nat int
  | Call_truncate nat nat
  | Call_chmod nat u32
  | Call_chown nat nat nat
  | Call_resolve nat nat string
  | Call_utimens nat timespec timespec u32
  | Call_symlink nat string string
  | Call_blocks nat nat nat
  | Call_flush nat nat int
  | Call_appClose nat

primrec fs_call :: "FsConf \<Rightarrow> FsEnv \<Rightarrow> FsCall \<Rightarrow> FS \<Rightarrow> FS option" where
  "fs_call cf env (Call_create parent path flags mode) fs = map_option snd (fs_create cf env parent path flags mode fs)"
| "fs_call cf env (Call_destroy i) fs = map_option snd (fs_destroy cf env i fs)"
| "fs_call cf env (Call_addmap a parent path child ow) fs = map_option snd (fs_addmap cf env a parent path child ow fs)"
| "fs_call cf env (Call_removemap a parent path) fs = map_option snd (fs_removemap cf env a parent path fs)"
| "fs_call cf env Call_pipe fs = map_option snd (fs_pipe cf env fs)"
| "fs_call cf env (Call_open i flags) fs = map_option snd (fs_open cf env i flags fs)"
| "fs_call cf env (Call_read fd n) fs = map_option snd (fs_read cf env fd n fs)"
| "fs_call cf env (Call_write fd buf) fs = map_option snd (fs_write cf env fd buf fs)"
| "fs_call cf env (Call_lseek fd offset whence) fs = map_option snd (fs_lseek cf env fd offset whence fs)"
| "fs_call cf env (Call_close fd offset n) fs = map_option snd (fs_close cf env fd offset n fs)"
| "fs_call cf env (Call_dup fd) fs = map_option snd (fs_dup cf env fd fs)"
| "fs_call cf env (Call_fstat i) fs = map_option snd (fs_fstatat cf env i fs)"
| "fs_call cf env (Call_direntry a i offset n) fs = map_option snd (fs_direntry cf env a i offset n fs)"
| "fs_call cf env (Call_unlink i) fs = map_option snd (fs_unlink cf env i fs)"
| "fs_call cf env (Call_readlink i) fs = map_option snd (fs_readlink cf env i fs)"
| "fs_call cf env (Call_rmdir i phase) fs = map_option snd (fs_rmdir cf env i phase fs)"
| "fs_call cf env (Call_truncate i n) fs = map_option snd (fs_truncate cf env i n fs)"
| "fs_call cf env (Call_chmod i mode) fs = map_option snd (fs_chmod cf env i mode fs)"
| "fs_call cf env (Call_chown i u g) fs = map_option snd (fs_chown cf env i u g fs)"
| "fs_call cf env (Call_resolve a parent path) fs = map_option snd (fs_resolve cf env a parent path fs)"
| "fs_call cf env (Call_utimens i at mt flags) fs = map_option snd (fs_utimens cf env i at mt flags fs)"
| "fs_call cf env (Call_symlink parent src dest) fs = map_option snd (fs_symlink cf env parent src dest fs)"
| "fs_call cf env (Call_blocks i offset n) fs = map_option snd (fs_blocks cf env i offset n fs)"
| "fs_call cf env (Call_flush fd n offset) fs = map_option snd (fs_flush cf env fd n offset fs)"
| "fs_call cf env (Call_appClose a) fs = Some (appClose a fs)"

fun fs_calls :: "FsConf \<Rightarrow> (FsEnv \<times> FsCall) list \<Rightarrow> FS \<Rightarrow> FS option" where
  "fs_calls cf [] fs = Some fs"
| "fs_calls cf ((env, c) # cs) fs = Option.bind (fs_call cf env c fs) (fs_calls cf cs)"

lemmas call_own = destroy_own addmap_own removemap_own pipe_own open_own read_own write_own
  lseek_own close_own dup_own reading_own unlink_own rmdir_own truncate_own attr_own resolve_own
  blocks_own flush_own

lemma fs_call_own:
  assumes "fs_own B M U N fs" "fs_call cf env c fs = Some fs'" "U = None \<or> N \<inter> new_numbers fs fs' = {}"
  shows "fs_own B M U (N \<union> new_numbers fs fs') fs'"
proof (cases "fs_own B M U N fs'")
  case True
  then show ?thesis by (rule own_mono) simp
next
  case False
  then show ?thesis
    using assms create_own [OF assms(1) _ assms(3)] symlink_own [OF assms(1) _ assms(3)]
    by (cases c) (auto dest: call_own simp: appClose_def)
qed

lemma fs_call_inv: "fs_inv B M fs \<Longrightarrow> fs_call cf env c fs = Some fs' \<Longrightarrow> fs_inv B M fs'"
  using fs_call_own [of B M None UNIV fs cf env c fs'] by (simp add: own_trivial)

lemma fs_calls_inv:
  assumes "fs_inv B M fs" "fs_calls cf cs fs = Some fs'"
  shows "fs_inv B M fs'"
  using assms
proof (induction cs arbitrary: fs)
  case (Cons x cs)
  obtain env c where x: "x = (env, c)" by (cases x)
  with Cons.prems(2) obtain fs1 where "fs_call cf env c fs = Some fs1" "fs_calls cf cs fs1 = Some fs'"
    by (auto split: bind_splits)
  with Cons.IH fs_call_inv [OF Cons.prems(1)] show ?case by blast
qed simp

text \<open>The well-formedness alone, for the single methods.\<close>

lemmas write_file_inv = write_file_own [where U = None and N = UNIV, unfolded own_trivial]
lemmas write_inv = write_own [where U = None and N = UNIV, unfolded own_trivial]
lemmas read_inv = read_own [where U = None and N = UNIV, unfolded own_trivial]
lemmas unlink_inv = unlink_own [where U = None and N = UNIV, unfolded own_trivial]
lemmas destroy_inv = destroy_own [where U = None and N = UNIV, unfolded own_trivial]
lemmas fs_inv_objectD = fs_own_objectD [where U = None and N = UNIV, unfolded own_trivial]

lemma create_inv: "fs_inv B M fs \<Longrightarrow> fs_create cf env parent path flags mode fs = Some (r, fs') \<Longrightarrow> fs_inv B M fs'"
  using create_own [of B M None UNIV fs cf env parent path flags mode r fs'] by (simp add: own_trivial)

lemma symlink_inv: "fs_inv B M fs \<Longrightarrow> fs_symlink cf env parent src dest fs = Some (r, fs') \<Longrightarrow> fs_inv B M fs'"
  using symlink_own [of B M None UNIV fs cf env parent src dest r fs'] by (simp add: own_trivial)

lemmas call_inv = create_inv symlink_inv call_own [where U = None and N = UNIV, unfolded own_trivial]

lemma FilesystemServer_new_inv:
  assumes "0 < cf_block_size cf" "cf_block_size cf dvd cf_memory_size cf div cf_server_count cf"
    and "cf_memory_size cf < 2 ^ 31" "sid < cf_server_count cf"
    and "FilesystemServer_new cf env sid oc cy m = Some fs"
  shows "fs_inv (cf_block_size cf) (cf_memory_size cf) fs"
proof -
  let ?B = "cf_block_size cf" and ?M = "cf_memory_size cf" and ?N = "cf_server_count cf"
  from assms(2) obtain p where p: "?M div ?N = ?B * p" by (elim dvdE)
  have NP: "?N * (?B * p) \<le> ?M" unfolding p [symmetric] by simp
  then have lt: "?N * (?B * p) < 2 ^ 31" using assms(3) by simp
  define bc where "bc = \<lparr>bc_blocks = map (\<lambda>q. ?B * q) [sid * p..<(sid + 1) * p], bc_free = p\<rparr>"
  have new: "BufferCache_new ?M ?B ?N (int sid) = Some bc"
    unfolding bc_def by (rule BufferCache_new_blocks [OF assms(1) p assms(4) lt])
  have "?B * q < ?M" if "q < (sid + 1) * p" for q
  proof -
    have "?B * q < ?B * ((sid + 1) * p)" using that assms(1) by simp
    also have "\<dots> = (sid + 1) * (?B * p)" by (rule mult.left_commute)
    also have "\<dots> \<le> ?N * (?B * p)" by (rule mult_le_mono1) (use assms(4) in simp)
    finally show ?thesis using NP by (rule less_le_trans)
  qed
  moreover have "inj_on (\<lambda>q. ?B * q) S" for S using assms(1) by (auto simp: inj_on_def)
  ultimately have blocks: "blocks_ok ?B ?M (bc_blocks bc)"
    by (auto simp: blocks_ok_def bc_def distinct_map)
  then have inv: "bc_invar bc"
    using blocks_ok_length [OF blocks] assms(3) by (simp add: bc_invar_def bc_def)
  from assms(5) new obtain root seq orphans seq' where
    r: "new_Dir cf env sid True 0x1ED 0 = Some (root, seq)" "new_Dir cf env sid True 0x1ED seq = Some (orphans, seq')"
    and fs: "fs_cache fs = bc" "fs_pipes fs = Map.empty"
    and files: "fs_files fs = (if sid = 0 then Map.empty(0 \<mapsto> root\<lparr>vf_id := 0, vf_body := DirBody \<lparr>d_vdir = True,
        d_locked = False, d_children = addChild (en_loc env) ''..'' \<lparr>ino_server = int sid, ino_id = 0, ino_type = TYPE_DIR\<rparr> []\<rparr>\<rparr>)
        else Map.empty)(ORPHANS_INO \<mapsto> orphans\<lparr>vf_id := ORPHANS_INO\<rparr>)"
    by (auto simp: FilesystemServer_new_def Let_def new_Dir_facts(4) split: bind_splits)
  note facts = new_Dir_facts [OF r(1)] new_Dir_facts [OF r(2)]
  show ?thesis
    using blocks inv assms(3) facts unfolding fs files server_inv_def
    by (auto simp: files_apart_def orphans_ok_def object_ok_def body_ok_def vf_isDir_def blocks_of_def split: if_splits)
qed

section \<open>The inode numbers of a run\<close>

text \<open>No method changes the number of the server or takes its counter of inode numbers back.\<close>

definition counts_on :: "FS \<Rightarrow> FS \<Rightarrow> bool" where
  "counts_on fs fs' \<longleftrightarrow> fs_id fs' = fs_id fs \<and> fs_seq fs \<le> fs_seq fs'"

lemma counts_on_helpers:
  "truncate_file cf i vf n fs = Some fs' \<Longrightarrow> fs_id fs' = fs_id fs \<and> fs_seq fs' = fs_seq fs"
  "write_file cf env i vf buf off fs = Some (r, fs') \<Longrightarrow> fs_id fs' = fs_id fs \<and> fs_seq fs' = fs_seq fs"
  "erase_delete i vf fs = Some fs' \<Longrightarrow> fs_id fs' = fs_id fs \<and> fs_seq fs' = fs_seq fs"
  "add_orphan cf env name vf fs = Some fs' \<Longrightarrow> fs_id fs' = fs_id fs \<and> fs_seq fs' = fs_seq fs"
  "set_file_size i n fs = Some fs' \<Longrightarrow> fs_id fs' = fs_id fs \<and> fs_seq fs' = fs_seq fs"
  "close_pipe fd i fs = Some fs' \<Longrightarrow> fs_id fs' = fs_id fs \<and> fs_seq fs' = fs_seq fs"
  by (auto simp: truncate_file_def write_file_def erase_delete_def add_orphan_def set_file_size_def close_pipe_def Let_def
      split: bind_splits if_splits VBody.splits)

lemma counts_on_lazy: "lazy_dir cf env i fs = Some fs' \<Longrightarrow> fs_id fs' = fs_id fs \<and> fs_seq fs \<le> fs_seq fs'"
  by (auto simp: lazy_dir_def new_Dir_def dest: VFile_new_facts(4) split: bind_splits if_splits)

lemma counts_on_close: "close_file i vf n fs = Some fs' \<Longrightarrow> fs_id fs' = fs_id fs \<and> fs_seq fs' = fs_seq fs"
  by (auto simp: close_file_def split: bind_splits option.splits if_splits dest: counts_on_helpers)

lemma counts_on_stat: "update_stat_file cf env i fs = Some fs' \<Longrightarrow> fs_id fs' = fs_id fs \<and> fs_seq fs' = fs_seq fs"
  by (auto simp: update_stat_file_def split: bind_splits dest!: counts_on_helpers)

lemma counts_on_remove: "remove_object cf env name i vf fs = Some (r, fs') \<Longrightarrow> fs_id fs' = fs_id fs \<and> fs_seq fs' = fs_seq fs"
  by (auto simp: remove_object_def split: if_splits dest: counts_on_helpers)

lemma counts_on_locked [simp]: "fs_id (set_locked i vf d l fs) = fs_id fs" "fs_seq (set_locked i vf d l fs) = fs_seq fs"
  by (simp_all add: set_locked_def)

lemmas counts_on_splits = bind_splits if_splits option.splits prod.splits VBody.splits

lemma create_counts: "fs_create cf env parent path flags mode fs = Some (r, fs') \<Longrightarrow> counts_on fs fs'"
  by (fastforce simp: fs_create_def op_counter_Some counts_on_def Let_def new_Dir_def new_File_def split: counts_on_splits
      dest: counts_on_lazy VFile_new_facts(4))

lemma symlink_counts: "fs_symlink cf env parent src dest fs = Some (r, fs') \<Longrightarrow> counts_on fs fs'"
  by (fastforce simp: fs_symlink_def op_counter_Some counts_on_def Let_def new_Symlink_def split: counts_on_splits
      dest: counts_on_lazy VFile_new_facts(4))

lemma rmdir_counts: "fs_rmdir cf env i phase fs = Some (r, fs') \<Longrightarrow> counts_on fs fs'"
  by (fastforce simp: fs_rmdir_def op_counter_Some counts_on_def Let_def split: bind_splits if_splits
      dest: counts_on_lazy counts_on_remove)

lemma pipe_counts: "fs_pipe cf env fs = Some (r, fs') \<Longrightarrow> counts_on fs fs'"
  by (fastforce simp: fs_pipe_def op_counter_Some counts_on_def Let_def new_Pipe_def split: counts_on_splits
      dest: VFile_new_facts(4))

lemma removal_counts:
  "fs_destroy cf env i fs = Some (r, fs') \<Longrightarrow> counts_on fs fs'" "fs_unlink cf env i fs = Some (r, fs') \<Longrightarrow> counts_on fs fs'"
  by (auto simp: fs_destroy_def fs_unlink_def op_counter_Some counts_on_def split: option.splits if_splits
      dest: counts_on_helpers counts_on_remove)

lemma open_counts: "fs_open cf env i flags fs = Some (r, fs') \<Longrightarrow> counts_on fs fs'"
  by (auto simp: fs_open_def op_counter_Some counts_on_def Let_def split: counts_on_splits dest!: counts_on_helpers)

lemma io_counts:
  "fs_read_id cf env i off n fs = Some (r, fs') \<Longrightarrow> counts_on fs fs'"
  "fs_write_id cf env i off buf fs = Some (q, fs') \<Longrightarrow> counts_on fs fs'"
  by (auto simp: fs_read_id_def fs_write_id_def op_counter_Some counts_on_def Let_def split: counts_on_splits
      dest!: counts_on_helpers)

lemma descriptor_counts:
  "fs_read cf env fd n fs = Some (r, fs') \<Longrightarrow> counts_on fs fs'"
  "fs_write cf env fd buf fs = Some (q, fs') \<Longrightarrow> counts_on fs fs'"
  "fs_lseek cf env fd off whence fs = Some (s, fs') \<Longrightarrow> counts_on fs fs'"
  by (auto simp: fs_read_def fs_write_def fs_lseek_def op_counter_Some counts_on_def split: bind_splits if_splits
      dest!: io_counts [unfolded counts_on_def])

lemma close_counts: "fs_close cf env fd off n fs = Some (r, fs') \<Longrightarrow> counts_on fs fs'"
  by (auto simp: fs_close_def op_counter_Some counts_on_def Let_def split: bind_splits if_splits option.splits
      dest!: counts_on_helpers counts_on_close)

lemma sharing_counts:
  "fs_dup cf env fd fs = Some (r, fs') \<Longrightarrow> counts_on fs fs'"
  "fs_blocks cf env i off n fs = Some (q, fs') \<Longrightarrow> counts_on fs fs'"
  "fs_flush cf env fd n offset fs = Some (s, fs') \<Longrightarrow> counts_on fs fs'"
  by (auto simp: fs_dup_def fs_blocks_def fs_flush_def op_counter_Some counts_on_def split: bind_splits if_splits option.splits
      dest!: counts_on_helpers)

lemma addmap_counts: "fs_addmap cf env a parent path child ow fs = Some (r, fs') \<Longrightarrow> counts_on fs fs'"
proof -
  assume a: "fs_addmap cf env a parent path child ow fs = Some (r, fs')"
  then obtain fs1 fs2 where
    s: "(if path = ''stats'' then update_stat_file cf env (ino_id child) (tick cf ADDMAP fs)
         else Some (tick cf ADDMAP fs)) = Some fs1"
    and l: "lazy_dir cf env (ino_id parent) fs1 = Some fs2"
    by (auto simp: fs_addmap_def op_counter_Some simp del: if_split split: bind_splits)
  have "fs_id fs2 = fs_id fs \<and> fs_seq fs \<le> fs_seq fs2"
    using s counts_on_stat [of cf env "ino_id child" "tick cf ADDMAP fs" fs1] counts_on_lazy [OF l] by (auto split: if_splits)
  then show ?thesis
    using a s l
    by (auto simp: fs_addmap_def op_counter_Some counts_on_def Let_def simp del: if_split
        split: bind_splits option.splits) (auto simp: Let_def split: if_splits)
qed

lemma name_counts:
  "fs_removemap cf env a i path fs = Some (r, fs') \<Longrightarrow> counts_on fs fs'"
  "fs_resolve cf env a i path fs = Some (q, fs') \<Longrightarrow> counts_on fs fs'"
  by (auto simp: fs_removemap_def fs_resolve_def op_counter_Some counts_on_def Let_def
      split: option.splits if_splits bind_splits)

lemma attr_counts:
  "fs_chmod cf env i mode fs = Some (r, fs') \<Longrightarrow> counts_on fs fs'"
  "fs_chown cf env i u g fs = Some (r, fs') \<Longrightarrow> counts_on fs fs'"
  "fs_utimens cf env i at mt flags fs = Some (r, fs') \<Longrightarrow> counts_on fs fs'"
  "fs_truncate cf env i n fs = Some (r, fs') \<Longrightarrow> counts_on fs fs'"
  by (auto simp: fs_chmod_def fs_chown_def fs_utimens_def fs_truncate_def op_counter_Some counts_on_def Let_def
      split: option.splits if_splits dest!: counts_on_helpers)

lemma reading_counts:
  "fs_fstatat cf env i fs = Some (r1, fs') \<Longrightarrow> counts_on fs fs'"
  "fs_readlink cf env i fs = Some (r2, fs') \<Longrightarrow> counts_on fs fs'"
  "fs_direntry cf env a i offset n fs = Some (r3, fs') \<Longrightarrow> counts_on fs fs'"
  by (auto simp: fs_fstatat_def fs_readlink_def fs_direntry_def op_counter_Some counts_on_def Let_def
      split: option.splits if_splits bind_splits VBody.splits)

lemmas call_counts = create_counts symlink_counts rmdir_counts pipe_counts removal_counts open_counts descriptor_counts
  close_counts sharing_counts addmap_counts name_counts attr_counts reading_counts

lemma fs_call_counts: "fs_call cf env c fs = Some fs' \<Longrightarrow> counts_on fs fs'"
  by (cases c) (auto dest: call_counts simp: appClose_def counts_on_def)

lemma fs_calls_counts: "fs_calls cf cs fs = Some fs' \<Longrightarrow> counts_on fs fs'"
proof (induction cs arbitrary: fs)
  case (Cons x cs)
  obtain env c where x: "x = (env, c)" by (cases x)
  with Cons.prems obtain fs1 where "fs_call cf env c fs = Some fs1" "fs_calls cf cs fs1 = Some fs'"
    by (auto split: bind_splits)
  with Cons.IH [of fs1] fs_call_counts [of cf env c fs fs1] show ?case by (auto simp: counts_on_def)
qed (simp add: counts_on_def)

text \<open>The first \<open>2 ^ 26\<close> numbers are different ones.\<close>

lemma and_INODE_MASK: "seq AND INODE_MASK = take_bit 26 seq"
  by (simp add: INODE_MASK_def take_bit_eq_mask mask_eq_exp_minus_1)

lemma inode_number_inj:
  assumes "inode_number server k = inode_number server l" "k < 2 ^ 26" "l < 2 ^ 26"
  shows "k = l"
proof (cases "server = 0")
  case False
  have "take_bit 26 (inode_number server k) = k" if "k < 2 ^ 26" for k
  proof -
    have lo: "k AND INODE_MASK = k" using that by (simp add: and_INODE_MASK take_bit_nat_eq_self)
    have "take_bit 26 (take_bit 32 (push_bit 26 server)) = (0 :: nat)" by (simp add: take_bit_push_bit)
    then have hi: "take_bit 26 (push_bit INODE_SHIFT server mod 2 ^ 32) = 0" by (simp add: INODE_SHIFT_def take_bit_eq_mod)
    have "inode_number server k = k OR (push_bit INODE_SHIFT server mod 2 ^ 32)"
      using False lo by (simp add: inode_number_def)
    then have "take_bit 26 (inode_number server k) = take_bit 26 k OR take_bit 26 (push_bit INODE_SHIFT server mod 2 ^ 32)"
      by (simp only: take_bit_or)
    then show ?thesis using that hi by (simp add: take_bit_nat_eq_self)
  qed
  with assms show ?thesis by metis
qed (use assms in \<open>simp add: inode_number_def\<close>)

definition used_numbers :: "FS \<Rightarrow> nat set" where
  "used_numbers fs = inode_number (fs_id fs) ` {..<fs_seq fs}"

lemma used_new_numbers:
  assumes "counts_on fs fs'"
  shows "used_numbers fs \<union> new_numbers fs fs' = used_numbers fs'"
    and "fs_seq fs' \<le> 2 ^ 26 \<Longrightarrow> used_numbers fs \<inter> new_numbers fs fs' = {}"
proof -
  have "{..<fs_seq fs} \<union> {fs_seq fs..<fs_seq fs'} = {..<fs_seq fs'}" "fs_id fs' = fs_id fs"
    using assms by (auto simp: counts_on_def)
  then show "used_numbers fs \<union> new_numbers fs fs' = used_numbers fs'"
    unfolding used_numbers_def new_numbers_def by (metis image_Un)
  show "used_numbers fs \<inter> new_numbers fs fs' = {}" if "fs_seq fs' \<le> 2 ^ 26"
    using inode_number_inj [of "fs_id fs"] that by (fastforce simp: used_numbers_def new_numbers_def)
qed

text \<open>As long as the numbers last, no block is lost.\<close>

lemma fs_calls_own:
  assumes "fs_own B M U (used_numbers fs) fs" "fs_calls cf cs fs = Some fs'" "fs_seq fs' \<le> 2 ^ 26"
  shows "fs_own B M U (used_numbers fs') fs'"
  using assms
proof (induction cs arbitrary: fs)
  case (Cons x cs)
  obtain env c where x: "x = (env, c)" by (cases x)
  with Cons.prems(2) obtain fs1 where c: "fs_call cf env c fs = Some fs1" and cs: "fs_calls cf cs fs1 = Some fs'"
    by (auto split: bind_splits)
  note u = used_new_numbers [OF fs_call_counts [OF c]]
  have "fs_seq fs1 \<le> 2 ^ 26" using fs_calls_counts [OF cs] Cons.prems(3) by (simp add: counts_on_def)
  then have "fs_own B M U (used_numbers fs1) fs1"
    using fs_call_own [OF Cons.prems(1) c] u by simp
  from Cons.IH [OF this cs Cons.prems(3)] show ?case .
qed simp

text \<open>A new server has no file.\<close>

lemma FilesystemServer_new_own:
  assumes "FilesystemServer_new cf env sid oc cy m = Some fs" "fs_inv B M fs"
  shows "fs_own B M (Some (set (bc_blocks (fs_cache fs)))) (used_numbers fs) fs"
proof -
  from assms(1) obtain root seq orphans seq' where
    r: "new_Dir cf env sid True 0x1ED 0 = Some (root, seq)" "new_Dir cf env sid True 0x1ED seq = Some (orphans, seq')"
    and files: "fs_files fs = (if sid = 0 then Map.empty(0 \<mapsto> root\<lparr>vf_id := 0, vf_body := DirBody \<lparr>d_vdir = True,
        d_locked = False, d_children = addChild (en_loc env) ''..'' \<lparr>ino_server = int sid, ino_id = 0, ino_type = TYPE_DIR\<rparr> []\<rparr>\<rparr>)
        else Map.empty)(ORPHANS_INO \<mapsto> orphans\<lparr>vf_id := ORPHANS_INO\<rparr>)"
    by (auto simp: FilesystemServer_new_def Let_def new_Dir_facts(4) split: bind_splits)
  have dirs: "\<exists>d. vf_body vf = DirBody d" if "fs_files fs i = Some vf" for i vf
    using that new_Dir_facts(4) [OF r(2)] unfolding files by (auto split: if_splits)
  then have "blocks_of vf = []" if "vf \<in> ran (fs_files fs)" for vf
    using that by (fastforce simp: blocks_of_def ran_def)
  then have "owned (fs_files fs) (fs_cache fs) = set (bc_blocks (fs_cache fs))" by (simp add: owned_def)
  then show ?thesis using assms(2) dirs by (fastforce simp: server_own_def)
qed

end
