(* ===== verification/Fs_Server_Props.thy ===== *)
theory Fs_Server_Props
  imports Fs_Server_Inv
begin

text \<open>
  The behaviour of a file-system server seen by its clients: isolation of files, reading and writing through
  descriptors, unlinking open files, the directory and cache protocols, removal of directories, pipes.
\<close>

section \<open>Blocks are never shared and never lost\<close>

definition file_body :: "FS \<Rightarrow> nat \<Rightarrow> File option" where
  "file_body fs i = Option.bind (fs_files fs i) as_file"

lemma file_body_eq: "file_body fs i = Some f \<longleftrightarrow> (\<exists>vf. fs_files fs i = Some vf \<and> vf_body vf = FileBody f)"
  by (auto simp: file_body_def split: bind_splits)

text \<open>The blocks of a file, and those of all files.\<close>

definition file_blocks :: "FS \<Rightarrow> nat \<Rightarrow> nat list" where
  "file_blocks fs i = (case file_body fs i of None \<Rightarrow> [] | Some f \<Rightarrow> f_blocks f @ f_orphans f)"

lemma file_blocks_of: "fs_files fs i = Some vf \<Longrightarrow> file_blocks fs i = blocks_of vf"
  by (cases "vf_body vf") (simp_all add: file_blocks_def file_body_def as_file_def blocks_of_def)

lemma file_blocks_none: "fs_files fs i = None \<Longrightarrow> file_blocks fs i = []"
  by (simp add: file_blocks_def file_body_def)

lemma owned_file_blocks: "owned (fs_files fs) (fs_cache fs) = set (bc_blocks (fs_cache fs)) \<union> (\<Union>i. set (file_blocks fs i))"
proof -
  have "b \<in> (\<Union>vf\<in>ran (fs_files fs). set (blocks_of vf)) \<longleftrightarrow> b \<in> (\<Union>i. set (file_blocks fs i))" for b
  proof
    assume "b \<in> (\<Union>vf\<in>ran (fs_files fs). set (blocks_of vf))"
    then obtain i vf where "fs_files fs i = Some vf" "b \<in> set (blocks_of vf)" by (auto simp: ran_def)
    then have "b \<in> set (file_blocks fs i)" by (simp add: file_blocks_of)
    then show "b \<in> (\<Union>i. set (file_blocks fs i))" by blast
  next
    assume "b \<in> (\<Union>i. set (file_blocks fs i))"
    then obtain i where i: "b \<in> set (file_blocks fs i)" by blast
    then obtain vf where "fs_files fs i = Some vf" by (cases "fs_files fs i") (simp_all add: file_blocks_none)
    with i have "vf \<in> ran (fs_files fs)" "b \<in> set (blocks_of vf)" by (auto simp: ran_def file_blocks_of)
    then show "b \<in> (\<Union>vf\<in>ran (fs_files fs). set (blocks_of vf))" by blast
  qed
  then show ?thesis unfolding owned_def by blast
qed

text \<open>C3. In every run of a server from its start, whatever the calls, their arguments and the surroundings, the
  server stays well formed: a file is stored under its own number, its blocks are distinct, aligned and inside
  the memory, none of them is free and none belongs to another file.  And as long as the server has made at most
  \<open>2 ^ 26\<close> objects no block is lost: the free blocks and those of the files are together the blocks it started
  with.  (After that the inode numbers repeat, and a new object takes the place of a file with its number.)\<close>

theorem server_blocks_never_shared:
  assumes "0 < cf_block_size cf" "cf_block_size cf dvd cf_memory_size cf div cf_server_count cf"
    and "cf_memory_size cf < 2 ^ 31" "sid < cf_server_count cf"
    and "FilesystemServer_new cf env sid oc cy m = Some fs0" "fs_calls cf calls fs0 = Some fs"
  shows "(\<forall>i vi fi. fs_files fs i = Some vi \<and> vf_body vi = FileBody fi \<longrightarrow> vf_id vi = i \<and> vf_type vi = TYPE_FILE)
     \<and> (\<forall>i. distinct (file_blocks fs i @ bc_blocks (fs_cache fs))
          \<and> (\<forall>b\<in>set (file_blocks fs i). cf_block_size cf dvd b \<and> b < cf_memory_size cf)
          \<and> (\<forall>j. j \<noteq> i \<longrightarrow> set (file_blocks fs i) \<inter> set (file_blocks fs j) = {}))
     \<and> (fs_seq fs \<le> 2 ^ 26 \<longrightarrow>
          set (bc_blocks (fs_cache fs)) \<union> (\<Union>i. set (file_blocks fs i)) = set (bc_blocks (fs_cache fs0)))"
proof -
  let ?B = "cf_block_size cf" and ?M = "cf_memory_size cf"
  have inv0: "fs_inv ?B ?M fs0" by (rule FilesystemServer_new_inv [OF assms(1-5)])
  have inv: "fs_inv ?B ?M fs" by (rule fs_calls_inv [OF inv0 assms(6)])
  have ok: "blocks_ok ?B ?M (file_blocks fs i @ bc_blocks (fs_cache fs))" for i
    using inv by (cases "fs_files fs i") (simp_all add: server_inv_def object_ok_def file_blocks_of file_blocks_none)
  have apart: "set (file_blocks fs i) \<inter> set (file_blocks fs j) = {}" if "j \<noteq> i" for i j
  proof (cases "file_blocks fs i = [] \<or> file_blocks fs j = []")
    case False
    then obtain vi vj where v: "fs_files fs i = Some vi" "fs_files fs j = Some vj" using file_blocks_none by blast
    have "files_apart (fs_files fs)" using inv by (simp add: server_inv_def)
    from files_apartD [OF this that [symmetric] v] v show ?thesis by (simp add: file_blocks_of)
  qed auto
  have "\<forall>i vi fi. fs_files fs i = Some vi \<and> vf_body vi = FileBody fi \<longrightarrow> vf_id vi = i \<and> vf_type vi = TYPE_FILE"
    using fs_inv_objectD [OF inv] by (fastforce simp: body_ok_def)
  moreover have "\<forall>i. distinct (file_blocks fs i @ bc_blocks (fs_cache fs))
      \<and> (\<forall>b\<in>set (file_blocks fs i). ?B dvd b \<and> b < ?M)
      \<and> (\<forall>j. j \<noteq> i \<longrightarrow> set (file_blocks fs i) \<inter> set (file_blocks fs j) = {})"
  proof
    fix i
    show "distinct (file_blocks fs i @ bc_blocks (fs_cache fs)) \<and> (\<forall>b\<in>set (file_blocks fs i). ?B dvd b \<and> b < ?M)
      \<and> (\<forall>j. j \<noteq> i \<longrightarrow> set (file_blocks fs i) \<inter> set (file_blocks fs j) = {})"
      using ok [of i] apart unfolding blocks_ok_def by simp
  qed
  moreover have "fs_seq fs \<le> 2 ^ 26 \<longrightarrow>
      set (bc_blocks (fs_cache fs)) \<union> (\<Union>i. set (file_blocks fs i)) = set (bc_blocks (fs_cache fs0))"
    using fs_calls_own [OF FilesystemServer_new_own [OF assms(5) inv0] assms(6)]
    unfolding server_own_def owned_file_blocks by blast
  ultimately show ?thesis by (rule conjI [OF _ conjI])
qed

definition conf_ex :: FsConf where
  "conf_ex = \<lparr>cf_block_size = 4, cf_memory_size = 32, cf_server_count = 2, cf_max_fname_len = 64,
     cf_hardware_khz = 1000, cf_directory_cache = True, cf_directory_distribution = True, cf_show_ops = False\<rparr>"

definition env_ex :: "nat \<Rightarrow> FsEnv" where
  "env_ex n = \<lparr>en_coarse = (0, 0), en_now = (1, 0), en_tsc = n, en_start = 0, en_stop = 0, en_rand = n,
     en_rand2 = n + 1000, en_loc = n, en_closed = (\<lambda>_. False)\<rparr>"

text \<open>A small run: a file is created in the root, opened as descriptor 7 and written.\<close>

definition boot_ex :: "FS option" where
  "boot_ex = FilesystemServer_new conf_ex (env_ex 1) 0 (\<lambda>_. 0) (\<lambda>_. 0) (\<lambda>_. 0)"

definition root_ex :: Inode where
  "root_ex = \<lparr>ino_server = 0, ino_id = 0\<rparr>"

definition calls_ex :: "(FsEnv \<times> FsCall) list" where
  "calls_ex = [(env_ex 5, Call_create root_ex ''a'' 0 420), (env_ex 7, Call_open 2 2),
     (env_ex 8, Call_write 7 [1, 2, 3, 4, 5])]"

lemmas ex_defs = conf_ex_def env_ex_def root_ex_def boot_ex_def calls_ex_def

lemmas object_defs = new_Dir_def new_File_def new_Symlink_def new_Pipe_def VFile_new_def inode_number_def
  lazy_dir_def put_file_def put_fd_def new_fd_def vf_isDir_def vf_isFile_def vf_isSymlink_def
  child_find_def addChild_def child_erase_def as_defs

lemmas method_defs = fs_create_def fs_destroy_def fs_unlink_def fs_rmdir_def fs_open_def fs_pipe_def fs_read_id_def
  fs_write_id_def fs_read_def fs_write_def fs_lseek_def fs_close_def fs_dup_def fs_flush_def fs_addmap_def
  fs_removemap_def fs_resolve_def fs_truncate_def op_counter_def remove_object_def add_orphan_def erase_delete_def
  close_file_def close_pipe_def truncate_file_def write_file_def set_file_size_def set_locked_def set_children_def

lemmas file_defs = File_new_def File_write_def File_read_def File_grow_def File_shrink_def File_truncate_def
  File_delete_def bc_get_def bc_put_def blocks_for_def read_loop.simps write_loop.simps

lemma boot_calls_ex:
  "\<exists>fs0 fs vi fi. boot_ex = Some fs0 \<and> fs_calls conf_ex calls_ex fs0 = Some fs \<and> fs_files fs 2 = Some vi
     \<and> vf_body vi = FileBody fi \<and> f_blocks fi = [0, 4] \<and> f_orphans fi = [] \<and> fs_seq fs = 3
     \<and> bc_blocks (fs_cache fs0) = [0, 4, 8, 12]"
  by (simp add: ex_defs FilesystemServer_new_def BufferCache_new_def region_blocks.simps object_defs c_int_def
      method_defs file_defs ORPHANS_INO_def O_DIRECTORY_def O_TRUNC_def O_APPEND_def Let_def)

theorem server_blocks_never_shared_witness:
  "\<exists>fs0 fs. boot_ex = Some fs0 \<and> fs_calls conf_ex calls_ex fs0 = Some fs \<and> file_blocks fs 2 = [0, 4]
     \<and> distinct (file_blocks fs 2 @ bc_blocks (fs_cache fs))
     \<and> set (bc_blocks (fs_cache fs)) \<union> (\<Union>i. set (file_blocks fs i)) = {0, 4, 8, 12}"
proof -
  from boot_calls_ex obtain fs0 fs vi fi where
    w: "boot_ex = Some fs0" "fs_calls conf_ex calls_ex fs0 = Some fs" "fs_files fs 2 = Some vi" "vf_body vi = FileBody fi"
    "f_blocks fi = [0, 4]" "f_orphans fi = []" "fs_seq fs = 3" "bc_blocks (fs_cache fs0) = [0, 4, 8, 12]" by blast
  have b: "file_blocks fs 2 = [0, 4]" using w by (simp add: file_blocks_of blocks_of_def)
  have "distinct (file_blocks fs 2 @ bc_blocks (fs_cache fs))
      \<and> set (bc_blocks (fs_cache fs)) \<union> (\<Union>i. set (file_blocks fs i)) = {0, 4, 8, 12}"
    using server_blocks_never_shared [OF _ _ _ _ w(1) [unfolded boot_ex_def] w(2)] w(7,8) by (simp add: conf_ex_def)
  with w b show ?thesis by blast
qed

section \<open>Writing and reading through descriptors\<close>

definition fs_content :: "nat \<Rightarrow> FS \<Rightarrow> nat \<Rightarrow> u8 list option" where
  "fs_content B fs i = map_option (\<lambda>f. content B f (fs_memory fs)) (file_body fs i)"

lemma fs_inv_fileD:
  assumes "fs_inv B M fs" "file_body fs i = Some f"
  shows "blocks_ok B M (f_blocks f @ f_orphans f @ bc_blocks (fs_cache fs))" "bc_invar (fs_cache fs)"
proof -
  from assms(2) obtain vf where "fs_files fs i = Some vf" "blocks_of vf = f_blocks f @ f_orphans f"
    by (auto simp: file_body_eq blocks_of_def)
  moreover from this assms(1) have "object_ok B M (fs_cache fs) i vf" by (simp add: server_inv_def)
  ultimately show "blocks_ok B M (f_blocks f @ f_orphans f @ bc_blocks (fs_cache fs))" by (simp add: object_ok_def)
  show "bc_invar (fs_cache fs)" using assms(1) by (simp add: server_inv_def)
qed

lemma inv_store_ok:
  assumes "fs_inv B M fs" "file_body fs i = Some f" "file_ok B f"
  shows "store_ok B f (fs_cache fs)"
  using fs_inv_fileD [OF assms(1,2)] assms(3) by (auto simp: store_ok_def blocks_ok_def aligned_def)

lemma aligned_apart:
  fixes b c x B :: nat
  assumes "B dvd b" "B dvd c" "b \<noteq> c" "b \<le> x" "x < b + B"
  shows "x < c \<or> c + B \<le> x"
proof -
  from assms(1,2) obtain p q where pq: "b = B * p" "c = B * q" by (auto elim!: dvdE)
  with assms(3) have "p < q \<or> q < p" by auto
  then show ?thesis
  proof
    assume "p < q"
    then have "B * (p + 1) \<le> B * q" by (intro mult_le_mono2) simp
    then show ?thesis using assms(5) pq by simp
  next
    assume "q < p"
    then have "B * (q + 1) \<le> B * p" by (intro mult_le_mono2) simp
    then show ?thesis using assms(4) pq by simp
  qed
qed

text \<open>Bytes of a file whose blocks are not touched.\<close>

lemma content_frame:
  assumes B: "B = 2 ^ k" and fit: "f_size g \<le> B * length (f_blocks g)" and al: "aligned B (f_blocks g)" "aligned B bs"
    and dis: "set (f_blocks g) \<inter> set bs = {}"
    and frame: "\<And>x. (\<And>b. b \<in> set bs \<Longrightarrow> x < b \<or> b + B \<le> x) \<Longrightarrow> m' x = m x"
  shows "content B g m' = content B g m"
proof -
  have "m' (addr B (f_blocks g) i) = m (addr B (f_blocks g) i)" if "i < f_size g" for i
  proof (rule frame)
    fix c assume c: "c \<in> set bs"
    let ?b = "f_blocks g ! (i div B)"
    have "i div B < length (f_blocks g)" using block_index [OF B] that fit by simp
    then have b: "?b \<in> set (f_blocks g)" by simp
    moreover have "i mod B < B" using B by simp
    ultimately show "addr B (f_blocks g) i < c \<or> c + B \<le> addr B (f_blocks g) i"
      using aligned_apart [of B ?b c "addr B (f_blocks g) i"] al c dis by (auto simp: addr_def aligned_def)
  qed
  then show ?thesis by (simp add: content_def)
qed

lemma write_file_content:
  assumes B: "cf_block_size cf = 2 ^ k" and inv: "fs_inv (cf_block_size cf) M fs"
    and vf: "fs_files fs i = Some vf" "vf_body vf = FileBody f" and ok: "file_ok (cf_block_size cf) f"
    and buf: "buf \<noteq> []" "offset + length buf < 2 ^ 64"
    and enough: "blocks_for (cf_block_size cf) (max (f_size f) (offset + length buf))
                   \<le> length (f_blocks f) + length (bc_blocks (fs_cache fs))"
  obtains vf' f' bc' m' gap where
    "write_file cf env i vf buf offset fs =
       Some (int (length buf), put_file i vf' (fs\<lparr>fs_cache := bc', fs_memory := m'\<rparr>))"
    and "vf_body vf' = FileBody f'" "file_ok (cf_block_size cf) f'" "length gap = offset - f_size f" "vf_type vf' = vf_type vf"
    and "content (cf_block_size cf) f' m' = take offset (content (cf_block_size cf) f (fs_memory fs)) @ gap @ buf
           @ drop (offset + length buf) (content (cf_block_size cf) f (fs_memory fs))"
    and "\<And>j g. j \<noteq> i \<Longrightarrow> file_body fs j = Some g \<Longrightarrow> f_size g \<le> cf_block_size cf * length (f_blocks g) \<Longrightarrow>
           content (cf_block_size cf) g m' = content (cf_block_size cf) g (fs_memory fs)"
proof -
  let ?B = "cf_block_size cf"
  have fb: "file_body fs i = Some f" using vf by (auto simp: file_body_eq)
  have sok: "store_ok ?B f (fs_cache fs)" by (rule inv_store_ok [OF inv fb ok])
  from File_write_content [OF B sok buf enough, of "fs_memory fs"] obtain f' bc' m' gap where
    w: "File_write ?B buf offset f (fs_cache fs) (fs_memory fs) = Some (int (length buf), f', bc', m')"
    "store_ok ?B f' bc'" "length gap = offset - f_size f"
    "content ?B f' m' = take offset (content ?B f (fs_memory fs)) @ gap @ buf @ drop (offset + length buf) (content ?B f (fs_memory fs))"
    "\<forall>x. (\<forall>b\<in>set (f_blocks f'). x < b \<or> b + ?B \<le> x) \<longrightarrow> m' x = fs_memory fs x" by blast
  define vf' where "vf' = vf\<lparr>vf_body := FileBody f', vf_atime := en_now env, vf_mtime := en_now env\<rparr>"
  have fsw: "write_file cf env i vf buf offset fs = Some (int (length buf), put_file i vf' (fs\<lparr>fs_cache := bc', fs_memory := m'\<rparr>))"
    using w(1) buf(1) vf(2) by (simp add: write_file_def as_file_def vf'_def Let_def)
  have inv': "server_inv ?B M ((fs_files fs)(i \<mapsto> vf')) (fs_pipes fs) bc'"
    using write_file_inv [OF inv vf(1) fsw] by simp
  have al': "aligned ?B (f_blocks f')" using w(2) by (simp add: store_ok_def file_ok_def)
  have other: "content ?B g m' = content ?B g (fs_memory fs)"
    if "j \<noteq> i" "file_body fs j = Some g" "f_size g \<le> ?B * length (f_blocks g)" for j g
  proof (rule content_frame [OF B that(3) _ al'])
    from that(2) obtain vj where vj: "fs_files fs j = Some vj" "vf_body vj = FileBody g" by (auto simp: file_body_eq)
    show "aligned ?B (f_blocks g)"
      using fs_inv_fileD(1) [OF inv that(2)] by (auto simp: blocks_ok_def aligned_def)
    show "set (f_blocks g) \<inter> set (f_blocks f') = {}"
      using inv' files_apartD [of "(fs_files fs)(i \<mapsto> vf')" j i vj vf'] vj that(1)
      by (auto simp: server_inv_def blocks_of_def vf'_def)
  qed (use w(5) in blast)
  have "file_ok ?B f'" using w(2) by (simp add: store_ok_def)
  then show thesis using that [OF fsw _ _ w(3) _ w(4) other] by (simp add: vf'_def)
qed

lemma tick_inv: "fs_inv B M fs \<Longrightarrow> fs_inv B M (tick cf op fs)"
  by simp

lemma file_body_tick [simp]: "file_body (tick cf op fs) i = file_body fs i" "file_body (tock cf env op fs) i = file_body fs i"
  by (simp_all add: file_body_def)

lemma file_body_put [simp]:
  "file_body (put_fd fd d fs) i = file_body fs i"
  "file_body (put_file j vf fs) i = (if i = j then as_file vf else file_body fs i)"
  by (simp_all add: file_body_def)

lemma map_of_update [simp]: "map_of (AList.update k v al) = (map_of al)(k \<mapsto> v)"
  by (simp add: update_conv')

lemma fs_write_result:
  assumes B: "cf_block_size cf = 2 ^ k" and inv: "fs_inv (cf_block_size cf) M fs"
    and fd: "map_of (fs_fds fs) fd = Some d" and f: "file_body fs (fd_id d) = Some f"
    and ok: "file_ok (cf_block_size cf) f" and buf: "buf \<noteq> []" "fd_offset d + length buf < 2 ^ 64"
    and enough: "blocks_for (cf_block_size cf) (max (f_size f) (fd_offset d + length buf))
                   \<le> length (f_blocks f) + length (bc_blocks (fs_cache fs))"
  obtains fs' f' gap where "fs_write cf env fd buf fs = Some ((OK, length buf), fs')"
    and "file_body fs' (fd_id d) = Some f'" "file_ok (cf_block_size cf) f'" "length gap = fd_offset d - f_size f"
    and "content (cf_block_size cf) f' (fs_memory fs') = take (fd_offset d) (content (cf_block_size cf) f (fs_memory fs))
           @ gap @ buf @ drop (fd_offset d + length buf) (content (cf_block_size cf) f (fs_memory fs))"
    and "\<And>j g. j \<noteq> fd_id d \<Longrightarrow> file_body fs j = Some g \<Longrightarrow> f_size g \<le> cf_block_size cf * length (f_blocks g) \<Longrightarrow>
           fs_content (cf_block_size cf) fs' j = fs_content (cf_block_size cf) fs j"
    and "map_of (fs_fds fs') fd = Some (d\<lparr>fd_offset := fd_offset d + length buf\<rparr>)"
    and "fs_inv (cf_block_size cf) M fs'"
    and "fs_files fs' = (fs_files fs)(fd_id d := fs_files fs' (fd_id d))"
    and "map_option vf_type (fs_files fs' (fd_id d)) = map_option vf_type (fs_files fs (fd_id d))"
proof -
  let ?B = "cf_block_size cf" and ?fs = "tick cf WRITE fs"
  from f obtain vf where vf: "fs_files fs (fd_id d) = Some vf" "vf_body vf = FileBody f" by (auto simp: file_body_eq)
  have vf1: "fs_files ?fs (fd_id d) = Some vf" using vf by simp
  have en: "blocks_for ?B (max (f_size f) (fd_offset d + length buf)) \<le> length (f_blocks f) + length (bc_blocks (fs_cache ?fs))"
    using enough by simp
  obtain vf' f' bc' m' gap where
    w: "write_file cf env (fd_id d) vf buf (fd_offset d) ?fs =
         Some (int (length buf), put_file (fd_id d) vf' (?fs\<lparr>fs_cache := bc', fs_memory := m'\<rparr>))"
    "vf_body vf' = FileBody f'" "file_ok ?B f'" "length gap = fd_offset d - f_size f" "vf_type vf' = vf_type vf"
    "content ?B f' m' = take (fd_offset d) (content ?B f (fs_memory ?fs)) @ gap @ buf
       @ drop (fd_offset d + length buf) (content ?B f (fs_memory ?fs))"
    "\<And>j g. j \<noteq> fd_id d \<Longrightarrow> file_body ?fs j = Some g \<Longrightarrow> f_size g \<le> ?B * length (f_blocks g) \<Longrightarrow>
       content ?B g m' = content ?B g (fs_memory ?fs)"
    by (rule write_file_content [OF B tick_inv [OF inv] vf1 vf(2) ok buf en, of env]) (rule that)
  define fs1 where "fs1 = tock cf env WRITE (put_file (fd_id d) vf' (?fs\<lparr>fs_cache := bc', fs_memory := m'\<rparr>))"
  define fs' where "fs' = put_fd fd (d\<lparr>fd_offset := fd_offset d + length buf\<rparr>) fs1"
  have "fs_write_id cf env (fd_id d) (fd_offset d) buf fs = Some ((OK, length buf), fs1)"
    using vf w(1) buf(1) by (simp add: fs_write_id_def op_counter_eq fs1_def)
  then have r: "fs_write cf env fd buf fs = Some ((OK, length buf), fs')"
    using fd buf(2) by (simp add: fs_write_def fs'_def)
  have body: "file_body fs' j = (if j = fd_id d then Some f' else file_body fs j)" for j
    using w(2) by (simp add: fs'_def fs1_def as_file_def file_body_def)
  have mem: "fs_memory fs' = m'" by (simp add: fs'_def fs1_def)
  show thesis
  proof (rule that [OF r])
    show "file_body fs' (fd_id d) = Some f'" by (simp add: body)
    show "content ?B f' (fs_memory fs') = take (fd_offset d) (content ?B f (fs_memory fs)) @ gap @ buf
       @ drop (fd_offset d + length buf) (content ?B f (fs_memory fs))" using w(6) by (simp add: mem)
    show "fs_content ?B fs' j = fs_content ?B fs j"
      if "j \<noteq> fd_id d" "file_body fs j = Some g" "f_size g \<le> ?B * length (f_blocks g)" for j g
      using w(7) [OF that(1) _ that(3)] that(1,2) by (simp add: fs_content_def body mem)
    show "fs_inv ?B M fs'" using write_inv [OF inv r] .
  qed (use w(3,4,5) vf(1) in \<open>simp_all add: fs'_def fs1_def fun_upd_def\<close>)
qed

text \<open>C4. Writing through a descriptor stores the bytes at its offset and advances it; every other file keeps its
  bytes.  After seeking back, reading as many bytes through the descriptor returns exactly what was written.\<close>

theorem fs_write_lseek_read:
  assumes B: "cf_block_size cf = 2 ^ k" and inv: "fs_inv (cf_block_size cf) M fs"
    and fd: "map_of (fs_fds fs) fd = Some d" and f: "file_body fs (fd_id d) = Some f"
    and ok: "file_ok (cf_block_size cf) f" and buf: "buf \<noteq> []" "fd_offset d + length buf < 2 ^ 64"
    and enough: "blocks_for (cf_block_size cf) (max (f_size f) (fd_offset d + length buf))
                   \<le> length (f_blocks f) + length (bc_blocks (fs_cache fs))"
  shows "\<exists>fs1 fs2 fs3. fs_write cf env1 fd buf fs = Some ((OK, length buf), fs1)
     \<and> fs_lseek cf env2 fd (fd_offset d) SEEK_SET fs1 = Some ((OK, fd_offset d), fs2)
     \<and> fs_read cf env3 fd (length buf) fs2 = Some ((OK, buf, length buf), fs3)
     \<and> map_of (fs_fds fs3) fd = Some (d\<lparr>fd_offset := fd_offset d + length buf\<rparr>)
     \<and> (\<forall>j g. j \<noteq> fd_id d \<and> file_body fs j = Some g \<and> f_size g \<le> cf_block_size cf * length (f_blocks g) \<longrightarrow>
          fs_content (cf_block_size cf) fs3 j = fs_content (cf_block_size cf) fs j)"
proof -
  let ?B = "cf_block_size cf" and ?o = "fd_offset d"
  obtain fs1 f' gap where w: "fs_write cf env1 fd buf fs = Some ((OK, length buf), fs1)"
    "file_body fs1 (fd_id d) = Some f'" "file_ok ?B f'" "length gap = ?o - f_size f"
    "content ?B f' (fs_memory fs1) = take ?o (content ?B f (fs_memory fs)) @ gap @ buf @ drop (?o + length buf) (content ?B f (fs_memory fs))"
    "\<And>j g. j \<noteq> fd_id d \<Longrightarrow> file_body fs j = Some g \<Longrightarrow> f_size g \<le> ?B * length (f_blocks g) \<Longrightarrow>
       fs_content ?B fs1 j = fs_content ?B fs j"
    "map_of (fs_fds fs1) fd = Some (d\<lparr>fd_offset := ?o + length buf\<rparr>)" "fs_inv ?B M fs1"
    by (rule fs_write_result [OF assms, of env1]) (rule that)
  from w(2) obtain vf where vf: "fs_files fs1 (fd_id d) = Some vf" "vf_body vf = FileBody f'" by (auto simp: file_body_eq)
  then have ty: "vf_isFile vf" using fs_inv_objectD [OF w(8) vf(1)] by (simp add: body_ok_def vf_isFile_def)
  define fs2 where "fs2 = tock cf env2 LSEEK (put_fd fd (d\<lparr>fd_offset := ?o\<rparr>) (tick cf LSEEK fs1))"
  have l: "fs_lseek cf env2 fd ?o SEEK_SET fs1 = Some ((OK, ?o), fs2)"
    using w(7) vf ty by (simp add: fs_lseek_def op_counter_eq fs2_def as_file_def SEEK_SET_def)
  have len: "length (take ?o (content ?B f (fs_memory fs)) @ gap) = ?o" using w(4) by simp
  have "take (length buf) (drop ?o ((take ?o (content ?B f (fs_memory fs)) @ gap) @ buf @ drop (?o + length buf) (content ?B f (fs_memory fs)))) = buf"
    using len by simp
  then have "take (length buf) (drop ?o (content ?B f' (fs_memory fs1))) = buf" using w(5) by simp
  then have rd: "File_read ?B f' (fs_memory fs1) (length buf) ?o = Some buf"
    using File_read_content [OF B w(3) buf(2), of "fs_memory fs1"] by simp
  define fs3 where "fs3 = put_fd fd (d\<lparr>fd_offset := ?o + length buf\<rparr>)
    (tock cf env3 READ (put_file (fd_id d) (vf\<lparr>vf_atime := en_now env3\<rparr>) (tick cf READ fs2)))"
  have "fs_read_id cf env3 (fd_id d) ?o (length buf) fs2 = Some ((OK, buf, length buf),
      tock cf env3 READ (put_file (fd_id d) (vf\<lparr>vf_atime := en_now env3\<rparr>) (tick cf READ fs2)))"
    using vf ty rd buf(1) by (simp add: fs_read_id_def op_counter_eq fs2_def as_file_def)
  then have r: "fs_read cf env3 fd (length buf) fs2 = Some ((OK, buf, length buf), fs3)"
    using buf(2) by (simp add: fs_read_def fs2_def fs3_def)
  have "fs_content ?B fs3 j = fs_content ?B fs1 j" if "j \<noteq> fd_id d" for j
    using that by (simp add: fs_content_def fs3_def fs2_def)
  then show ?thesis using w(1,6) l r by (auto simp: fs3_def)
qed

lemma opened_ex:
  obtains fs where "fs_inv (cf_block_size conf_ex) 32 fs" "map_of (fs_fds fs) 7 = Some (new_fd 2)"
    "file_body fs 2 = Some File_new" "length (bc_blocks (fs_cache fs)) = 4" "fs_pipes fs = Map.empty" "fs_id fs = 0"
    "fs_fds fs = [(7, new_fd 2)]"
proof -
  have "\<exists>fs0 fs. boot_ex = Some fs0 \<and> fs_calls conf_ex (take 2 calls_ex) fs0 = Some fs \<and> map_of (fs_fds fs) 7 = Some (new_fd 2)
      \<and> file_body fs 2 = Some File_new \<and> length (bc_blocks (fs_cache fs)) = 4 \<and> fs_pipes fs = Map.empty \<and> fs_id fs = 0
      \<and> fs_fds fs = [(7, new_fd 2)]"
    by (simp add: ex_defs FilesystemServer_new_def BufferCache_new_def region_blocks.simps object_defs c_int_def
        method_defs file_defs ORPHANS_INO_def O_DIRECTORY_def O_TRUNC_def O_APPEND_def Let_def file_body_def)
  then obtain fs0 fs where fs: "boot_ex = Some fs0" "fs_calls conf_ex (take 2 calls_ex) fs0 = Some fs"
    "map_of (fs_fds fs) 7 = Some (new_fd 2)" "file_body fs 2 = Some File_new" "length (bc_blocks (fs_cache fs)) = 4"
    "fs_pipes fs = Map.empty" "fs_id fs = 0" "fs_fds fs = [(7, new_fd 2)]" by blast
  have "fs_inv (cf_block_size conf_ex) (cf_memory_size conf_ex) fs0"
    by (rule FilesystemServer_new_inv [OF _ _ _ _ fs(1) [unfolded boot_ex_def]]) (simp_all add: conf_ex_def)
  from fs_calls_inv [OF this fs(2)] have "fs_inv (cf_block_size conf_ex) 32 fs" by (simp add: conf_ex_def)
  then show thesis using that fs(3-) by blast
qed

theorem fs_write_lseek_read_witness:
  "\<exists>fs fs1 fs2 fs3. fs_write conf_ex (env_ex 1) 7 [1, 2, 3, 4, 5] fs = Some ((OK, 5), fs1)
     \<and> fs_lseek conf_ex (env_ex 2) 7 0 SEEK_SET fs1 = Some ((OK, 0), fs2)
     \<and> fs_read conf_ex (env_ex 3) 7 5 fs2 = Some ((OK, [1, 2, 3, 4, 5], 5), fs3)"
proof -
  from opened_ex obtain fs where fs: "fs_inv (cf_block_size conf_ex) 32 fs" "map_of (fs_fds fs) 7 = Some (new_fd 2)"
    "file_body fs 2 = Some File_new" "length (bc_blocks (fs_cache fs)) = 4" by metis
  have B: "cf_block_size conf_ex = 2 ^ 2" by (simp add: conf_ex_def)
  have ok: "file_body fs (fd_id (new_fd 2)) = Some File_new" "file_ok (cf_block_size conf_ex) File_new"
    using fs(3) by (simp_all add: new_fd_def File_new_def file_ok_def blocks_for_def aligned_def)
  have "[1, 2, 3, 4, 5] \<noteq> ([] :: u8 list)" "fd_offset (new_fd 2) + (5 :: nat) < 2 ^ 64"
    "blocks_for (cf_block_size conf_ex) (max (f_size File_new) (fd_offset (new_fd 2) + 5))
       \<le> length (f_blocks File_new) + length (bc_blocks (fs_cache fs))"
    using fs(4) blocks_for_4_5 by (simp_all add: new_fd_def File_new_def conf_ex_def)
  from fs_write_lseek_read [OF B fs(1,2) ok this(1), unfolded length_5, OF this(2,3), of "env_ex 1" "env_ex 2" "env_ex 3"]
  show ?thesis by (auto simp: new_fd_def)
qed

section \<open>Unlinking open files\<close>

lemma add_orphan_result:
  assumes "fs_inv B M fs" "length name < cf_max_fname_len cf"
  obtains o_vf od where "fs_files fs ORPHANS_INO = Some o_vf" "vf_body o_vf = DirBody od"
    and "add_orphan cf env name vf fs = Some (put_file ORPHANS_INO (o_vf\<lparr>vf_body := DirBody (od\<lparr>d_children :=
           addChild (en_loc env) name \<lparr>ino_server = int (fs_id fs), ino_id = vf_id vf, ino_type = vf_type vf\<rparr> (d_children od)\<rparr>)\<rparr>) fs)"
proof -
  from assms(1) obtain o_vf od where o: "fs_files fs ORPHANS_INO = Some o_vf" "vf_body o_vf = DirBody od"
    by (auto simp: server_inv_def orphans_ok_def)
  then show thesis using that assms(2) by (simp add: add_orphan_def as_dir_def)
qed

lemma child_find_id_addChild:
  "child_find_id i (addChild loc name \<lparr>ino_server = s, ino_id = i, ino_type = t\<rparr> ch) \<noteq> None"
proof -
  let ?l = "\<lparr>vl_addr = loc, vl_inode = \<lparr>ino_server = s, ino_id = i, ino_type = t\<rparr>\<rparr>"
  have "map_of (AList.update name ?l ch) name = Some ?l" by simp
  then have "(name, ?l) \<in> set (AList.update name ?l ch)" by (rule map_of_SomeD)
  then have "\<exists>x. x \<in> set (AList.update name ?l ch) \<and> (case x of (_, l) \<Rightarrow> ino_id (vl_inode l) = i)"
    by (intro exI [of _ "(name, ?l)"]) simp
  then show ?thesis unfolding child_find_id_def addChild_def find_None_iff by blast
qed

text \<open>The last close of an object among the orphans deletes it.\<close>

lemma close_orphan:
  assumes inv: "fs_inv B M fs" and f: "fs_files fs i = Some vf" "vf_body vf = FileBody f" and i: "i \<noteq> 0 \<or> fs_id fs \<noteq> 0"
    and fd: "map_of (fs_fds fs) fd = Some d" "fd_id d = i" "fd_count d = 1"
    and o: "fs_files fs ORPHANS_INO = Some o_vf" "vf_body o_vf = DirBody od" "child_find_id i (d_children od) \<noteq> None"
  obtains fs' where "fs_close cf env fd off n fs = Some (OK, fs')" "fs_files fs' i = None"
    "fs_fds fs' = AList.delete fd (fs_fds fs)" "fs_pipes fs' = fs_pipes fs"
    "fs_cache fs' = File_delete f (fs_cache fs)" "fs_memory fs' = fs_memory fs"
proof -
  from o(3) obtain name l where c: "child_find_id i (d_children od) = Some (name, l)" by auto
  have id: "vf_id vf = i" using fs_inv_objectD [OF inv f(1)] by simp
  have io: "i \<noteq> ORPHANS_INO" using f o by auto
  define fs1 where "fs1 = put_file ORPHANS_INO
    (o_vf\<lparr>vf_body := DirBody (od\<lparr>d_children := child_erase name (d_children od)\<rparr>)\<rparr>) (tick cf CLOSE fs)"
  define fs2 where "fs2 = fs1\<lparr>fs_files := (fs_files fs1)(i := None), fs_cache := File_delete f (fs_cache fs1)\<rparr>"
  have "close_file i vf n (tick cf CLOSE fs) = Some fs2"
    using o c id f(2) io i by (auto simp: close_file_def as_dir_def erase_delete_def fs1_def fs2_def Let_def)
  then have "fs_close cf env fd off n fs = Some (OK, tock cf env CLOSE (fs2\<lparr>fs_fds := AList.delete fd (fs_fds fs2)\<rparr>))"
    using fd f(1) by (simp add: fs_close_def op_counter_eq)
  then show thesis using that by (simp add: fs2_def fs1_def)
qed

text \<open>\<^verbatim>\<open>unlink\<close> and \<^verbatim>\<open>destroy\<close> treat a file alike.\<close>

lemma removal_of_file:
  assumes "rm = fs_unlink \<or> rm = fs_destroy" "fs_files fs i = Some vf" "vf_isFile vf"
  obtains op where "rm cf env i fs = map_option (\<lambda>(r, fs). (r, tock cf env op fs))
    (remove_object cf env (''f.'' @ lld_string (en_tsc env)) i vf (tick cf op fs))"
proof -
  have "\<not> vf_isDir vf" using assms(3) by (simp add: vf_isFile_def vf_isDir_def)
  then show thesis
    using assms that [of UNLINK] that [of DESTROY] by (auto simp: fs_unlink_def fs_destroy_def op_counter_eq)
qed

lemma removal_open_result:
  assumes rm: "rm = fs_unlink \<or> rm = fs_destroy" and inv: "fs_inv B M fs"
    and f: "fs_files fs i = Some vf" "vf_body vf = FileBody f" and opened: "has_fd i fs"
    and name: "length (lld_string (en_tsc env)) + 2 < cf_max_fname_len cf"
  obtains fs' o_vf od where "rm cf env i fs = Some (OK, fs')" "fs_inv B M fs'" "fs_files fs' i = Some vf"
    "fs_files fs' ORPHANS_INO = Some o_vf" "vf_body o_vf = DirBody od" "child_find_id i (d_children od) \<noteq> None"
    "fs_fds fs' = fs_fds fs" "fs_memory fs' = fs_memory fs" "fs_cache fs' = fs_cache fs" "fs_pipes fs' = fs_pipes fs"
    "fs_id fs' = fs_id fs"
proof -
  let ?name = "''f.'' @ lld_string (en_tsc env)"
  have id: "vf_id vf = i" "vf_isFile vf" using fs_inv_objectD [OF inv f(1)] f(2) by (simp_all add: body_ok_def vf_isFile_def)
  obtain op where r: "rm cf env i fs = map_option (\<lambda>(r, fs). (r, tock cf env op fs)) (remove_object cf env ?name i vf (tick cf op fs))"
    by (rule removal_of_file [OF rm f(1) id(2)])
  have "length ?name < cf_max_fname_len cf" using name by simp
  then obtain o_vf od where o: "fs_files fs ORPHANS_INO = Some o_vf" "vf_body o_vf = DirBody od"
    "add_orphan cf env ?name vf (tick cf op fs) = Some (put_file ORPHANS_INO (o_vf\<lparr>vf_body := DirBody (od\<lparr>d_children :=
       addChild (en_loc env) ?name \<lparr>ino_server = int (fs_id fs), ino_id = vf_id vf, ino_type = vf_type vf\<rparr> (d_children od)\<rparr>)\<rparr>)
       (tick cf op fs))"
    using add_orphan_result [OF tick_inv [OF inv], of ?name cf cf op env vf] by auto
  define od' where "od' = od\<lparr>d_children :=
    addChild (en_loc env) ?name \<lparr>ino_server = int (fs_id fs), ino_id = vf_id vf, ino_type = vf_type vf\<rparr> (d_children od)\<rparr>"
  define fs' where "fs' = tock cf env op (put_file ORPHANS_INO (o_vf\<lparr>vf_body := DirBody od'\<rparr>) (tick cf op fs))"
  have "has_fd i (tick cf op fs)" using opened by (simp add: has_fd_def)
  then have u: "rm cf env i fs = Some (OK, fs')"
    using r id o(3) by (simp add: remove_object_def fs'_def od'_def)
  then have inv': "fs_inv B M fs'" using rm unlink_inv [OF inv] destroy_inv [OF inv] by auto
  have "child_find_id i (d_children od') \<noteq> None"
    using child_find_id_addChild [of i] id(1) by (simp add: od'_def)
  moreover have io: "i \<noteq> ORPHANS_INO" using f o by auto
  ultimately show thesis
    by (intro that [OF u inv', of "o_vf\<lparr>vf_body := DirBody od'\<rparr>" od']) (use f(1) in \<open>simp_all add: fs'_def\<close>)
qed

text \<open>Reading a file through a descriptor changes only the file's access time and the descriptor's offset.\<close>

lemma read_open_result:
  assumes B: "cf_block_size cf = 2 ^ k" and f: "fs_files fs i = Some vf" "vf_body vf = FileBody f" "vf_isFile vf"
    and ok: "file_ok (cf_block_size cf) f" and fd: "map_of (fs_fds fs) fd = Some d" "fd_id d = i"
    and lim: "fd_offset d + cnt < 2 ^ 64"
    and bs: "bs = take cnt (drop (fd_offset d) (content (cf_block_size cf) f (fs_memory fs)))"
  obtains fs' where "fs_read cf env fd cnt fs = Some ((OK, bs, length bs), fs')"
    "fs_files fs' = (fs_files fs)(i \<mapsto> vf\<lparr>vf_atime := en_now env\<rparr>)" "fs_cache fs' = fs_cache fs" "fs_id fs' = fs_id fs"
    "map_of (fs_fds fs') = (map_of (fs_fds fs))(fd \<mapsto> d\<lparr>fd_offset := size_t (fd_offset d + length bs)\<rparr>)"
proof -
  have rd: "File_read (cf_block_size cf) f (fs_memory fs) cnt (fd_offset d) = Some bs"
    using File_read_content [OF B ok lim, of "fs_memory fs"] bs by simp
  define fs1 where "fs1 = tock cf env READ (put_file i (vf\<lparr>vf_atime := en_now env\<rparr>) (tick cf READ fs))"
  have "fs_read_id cf env i (fd_offset d) cnt fs = Some ((OK, bs, length bs), fs1)"
    using f rd by (cases "bs = []") (simp_all add: fs_read_id_def op_counter_eq fs1_def as_file_def OK_def)
  then show thesis
    using fd that [of "put_fd fd (d\<lparr>fd_offset := size_t (fd_offset d + length bs)\<rparr>) fs1"]
    by (simp add: fs_read_def fs1_def)
qed

lemma has_fdI: "map_of (fs_fds fs) fd = Some d \<Longrightarrow> fd_id d = i \<Longrightarrow> fd_count d = 1 \<Longrightarrow> has_fd i fs"
  using map_of_SomeD [of "fs_fds fs" fd d] by (force simp: has_fd_def list_ex_iff c_int_def)

lemma deleted_blocks:
  assumes "fs_inv B M fs" "file_body fs i = Some f"
  shows "mset (bc_blocks (File_delete f (fs_cache fs))) = mset (f_blocks f @ f_orphans f @ bc_blocks (fs_cache fs))"
proof -
  note pool = fs_inv_fileD [OF assms]
  have "M < 2 ^ 64" using assms(1) by (simp add: server_inv_def)
  then have "size (file_pool f (fs_cache fs)) < 2 ^ 64"
    using blocks_ok_length [OF pool(1)] by (simp add: file_pool_def)
  then show ?thesis using File_delete_pool [OF pool(2), of f] by (simp add: file_pool_def)
qed

text \<open>C5. Unlinking or destroying a file that is open keeps it: it can still be read through its descriptor, which
  delivers the bytes it had, until the descriptor is closed; that deletes it and gives all its blocks back.\<close>

theorem unlink_open_file:
  assumes rm: "rm = fs_unlink \<or> rm = fs_destroy"
    and B: "cf_block_size cf = 2 ^ k" and inv: "fs_inv (cf_block_size cf) M fs"
    and f: "fs_files fs i = Some vf" "vf_body vf = FileBody f" and ok: "file_ok (cf_block_size cf) f"
    and i: "i \<noteq> 0 \<or> fs_id fs \<noteq> 0"
    and fd: "map_of (fs_fds fs) fd = Some d" "fd_id d = i" "fd_count d = 1" and lim: "fd_offset d + cnt < 2 ^ 64"
    and name: "length (lld_string (en_tsc env)) + 2 < cf_max_fname_len cf"
  shows "\<exists>fs1 fs2 fs3. rm cf env i fs = Some (OK, fs1)
     \<and> fs_content (cf_block_size cf) fs1 i = fs_content (cf_block_size cf) fs i \<and> map_of (fs_fds fs1) fd = Some d
     \<and> fs_read cf env1 fd cnt fs1 = Some ((OK, take cnt (drop (fd_offset d) (content (cf_block_size cf) f (fs_memory fs))),
          min cnt (f_size f - fd_offset d)), fs2)
     \<and> fs_close cf env2 fd off n fs2 = Some (OK, fs3) \<and> fs_files fs3 i = None \<and> map_of (fs_fds fs3) fd = None
     \<and> mset (bc_blocks (fs_cache fs3)) = mset (f_blocks f @ f_orphans f @ bc_blocks (fs_cache fs))"
proof -
  let ?B = "cf_block_size cf"
  define bs where "bs = take cnt (drop (fd_offset d) (content ?B f (fs_memory fs)))"
  obtain fs1 o_vf od where u: "rm cf env i fs = Some (OK, fs1)" "fs_inv ?B M fs1" "fs_files fs1 i = Some vf"
    "fs_files fs1 ORPHANS_INO = Some o_vf" "vf_body o_vf = DirBody od" "child_find_id i (d_children od) \<noteq> None"
    "fs_fds fs1 = fs_fds fs" "fs_memory fs1 = fs_memory fs" "fs_cache fs1 = fs_cache fs" "fs_pipes fs1 = fs_pipes fs"
    "fs_id fs1 = fs_id fs"
    by (rule removal_open_result [OF rm inv f has_fdI [OF fd] name]) (rule that)
  have fd1: "map_of (fs_fds fs1) fd = Some d" using fd(1) u(7) by simp
  have "vf_isFile vf" using fs_inv_objectD [OF inv f(1)] f(2) by (simp add: body_ok_def vf_isFile_def)
  then obtain fs2 where r: "fs_read cf env1 fd cnt fs1 = Some ((OK, bs, length bs), fs2)"
    "fs_files fs2 = (fs_files fs1)(i \<mapsto> vf\<lparr>vf_atime := en_now env1\<rparr>)" "fs_cache fs2 = fs_cache fs1" "fs_id fs2 = fs_id fs1"
    "map_of (fs_fds fs2) = (map_of (fs_fds fs1))(fd \<mapsto> d\<lparr>fd_offset := size_t (fd_offset d + length bs)\<rparr>)"
    using read_open_result [OF B u(3) f(2) _ ok fd1 fd(2) lim, of bs env1] u(8) by (simp add: bs_def) blast
  have io: "i \<noteq> ORPHANS_INO" using f u(3-5) by auto
  have c1: "fs_files fs2 i = Some (vf\<lparr>vf_atime := en_now env1\<rparr>)" "vf_body (vf\<lparr>vf_atime := en_now env1\<rparr>) = FileBody f"
    "i \<noteq> 0 \<or> fs_id fs2 \<noteq> 0" "map_of (fs_fds fs2) fd = Some (d\<lparr>fd_offset := size_t (fd_offset d + length bs)\<rparr>)"
    "fs_files fs2 ORPHANS_INO = Some o_vf"
    using r io f(2) i u(4,11) by simp_all
  have d': "fd_id (d\<lparr>fd_offset := size_t (fd_offset d + length bs)\<rparr>) = i"
    "fd_count (d\<lparr>fd_offset := size_t (fd_offset d + length bs)\<rparr>) = 1" using fd by simp_all
  obtain fs3 where c: "fs_close cf env2 fd off n fs2 = Some (OK, fs3)" "fs_files fs3 i = None"
    "fs_fds fs3 = AList.delete fd (fs_fds fs2)" "fs_pipes fs3 = fs_pipes fs2"
    "fs_cache fs3 = File_delete f (fs_cache fs2)" "fs_memory fs3 = fs_memory fs2"
    by (rule close_orphan [OF read_inv [OF u(2) r(1)] c1(1-4) d' c1(5) u(5,6)]) (rule that)
  have fb: "file_body fs i = Some f" "file_body fs1 i = Some f" using f u(3) by (auto simp: file_body_eq)
  have "mset (bc_blocks (fs_cache fs3)) = mset (f_blocks f @ f_orphans f @ bc_blocks (fs_cache fs))"
    using deleted_blocks [OF inv fb(1)] c(5) r(3) u(9) by simp
  moreover have "length bs = min cnt (f_size f - fd_offset d)" by (simp add: bs_def content_def)
  ultimately show ?thesis using u(1) c r(1) fd1 fb u(8) by (auto simp: fs_content_def delete_conv' bs_def)
qed

text \<open>The file of the small run, with its descriptor back at the start.\<close>

definition small_file_ex :: File where
  "small_file_ex = \<lparr>f_blocks = [0, 4], f_orphans = [], f_size = 5\<rparr>"

lemma upt_0_5: "[0..<5] = [0, 1, 2, 3, 4]"
  by (simp add: upt_rec)

lemma written_ex:
  obtains fs vf where "fs_inv (cf_block_size conf_ex) 32 fs" "map_of (fs_fds fs) 7 = Some (new_fd 2)"
    "fs_files fs 2 = Some vf" "vf_body vf = FileBody small_file_ex" "content 4 small_file_ex (fs_memory fs) = [1, 2, 3, 4, 5]"
proof -
  let ?calls = "calls_ex @ [(env_ex 9, Call_lseek 7 0 SEEK_SET)]"
  have "\<exists>fs0 fs vf. boot_ex = Some fs0 \<and> fs_calls conf_ex ?calls fs0 = Some fs \<and> map_of (fs_fds fs) 7 = Some (new_fd 2)
      \<and> fs_files fs 2 = Some vf \<and> vf_body vf = FileBody small_file_ex \<and> content 4 small_file_ex (fs_memory fs) = [1, 2, 3, 4, 5]"
    by (simp add: ex_defs FilesystemServer_new_def BufferCache_new_def region_blocks.simps object_defs c_int_def
        method_defs file_defs ORPHANS_INO_def O_DIRECTORY_def O_TRUNC_def O_APPEND_def Let_def small_file_ex_def SEEK_SET_def
        content_def addr_def upt_0_5)
  then obtain fs0 fs vf where fs: "boot_ex = Some fs0" "fs_calls conf_ex ?calls fs0 = Some fs"
    "map_of (fs_fds fs) 7 = Some (new_fd 2)" "fs_files fs 2 = Some vf" "vf_body vf = FileBody small_file_ex"
    "content 4 small_file_ex (fs_memory fs) = [1, 2, 3, 4, 5]" by blast
  have "fs_inv (cf_block_size conf_ex) (cf_memory_size conf_ex) fs0"
    by (rule FilesystemServer_new_inv [OF _ _ _ _ fs(1) [unfolded boot_ex_def]]) (simp_all add: conf_ex_def)
  from fs_calls_inv [OF this fs(2)] have "fs_inv (cf_block_size conf_ex) 32 fs" by (simp add: conf_ex_def)
  then show thesis using that fs(3-) by blast
qed

theorem unlink_open_file_witness:
  "\<exists>fs fs1 fs2 fs3. fs_destroy conf_ex (env_ex 9) 2 fs = Some (OK, fs1)
     \<and> fs_read conf_ex (env_ex 9) 7 3 fs1 = Some ((OK, [1, 2, 3], 3), fs2)
     \<and> fs_close conf_ex (env_ex 10) 7 0 0 fs2 = Some (OK, fs3) \<and> fs_files fs3 2 = None"
proof -
  obtain fs vf where fs: "fs_inv (cf_block_size conf_ex) 32 fs" "map_of (fs_fds fs) 7 = Some (new_fd 2)"
    "fs_files fs 2 = Some vf" "vf_body vf = FileBody small_file_ex" "content 4 small_file_ex (fs_memory fs) = [1, 2, 3, 4, 5]"
    by (rule written_ex)
  have B: "cf_block_size conf_ex = 2 ^ 2" by (simp add: conf_ex_def)
  have ok: "file_ok (cf_block_size conf_ex) small_file_ex"
    by (simp add: file_ok_def small_file_ex_def conf_ex_def blocks_for_4_5 aligned_def)
  have rm: "fs_destroy = fs_unlink \<or> fs_destroy = fs_destroy" by simp
  have lim: "fd_offset (new_fd 2) + 3 < 2 ^ 64" by (simp add: new_fd_def)
  have "length (lld_string (en_tsc (env_ex 9))) + 2 < cf_max_fname_len conf_ex"
    by (simp add: lld_string_def numeral_string.simps ex_defs)
  from unlink_open_file [OF rm B fs(1,3,4) ok _ fs(2) _ _ lim this, of "env_ex 9" "env_ex 10" 0 0] fs(5)
  show ?thesis by (auto simp: new_fd_def conf_ex_def small_file_ex_def)
qed

text \<open>C16. With a second descriptor open on an unlinked or destroyed file, closing the first one already deletes the
  file: the second then reads \<^verbatim>\<open>NOT_FOUND\<close>, and closing it fails an assertion of the server.\<close>

theorem unlink_two_descriptors:
  assumes rm: "rm = fs_unlink \<or> rm = fs_destroy" and inv: "fs_inv B M fs"
    and f: "fs_files fs i = Some vf" "vf_body vf = FileBody f" and i: "i \<noteq> 0 \<or> fs_id fs \<noteq> 0"
    and fd: "map_of (fs_fds fs) fd = Some d" "fd_id d = i" "fd_count d = 1"
    and fd2: "map_of (fs_fds fs) fd2 = Some d2" "fd_id d2 = i" "fd_count d2 = 1" "fd \<noteq> fd2" and p: "fs_pipes fs i = None"
    and name: "length (lld_string (en_tsc env)) + 2 < cf_max_fname_len cf"
  shows "\<exists>fs1 fs2. rm cf env i fs = Some (OK, fs1) \<and> fs_close cf env2 fd off n fs1 = Some (OK, fs2)
     \<and> map_of (fs_fds fs2) fd2 = Some d2 \<and> (\<exists>fs3. fs_read cf env3 fd2 cnt fs2 = Some ((NOT_FOUND, [], 0), fs3))
     \<and> fs_close cf env4 fd2 off2 n2 fs2 = None"
proof -
  obtain fs1 o_vf od where u: "rm cf env i fs = Some (OK, fs1)" "fs_inv B M fs1" "fs_files fs1 i = Some vf"
    "fs_files fs1 ORPHANS_INO = Some o_vf" "vf_body o_vf = DirBody od" "child_find_id i (d_children od) \<noteq> None"
    "fs_fds fs1 = fs_fds fs" "fs_memory fs1 = fs_memory fs" "fs_cache fs1 = fs_cache fs" "fs_pipes fs1 = fs_pipes fs"
    "fs_id fs1 = fs_id fs"
    by (rule removal_open_result [OF rm inv f has_fdI [OF fd] name]) (rule that)
  have fd1: "map_of (fs_fds fs1) fd = Some d" and i1: "i \<noteq> 0 \<or> fs_id fs1 \<noteq> 0" using fd(1) u(7,11) i by simp_all
  obtain fs2 where c: "fs_close cf env2 fd off n fs1 = Some (OK, fs2)" "fs_files fs2 i = None"
    "fs_fds fs2 = AList.delete fd (fs_fds fs1)" "fs_pipes fs2 = fs_pipes fs1"
    "fs_cache fs2 = File_delete f (fs_cache fs1)" "fs_memory fs2 = fs_memory fs1"
    by (rule close_orphan [OF u(2,3) f(2) i1 fd1 fd(2,3) u(4-6)]) (rule that)
  have d2: "map_of (fs_fds fs2) fd2 = Some d2" and p2: "fs_pipes fs2 i = None"
    using fd2(1,4) u(7,10) c(3,4) p by (simp_all add: delete_conv')
  have "\<exists>fs3. fs_read cf env3 fd2 cnt fs2 = Some ((NOT_FOUND, [], 0), fs3)"
    using d2 p2 c(2) fd2(2) by (simp add: fs_read_def fs_read_id_def op_counter_eq)
  moreover have "fs_close cf env4 fd2 off2 n2 fs2 = None"
    using d2 p2 c(2) fd2(2,3) by (simp add: fs_close_def op_counter_eq close_pipe_def)
  ultimately show ?thesis using u(1) c(1) d2 by blast
qed

theorem unlink_two_descriptors_witness:
  "\<exists>fs fs1 fs2. fs_unlink conf_ex (env_ex 9) 2 fs = Some (OK, fs1) \<and> fs_close conf_ex (env_ex 10) 7 0 0 fs1 = Some (OK, fs2)
     \<and> map_of (fs_fds fs2) 8 = Some (new_fd 2) \<and> fs_close conf_ex (env_ex 11) 8 0 0 fs2 = None"
proof -
  from opened_ex obtain fs0 where fs0: "fs_inv (cf_block_size conf_ex) 32 fs0" "map_of (fs_fds fs0) 7 = Some (new_fd 2)"
    "file_body fs0 2 = Some File_new" "fs_pipes fs0 = Map.empty" by metis
  define fs where "fs = put_fd 8 (new_fd 2) fs0"
  have fs: "fs_inv (cf_block_size conf_ex) 32 fs" "map_of (fs_fds fs) 7 = Some (new_fd 2)"
    "map_of (fs_fds fs) 8 = Some (new_fd 2)" "fs_pipes fs 2 = None"
    using fs0 by (simp_all add: fs_def)
  obtain vf where vf: "fs_files fs 2 = Some vf" "vf_body vf = FileBody File_new"
    using fs0(3) by (auto simp: fs_def file_body_eq)
  have rm: "fs_unlink = fs_unlink \<or> fs_unlink = fs_destroy" by simp
  have "length (lld_string (en_tsc (env_ex 9))) + 2 < cf_max_fname_len conf_ex"
    by (simp add: lld_string_def numeral_string.simps ex_defs)
  from unlink_two_descriptors [OF rm fs(1) vf _ fs(2) _ _ fs(3) _ _ _ fs(4) this, of "env_ex 10" 0 0 "env_ex 9" 0 "env_ex 11" 0 0]
  show ?thesis by (auto simp: new_fd_def)
qed

section \<open>Removing directories\<close>

lemma lazy_dir_present [simp]: "fs_files fs i = Some vf \<Longrightarrow> lazy_dir cf env i fs = Some fs"
  by (simp add: lazy_dir_def)

lemma rmdir_present:
  assumes "fs_files fs i = Some vf" "vf_isDir vf" "vf_body vf = DirBody d"
  shows "fs_rmdir cf env i phase fs = op_counter cf env RMDIR (\<lambda>fs.
     if list_ex (\<lambda>(name, _). name \<noteq> ''..'') (d_children d) then Some (NOT_EMPTY, fs)
     else if phase = RMDIR_TRY then Some (if d_locked d then (- EAGAIN, fs) else (OK, set_locked i vf d True fs))
     else if phase = RMDIR_FAIL then (if d_locked d then Some (OK, set_locked i vf d False fs) else None)
     else if phase = RMDIR_SUCCESS \<and> \<not> d_locked d then None
     else let fs = (if phase = RMDIR_SUCCESS then set_locked i vf d False fs else fs)
     in remove_object cf env (''f.'' @ numeral_string 16 (en_tsc env)) i vf fs) fs"
  using assms by (simp add: fs_rmdir_def op_counter_eq as_dir_def)

definition empty_dir :: "FS \<Rightarrow> nat \<Rightarrow> bool \<Rightarrow> bool" where
  "empty_dir fs i locked \<longleftrightarrow> (\<exists>vf d. fs_files fs i = Some vf \<and> vf_isDir vf \<and> vf_body vf = DirBody d
     \<and> d_locked d = locked \<and> \<not> list_ex (\<lambda>(name, _). name \<noteq> ''..'') (d_children d))"

text \<open>C10. The two phases of a distributed removal on one server: the first phase locks an empty directory, and while it is
  locked every other attempt is told to try again; giving up unlocks it, and completing removes it, unless it is
  open.  Completing or giving up without the lock fails an assertion.\<close>

theorem rmdir_two_phases:
  assumes dir: "empty_dir fs i False" and own: "i \<noteq> ORPHANS_INO" "i \<noteq> 0 \<or> fs_id fs \<noteq> 0"
    and inv: "fs_inv B M fs" and closed: "\<not> has_fd i fs"
  shows "\<exists>fs1. fs_rmdir cf env i RMDIR_TRY fs = Some (OK, fs1) \<and> empty_dir fs1 i True
     \<and> (\<exists>fs2. fs_rmdir cf env2 i RMDIR_TRY fs1 = Some (- EAGAIN, fs2) \<and> fs_files fs2 = fs_files fs1)
     \<and> (\<exists>fs3. fs_rmdir cf env2 i RMDIR_FAIL fs1 = Some (OK, fs3) \<and> fs_files fs3 = fs_files fs)
     \<and> (\<exists>fs4. fs_rmdir cf env2 i RMDIR_SUCCESS fs1 = Some (OK, fs4) \<and> fs_files fs4 = (fs_files fs)(i := None))
     \<and> fs_rmdir cf env i RMDIR_FAIL fs = None \<and> fs_rmdir cf env i RMDIR_SUCCESS fs = None"
proof -
  from dir obtain vf d where d: "fs_files fs i = Some vf" "vf_isDir vf" "vf_body vf = DirBody d" "\<not> d_locked d"
    "\<not> list_ex (\<lambda>(name, _). name \<noteq> ''..'') (d_children d)" by (auto simp: empty_dir_def)
  have id: "vf_id vf = i" using fs_inv_objectD [OF inv d(1)] by simp
  define d1 vf1 where "d1 = d\<lparr>d_locked := True\<rparr>" and "vf1 = vf\<lparr>vf_body := DirBody d1\<rparr>"
  define fs1 where "fs1 = tock cf env RMDIR (put_file i vf1 (tick cf RMDIR fs))"
  have t: "fs_rmdir cf env i RMDIR_TRY fs = Some (OK, fs1)"
    using d by (simp add: rmdir_present op_counter_eq set_locked_def fs1_def vf1_def d1_def)
  have d1: "fs_files fs1 i = Some vf1" "vf_isDir vf1" "vf_body vf1 = DirBody d1" "d_locked d1"
    "\<not> list_ex (\<lambda>(name, _). name \<noteq> ''..'') (d_children d1)"
    using d(2,5) by (simp_all add: fs1_def vf1_def d1_def vf_isDir_def)
  have restored: "vf1\<lparr>vf_body := DirBody (d1\<lparr>d_locked := False\<rparr>)\<rparr> = vf" using d(3,4) by (simp add: vf1_def d1_def)
  have "\<exists>fs2. fs_rmdir cf env2 i RMDIR_TRY fs1 = Some (- EAGAIN, fs2) \<and> fs_files fs2 = fs_files fs1"
    using d1 by (simp add: rmdir_present op_counter_eq)
  moreover have "\<exists>fs3. fs_rmdir cf env2 i RMDIR_FAIL fs1 = Some (OK, fs3) \<and> fs_files fs3 = fs_files fs"
    using d1 d(1) restored by (simp add: rmdir_present op_counter_eq set_locked_def rmdir_defs fs1_def fun_upd_idem)
  moreover have "\<not> has_fd i (set_locked i vf1 d1 False (tick cf RMDIR fs1))"
    using closed by (simp add: has_fd_def set_locked_def fs1_def)
  then have "\<exists>fs4. fs_rmdir cf env2 i RMDIR_SUCCESS fs1 = Some (OK, fs4) \<and> fs_files fs4 = (fs_files fs)(i := None)"
    using d1 own id by (simp add: rmdir_present op_counter_eq rmdir_defs remove_object_def erase_delete_def vf1_def)
      (simp add: set_locked_def fs1_def)
  moreover have "fs_rmdir cf env i RMDIR_FAIL fs = None" "fs_rmdir cf env i RMDIR_SUCCESS fs = None"
    using d by (simp_all add: rmdir_present op_counter_eq rmdir_defs)
  ultimately show ?thesis using t d1 unfolding empty_dir_def by blast
qed

lemma dir_ex:
  obtains fs where "fs_inv (cf_block_size conf_ex) 32 fs" "empty_dir fs 2 False" "fs_fds fs = []" "fs_id fs = 0"
proof -
  have "\<exists>fs0 fs. boot_ex = Some fs0 \<and> fs_calls conf_ex [(env_ex 5, Call_create root_ex ''d'' O_DIRECTORY 420)] fs0 = Some fs
      \<and> empty_dir fs 2 False \<and> fs_fds fs = [] \<and> fs_id fs = 0"
    by (simp add: ex_defs FilesystemServer_new_def BufferCache_new_def region_blocks.simps object_defs c_int_def
        method_defs file_defs ORPHANS_INO_def O_DIRECTORY_def S_ISSHR_def Let_def empty_dir_def)
  then obtain fs0 fs where fs: "boot_ex = Some fs0"
    "fs_calls conf_ex [(env_ex 5, Call_create root_ex ''d'' O_DIRECTORY 420)] fs0 = Some fs"
    "empty_dir fs 2 False" "fs_fds fs = []" "fs_id fs = 0" by blast
  have "fs_inv (cf_block_size conf_ex) (cf_memory_size conf_ex) fs0"
    by (rule FilesystemServer_new_inv [OF _ _ _ _ fs(1) [unfolded boot_ex_def]]) (simp_all add: conf_ex_def)
  from fs_calls_inv [OF this fs(2)] have "fs_inv (cf_block_size conf_ex) 32 fs" by (simp add: conf_ex_def)
  then show thesis using that fs(3-) by blast
qed

theorem rmdir_two_phases_witness:
  "\<exists>fs fs1 fs4. fs_rmdir conf_ex (env_ex 3) 2 RMDIR_TRY fs = Some (OK, fs1)
     \<and> fs_rmdir conf_ex (env_ex 4) 2 RMDIR_SUCCESS fs1 = Some (OK, fs4) \<and> fs_files fs4 2 = None"
proof -
  from dir_ex obtain fs where fs: "fs_inv (cf_block_size conf_ex) 32 fs" "empty_dir fs 2 False" "fs_fds fs = []" by metis
  have "\<not> has_fd 2 fs" using fs(3) by (simp add: has_fd_def)
  from rmdir_two_phases [OF fs(2) _ _ fs(1) this, of conf_ex "env_ex 3" "env_ex 4"] obtain fs1 fs4 where
    "fs_rmdir conf_ex (env_ex 3) 2 RMDIR_TRY fs = Some (OK, fs1)"
    "fs_rmdir conf_ex (env_ex 4) 2 RMDIR_SUCCESS fs1 = Some (OK, fs4)" "fs_files fs4 = (fs_files fs)(2 := None)"
    by (auto simp: ORPHANS_INO_def)
  then show ?thesis by (intro exI [of _ fs] exI [of _ fs1] exI [of _ fs4]) simp
qed

lemma names_add_erase:
  "\<not> list_ex (\<lambda>(name, _). name \<noteq> ''..'') ch \<Longrightarrow>
     \<not> list_ex (\<lambda>(name, _). name \<noteq> ''..'') (child_erase path (addChild loc path inode ch))"
proof -
  assume ch: "\<not> list_ex (\<lambda>(name, _). name \<noteq> ''..'') ch"
  have "fst ` set (child_erase path (addChild loc path inode ch)) \<subseteq> fst ` set ch"
    unfolding child_erase_def addChild_def delete_update_same by (rule dom_delete_subset)
  moreover have "fst ` set ch \<subseteq> {''..''}" using ch by (auto simp: list_ex_iff)
  ultimately have "fst ` set (child_erase path (addChild loc path inode ch)) \<subseteq> {''..''}" by blast
  then show ?thesis by (auto simp: list_ex_iff image_subset_iff)
qed

text \<open>C17. The lock of the first phase does not stop new entries.  When one is added in between, completing the removal
  is refused with \<^verbatim>\<open>NOT_EMPTY\<close> and the directory stays locked: after the entry is removed again it is an empty
  directory that nobody can begin to remove.\<close>

theorem rmdir_lock_not_respected:
  assumes dir: "empty_dir fs i False" and path: "path \<noteq> ''..''" "path \<noteq> ''stats''"
  shows "\<exists>fs1 fs2 fs3 fs4 fs5. fs_rmdir cf env1 i RMDIR_TRY fs = Some (OK, fs1)
     \<and> fs_addmap cf env2 app \<lparr>ino_server = s, ino_id = i\<rparr> path child False fs1 = Some ((OK, child), fs2)
     \<and> fs_rmdir cf env3 i RMDIR_SUCCESS fs2 = Some (NOT_EMPTY, fs3)
     \<and> fs_removemap cf env4 app2 i path fs3 = Some (OK, fs4) \<and> empty_dir fs4 i True
     \<and> fs_rmdir cf env5 i RMDIR_TRY fs4 = Some (- EAGAIN, fs5)"
proof -
  let ?empty = "\<lambda>ch. \<not> list_ex (\<lambda>(name, _ :: VFileLoc). name \<noteq> ''..'') ch"
  from dir obtain vf d where d: "fs_files fs i = Some vf" "vf_isDir vf" "vf_body vf = DirBody d" "\<not> d_locked d"
    "?empty (d_children d)" by (auto simp: empty_dir_def)
  define d1 where "d1 = d\<lparr>d_locked := True\<rparr>"
  define fs1 where "fs1 = tock cf env1 RMDIR (put_file i (vf\<lparr>vf_body := DirBody d1\<rparr>) (tick cf RMDIR fs))"
  have t: "fs_rmdir cf env1 i RMDIR_TRY fs = Some (OK, fs1)"
    using d by (simp add: rmdir_present op_counter_eq set_locked_def fs1_def d1_def)
  have absent: "child_find path (d_children d1) = None"
    using d(5) path(1) by (auto simp: child_find_def d1_def list_ex_iff map_of_eq_None_iff)
  define ch where "ch = addChild (en_loc env2) path child (d_children d1)"
  obtain fs2 where a: "fs_addmap cf env2 app \<lparr>ino_server = s, ino_id = i\<rparr> path child False fs1 = Some ((OK, child), fs2)"
    "fs_files fs2 i = Some (vf\<lparr>vf_body := DirBody (d1\<lparr>d_children := ch\<rparr>)\<rparr>)"
    using absent path d(3) by (simp add: fs_addmap_def op_counter_eq fs1_def as_dir_def lazy_dir_def ch_def Let_def)
  let ?vf2 = "vf\<lparr>vf_body := DirBody (d1\<lparr>d_children := ch\<rparr>)\<rparr>"
  have "map_of ch path = Some \<lparr>vl_addr = en_loc env2, vl_inode = child\<rparr>" by (simp add: ch_def addChild_def)
  then have ne: "list_ex (\<lambda>(name, _). name \<noteq> ''..'') ch" and fnd: "child_find path ch = Some \<lparr>vl_addr = en_loc env2, vl_inode = child\<rparr>"
    using path(1) map_of_SomeD by (force simp: list_ex_iff child_find_def)+
  have "vf_isDir ?vf2" using d(2) by (simp add: vf_isDir_def)
  then obtain fs3 where r: "fs_rmdir cf env3 i RMDIR_SUCCESS fs2 = Some (NOT_EMPTY, fs3)" "fs_files fs3 = fs_files fs2"
    using a(2) ne by (simp add: rmdir_present op_counter_eq)
  obtain fs4 where m: "fs_removemap cf env4 app2 i path fs3 = Some (OK, fs4)"
    "fs_files fs4 i = Some (?vf2\<lparr>vf_body := DirBody (d1\<lparr>d_children := child_erase path ch\<rparr>)\<rparr>)"
    using r(2) a(2) fnd path \<open>vf_isDir ?vf2\<close> by (simp add: fs_removemap_def op_counter_eq as_dir_def Let_def)
  have "?empty (child_erase path ch)" using names_add_erase d(5) by (simp add: ch_def d1_def)
  then have e: "empty_dir fs4 i True" using m(2) d(2) by (simp add: empty_dir_def vf_isDir_def d1_def)
  then obtain fs5 where "fs_rmdir cf env5 i RMDIR_TRY fs4 = Some (- EAGAIN, fs5)"
    by (auto simp: empty_dir_def rmdir_present op_counter_eq)
  with t a(1) r(1) m(1) e show ?thesis by blast
qed

theorem rmdir_lock_not_respected_witness:
  "\<exists>fs fs1 fs2 fs3. fs_rmdir conf_ex (env_ex 1) 2 RMDIR_TRY fs = Some (OK, fs1)
     \<and> fs_addmap conf_ex (env_ex 2) 77 \<lparr>ino_server = 0, ino_id = 2\<rparr> ''x'' \<lparr>ino_server = 1, ino_id = 9, ino_type = TYPE_FILE\<rparr> False fs1
         = Some ((OK, \<lparr>ino_server = 1, ino_id = 9, ino_type = TYPE_FILE\<rparr>), fs2)
     \<and> fs_rmdir conf_ex (env_ex 3) 2 RMDIR_SUCCESS fs2 = Some (NOT_EMPTY, fs3)"
proof -
  from dir_ex obtain fs where "empty_dir fs 2 False" by metis
  from rmdir_lock_not_respected [OF this, of "''x''" conf_ex "env_ex 1" "env_ex 2" 77 0
      "\<lparr>ino_server = 1, ino_id = 9, ino_type = TYPE_FILE\<rparr>" "env_ex 3" "env_ex 4" 78 "env_ex 5"]
  show ?thesis by auto
qed

section \<open>Names and the caches of the applications\<close>

lemma remove_cached_eq:
  "remove_cached env b e apps =
     (map (\<lambda>(x, es). (x, if vl_addr e \<in> set es then removeAll (vl_addr e) es else es)) apps,
      map (\<lambda>(x, _). (x, InodeOnly (vl_inode e))) (filter (\<lambda>(x, es). vl_addr e \<in> set es \<and> x \<noteq> b \<and> \<not> en_closed env x) apps))"
  by (induction env b e apps rule: remove_cached.induct) (auto simp: dispatchNotify_def)

lemma app_entries_removed:
  "app_entries a (map (\<lambda>(x, es). (x, if l \<in> set es then removeAll l es else es)) apps) = removeAll l (app_entries a apps)"
proof -
  have "map_of (map (\<lambda>(x, es). (x, if l \<in> set es then removeAll l es else es)) apps) a
      = map_option (\<lambda>es. if l \<in> set es then removeAll l es else es) (map_of apps a)"
    by (induction apps) auto
  then show ?thesis by (auto simp: app_entries_def removeAll_id split: option.splits)
qed

lemma app_entries_add [simp]:
  "app_entries a (fs_apps (appAddCache b e fs)) =
     (if a = b then List.insert (vl_addr e) (app_entries b (fs_apps fs)) else app_entries a (fs_apps fs))"
  by (simp add: appAddCache_def app_entries_def)

lemma appAddCache_sent [simp]: "fs_sent (appAddCache b e fs) = fs_sent fs"
  by (simp add: appAddCache_def)

lemma removemap_present:
  assumes "fs_files fs parent = Some p" "vf_isDir p" "vf_body p = DirBody d" "child_find path (d_children d) = Some e"
  obtains fs0 where "fs_removemap cf env b parent path fs = Some (OK, tock cf env REMOVEMAP
      (set_children parent p d (child_erase path (d_children d))
        (if cf_directory_cache cf \<and> path \<noteq> ''..'' then appRemoveCache env b e fs0 else fs0)))"
    "fs_apps fs0 = fs_apps fs" "fs_sent fs0 = fs_sent fs" "fs_files fs0 = fs_files fs"
proof (cases "path = ''stats''")
  case True
  then show thesis
    using that [of "clear_stats (tick cf REMOVEMAP fs)"] assms
    by (simp add: fs_removemap_def op_counter_eq as_dir_def Let_def)
next
  case False
  then show thesis
    using that [of "tick cf REMOVEMAP fs"] assms
    by (simp add: fs_removemap_def op_counter_eq as_dir_def Let_def)
qed

text \<open>C6. A name an application has resolved is remembered for it.  Removing the name, by anybody, notifies every other
  application that remembers it and has not closed its channel, exactly once and with the inode it had, forgets it
  for all of them, and the name is not found any more.\<close>

theorem name_cache_coherent:
  assumes p: "fs_files fs parent = Some p" "vf_isDir p" "vf_body p = DirBody d" and e: "child_find path (d_children d) = Some e"
    and cache: "cf_directory_cache cf" and path: "path \<noteq> ''..''" "path \<noteq> []" and apps: "distinct (map fst (fs_apps fs))"
  shows "\<exists>fs1 fs2 fs3 sent. fs_resolve cf env1 a parent path fs = Some ((OK, Some (vl_inode e)), fs1)
     \<and> fs_removemap cf env2 b parent path fs1 = Some (OK, fs2) \<and> fs_sent fs2 = fs_sent fs @ sent \<and> distinct (map fst sent)
     \<and> (\<forall>x ino. (x, ino) \<in> set sent \<longleftrightarrow> x \<noteq> b \<and> \<not> en_closed env2 x \<and> ino = InodeOnly (vl_inode e)
            \<and> (x = a \<or> vl_addr e \<in> set (app_entries x (fs_apps fs))))
     \<and> (\<forall>x. vl_addr e \<notin> set (app_entries x (fs_apps fs2)))
     \<and> fs_resolve cf env3 a parent path fs2 = Some ((NOT_FOUND, None), fs3)"
proof -
  let ?l = "vl_addr e" and ?ino = "InodeOnly (vl_inode e)"
  define fs1 where "fs1 = tock cf env1 RESOLVE (appAddCache a e (tick cf RESOLVE fs))"
  have r: "fs_resolve cf env1 a parent path fs = Some ((OK, Some (vl_inode e)), fs1)"
    using p e cache path by (simp add: fs_resolve_def op_counter_eq fs1_def as_dir_def)
  define sent where "sent = map (\<lambda>(x, _). (x, ?ino)) (filter (\<lambda>(x, es). ?l \<in> set es \<and> x \<noteq> b \<and> \<not> en_closed env2 x) (fs_apps fs1))"
  have d1: "distinct (map fst (fs_apps fs1))"
    using apps by (simp add: fs1_def appAddCache_def distinct_update)
  obtain fs2 where m: "fs_removemap cf env2 b parent path fs1 = Some (OK, fs2)" "fs_sent fs2 = fs_sent fs1 @ sent"
    "fs_apps fs2 = map (\<lambda>(x, es). (x, if ?l \<in> set es then removeAll ?l es else es)) (fs_apps fs1)"
    "fs_files fs2 parent = Some (p\<lparr>vf_body := DirBody (d\<lparr>d_children := child_erase path (d_children d)\<rparr>)\<rparr>)"
  proof -
    have "fs_files fs1 parent = Some p" using p(1) by (simp add: fs1_def)
    from removemap_present [OF this p(2,3) e, of cf env2 b] obtain fs0 where
      "fs_removemap cf env2 b parent path fs1 = Some (OK, tock cf env2 REMOVEMAP
        (set_children parent p d (child_erase path (d_children d)) (appRemoveCache env2 b e fs0)))"
      "fs_apps fs0 = fs_apps fs1" "fs_sent fs0 = fs_sent fs1"
      using cache path(1) by auto
    then show thesis using that by (simp add: appRemoveCache_def remove_cached_eq sent_def)
  qed
  have "vf_isDir (p\<lparr>vf_body := DirBody (d\<lparr>d_children := child_erase path (d_children d)\<rparr>)\<rparr>)" using p(2) by (simp add: vf_isDir_def)
  then have "\<exists>fs3. fs_resolve cf env3 a parent path fs2 = Some ((NOT_FOUND, None), fs3)"
    using m(4) path by (simp add: fs_resolve_def op_counter_eq as_dir_def child_find_def child_erase_def delete_conv')
  moreover have "(x, ino) \<in> set sent \<longleftrightarrow> x \<noteq> b \<and> \<not> en_closed env2 x \<and> ino = ?ino \<and> ?l \<in> set (app_entries x (fs_apps fs1))" for x ino
    using d1 by (auto simp: sent_def app_entries_def intro: rev_image_eqI split: option.splits
        dest: map_of_SomeD map_of_is_SomeI [OF d1])
  then have "\<forall>x ino. (x, ino) \<in> set sent \<longleftrightarrow> x \<noteq> b \<and> \<not> en_closed env2 x \<and> ino = ?ino \<and> (x = a \<or> ?l \<in> set (app_entries x (fs_apps fs)))"
    by (auto simp: fs1_def)
  moreover have "distinct (map fst sent)"
    using d1 by (simp add: sent_def comp_def case_prod_beta) (metis distinct_map_filter)
  moreover have "\<forall>x. ?l \<notin> set (app_entries x (fs_apps fs2))" by (simp add: m(3) app_entries_removed)
  ultimately show ?thesis using r m(1,2) by (auto simp: fs1_def)
qed

lemma cf_cache_ex: "cf_directory_cache conf_ex" by (simp add: conf_ex_def)

theorem name_cache_coherent_witness:
  "\<exists>fs fs1 fs2 sent. fs_resolve conf_ex (env_ex 1) 60 0 ''x'' fs = Some ((OK, Some \<lparr>ino_server = 1, ino_id = 9, ino_type = TYPE_FILE\<rparr>), fs1)
     \<and> fs_removemap conf_ex (env_ex 2) 70 0 ''x'' fs1 = Some (OK, fs2) \<and> fs_sent fs2 = fs_sent fs @ sent
     \<and> (60, \<lparr>ino_server = 1, ino_id = 9\<rparr>) \<in> set sent"
proof -
  let ?ino = "\<lparr>ino_server = 1, ino_id = 9, ino_type = TYPE_FILE\<rparr>"
  let ?ch = "addChild 5 ''x'' ?ino (addChild 1 ''..'' \<lparr>ino_server = 0, ino_id = 0, ino_type = TYPE_DIR\<rparr> [])"
  have "\<exists>fs0 fs p. boot_ex = Some fs0 \<and> fs_calls conf_ex [(env_ex 5, Call_addmap 50 root_ex ''x'' ?ino False)] fs0 = Some fs
      \<and> fs_files fs 0 = Some p \<and> vf_isDir p \<and> vf_body p = DirBody \<lparr>d_vdir = True, d_locked = False, d_children = ?ch\<rparr>
      \<and> distinct (map fst (fs_apps fs))"
    by (simp add: ex_defs FilesystemServer_new_def BufferCache_new_def region_blocks.simps object_defs c_int_def
        method_defs ORPHANS_INO_def Let_def appAddCache_def app_entries_def)
  then obtain fs :: FS and p where p: "fs_files fs 0 = Some p" "vf_isDir p"
    "vf_body p = DirBody \<lparr>d_vdir = True, d_locked = False, d_children = ?ch\<rparr>" "distinct (map fst (fs_apps fs))" by blast
  have "child_find ''x'' (d_children \<lparr>d_vdir = True, d_locked = False, d_children = ?ch\<rparr>) = Some \<lparr>vl_addr = 5, vl_inode = ?ino\<rparr>"
    by (simp add: child_find_def addChild_def)
  from name_cache_coherent [OF p(1-3) this _ _ _ p(4), of conf_ex "env_ex 1" 60 "env_ex 2" 70 "env_ex 3"]
  obtain fs1 fs2 sent where
    r: "fs_resolve conf_ex (env_ex 1) 60 0 ''x'' fs = Some ((OK, Some ?ino), fs1)"
       "fs_removemap conf_ex (env_ex 2) 70 0 ''x'' fs1 = Some (OK, fs2)" "fs_sent fs2 = fs_sent fs @ sent"
       "(60, \<lparr>ino_server = 1, ino_id = 9\<rparr>) \<in> set sent"
    by (auto simp: cf_cache_ex env_ex_def Inode.defs)
  then show ?thesis by (intro exI [of _ fs] exI [of _ fs1] exI [of _ fs2] exI [of _ sent]) simp
qed

section \<open>Creating\<close>

text \<open>Asking to create a name that exists answers \<^verbatim>\<open>EXIST\<close> with its inode, \<^verbatim>\<open>ISSYM\<close> for a symbolic link; the
  check meant to answer \<^verbatim>\<open>ISDIR\<close> for a directory never fires, whatever the flags.\<close>

theorem create_existing:
  assumes p: "fs_files fs (ino_id parent) = Some p" "vf_isDir p" "vf_body p = DirBody d" and path: "path \<noteq> []"
    and e: "child_find path (d_children d) = Some e"
  shows "\<exists>fs'. fs_create cf env parent path flags mode fs
       = Some ((if vl_isSymlink e then ISSYM else EXIST, Some (vl_inode e)), fs') \<and> fs_files fs' = fs_files fs"
proof -
  have "(if flags = 0 then 1 else 0) AND O_DIRECTORY = 0" by (simp add: O_DIRECTORY_def)
  then show ?thesis
    using assms by (simp add: fs_create_def op_counter_eq as_dir_def vl_isSymlink_def vl_isDir_def)
qed

theorem create_existing_witness:
  "\<exists>fs0 fs'. boot_ex = Some fs0 \<and> fs_create conf_ex (env_ex 3) root_ex ''..'' 0 0 fs0
     = Some ((EXIST, Some \<lparr>ino_server = 0, ino_id = 0, ino_type = TYPE_DIR\<rparr>), fs')"
proof -
  let ?d = "\<lparr>d_vdir = True, d_locked = False, d_children = addChild 1 ''..'' \<lparr>ino_server = 0, ino_id = 0, ino_type = TYPE_DIR\<rparr> []\<rparr>"
  have "\<exists>fs0 p. boot_ex = Some fs0 \<and> fs_files fs0 (ino_id root_ex) = Some p \<and> vf_isDir p \<and> vf_body p = DirBody ?d"
    by (simp add: ex_defs FilesystemServer_new_def BufferCache_new_def region_blocks.simps object_defs c_int_def ORPHANS_INO_def)
  then obtain fs0 p where p: "boot_ex = Some fs0" "fs_files fs0 (ino_id root_ex) = Some p" "vf_isDir p" "vf_body p = DirBody ?d"
    by blast
  have "child_find ''..'' (d_children ?d) = Some \<lparr>vl_addr = 1, vl_inode = \<lparr>ino_server = 0, ino_id = 0, ino_type = TYPE_DIR\<rparr>\<rparr>"
    by (simp add: child_find_def addChild_def)
  from create_existing [OF p(2-4) _ this, of conf_ex "env_ex 3" 0 0] p(1) show ?thesis
    by (auto simp: vl_isSymlink_def)
qed

lemma inode_number_disjoint:
  assumes "seq < 2 ^ 26" "server < 64"
  shows "inode_number server seq = server * 2 ^ 26 + seq"
proof (cases "server = 0")
  case False
  have "seq AND INODE_MASK = take_bit 26 seq" by (rule and_INODE_MASK)
  then have lo: "seq AND INODE_MASK = seq" using assms(1) by (simp add: take_bit_nat_eq_self)
  have "server * 2 ^ 26 < 2 ^ 32" using assms(2) by simp
  then have hi: "push_bit INODE_SHIFT server mod 2 ^ 32 = push_bit 26 server" by (simp add: INODE_SHIFT_def push_bit_eq_mult)
  have "seq AND push_bit 26 server = 0"
  proof (rule bit_eqI)
    fix n :: nat
    have "\<not> bit seq n" if "26 \<le> n"
    proof -
      have "bit (take_bit 26 seq) n = bit seq n" using assms(1) by (simp add: take_bit_nat_eq_self)
      then show ?thesis using that by (simp add: bit_take_bit_iff)
    qed
    then show "bit (seq AND push_bit 26 server) n = bit 0 n" by (auto simp: bit_and_iff bit_push_bit_iff)
  qed
  then have "seq OR push_bit 26 server = seq + push_bit 26 server" by (simp add: disjunctive_add_eq_or)
  then show ?thesis using False lo hi by (simp add: inode_number_def push_bit_eq_mult)
qed (simp add: inode_number_def)

lemma inode_number_wraps:
  assumes "server \<noteq> 0"
  shows "inode_number server (seq + 2 ^ 26) = inode_number server seq"
proof -
  have "take_bit 26 (seq + 2 ^ 26) = take_bit 26 seq" by (simp add: take_bit_eq_mod)
  then show ?thesis using assms by (simp add: inode_number_def and_INODE_MASK)
qed

end
