(* ===== verification/Fs_Marshall.thy ===== *)
theory Fs_Marshall
  imports Fs_Server_Inv
begin

text \<open>
  The message handlers of the file-system server (\<open>sys/fs/marshall.cpp\<close>) and the messages they
  exchange with the clients (\<open>sys/fs/include/interface.h\<close>).

  A message is the record of its \<^verbatim>\<open>struct\<close>; the open array at its end is the list of the characters
  that follow, in which the strings end with a zero.  Where one kind of message has two layouts, a
  handler that reads the fields of the other layout is undefined.  A field of a reply that the handler
  leaves as it found it is \<^term>\<open>None\<close>.  A handler runs on the server's state and returns the reply and the
  new state; each method it calls has surroundings of its own.
\<close>

unbundle bit_operations_syntax

section \<open>Strings in messages\<close>

text \<open>\<^verbatim>\<open>strcpy\<close> into a message, and the string that starts at a place of it.\<close>

definition c_string :: "string \<Rightarrow> string" where
  "c_string s = s @ [CHR 0x00]"

definition string_at :: "nat \<Rightarrow> string \<Rightarrow> string option" where
  "string_at i msg =
     (if CHR 0x00 \<in> set (drop i msg) then Some (takeWhile (\<lambda>c. c \<noteq> CHR 0x00) (drop i msg)) else None)"

definition c_ok :: "string \<Rightarrow> bool" where
  "c_ok s \<longleftrightarrow> CHR 0x00 \<notin> set s"

lemma string_at_c_string [simp]: "c_ok s \<Longrightarrow> string_at 0 (c_string s @ rest) = Some s"
  unfolding string_at_def c_string_def c_ok_def by (subst drop_0, subst append_assoc, subst takeWhile_append2) auto

lemma string_at_c_string_0 [simp]: "c_ok s \<Longrightarrow> string_at 0 (c_string s) = Some s"
  using string_at_c_string [of s "[]"] by simp

lemma string_at_next [simp]: "c_ok s \<Longrightarrow> string_at (length s + 1) (c_string s @ rest) = string_at 0 rest"
  by (simp add: string_at_def c_string_def)

section \<open>Messages\<close>

record ReadRequest =
  rq_fd :: nat
  rq_count :: nat

record ReadReply =
  rp_retval :: int
  rp_count :: nat
  rp_data :: "u8 list"

record WriteRequest =
  wq_fd :: nat
  wq_count :: nat
  wq_data :: "u8 list"

record WriteReply =
  wp_retval :: int
  wp_count :: nat

record LseekRequest =
  lq_fd :: nat
  lq_offset :: nat
  lq_whence :: int

record LseekReply =
  lp_retval :: int
  lp_offset :: nat

record CloseRequest =
  cl_fd :: nat
  cl_offset :: int
  cl_size :: nat

record AddMapRequest =
  am_parent :: Inode
  am_child :: InodeType
  am_overwrite :: bool
  am_update :: bool
  am_path :: string

record UpdateMapRequest =
  um_parent :: Inode
  um_child :: InodeType
  um_overwrite :: bool
  um_update :: bool
  um_old_parent :: InodeType
  um_path :: string

datatype AddMapMessage = AddMap AddMapRequest | UpdateMap UpdateMapRequest

record TruncRequest =
  tq_inode :: nat
  tq_len :: nat

record StatReply =
  st_retval :: int
  st_buf :: "FauxStat64 option"

record DirEntRequest =
  dq_inode :: nat
  dq_offset :: nat
  dq_size :: nat

record DirEntReply =
  dp_retval :: int
  dp_more :: bool
  dp_size :: nat
  dp_buf :: "FauxDirent list"

record ChmodRequest =
  mq_inode :: nat
  mq_mode :: u32

record RmdirRequest =
  rd_id :: nat
  rd_phase :: int

record RmdirAndMapRequest =
  rm_id :: nat
  rm_phase :: int
  rm_parent :: InodeType
  rm_path :: string

datatype RmdirMessage = Rmdir RmdirRequest | RmdirAndMap RmdirAndMapRequest

record ChownRequest =
  oq_inode :: nat
  oq_uid :: nat
  oq_gid :: nat

text \<open>The last fields of a \<^verbatim>\<open>ResolveReply\<close>, \<^verbatim>\<open>size\<close> and \<^verbatim>\<open>path\<close>, are never set and never read by a client.\<close>

record ResolveReply =
  re_child :: "InodeType option"
  re_retval :: int

record PipeReply =
  pp_retval :: int
  pp_read_fd :: nat
  pp_write_fd :: nat
  pp_inode :: Inode

record CreateRequest =
  cr_parent :: InodeType
  cr_flags :: u32
  cr_mode :: u32
  cr_path :: string

record OpenRequest =
  op_flags :: u32
  op_id :: nat

record CreateOpenRequest =
  co_flags :: u32
  co_parent :: Inode
  co_mode :: u32
  co_path :: string

datatype OpenMessage = Open OpenRequest | CreateOpen CreateOpenRequest

record OpenReply =
  ow_retval :: int
  ow_fd :: "nat option"
  ow_type :: "FileType option"
  ow_size :: "nat option"
  ow_state :: "nat option"
  ow_exist :: "InodeType option"

record UnlinkRequest =
  uq_id :: nat
  uq_parent_id :: nat
  uq_path :: string

record DupReply =
  du_retval :: int
  du_inode :: "Inode option"
  du_type :: "FileType option"
  du_size :: "nat option"

record UTimeNSRequest =
  ut_inode :: nat
  ut_atime :: timespec
  ut_mtime :: timespec
  ut_flags :: u32

record SymlinkRequest =
  sy_parent_id :: nat
  sy_separator :: nat
  sy_paths :: string

record BlockListRequest =
  bl_inode :: nat
  bl_offset :: nat
  bl_count :: nat

record BlockListReply =
  br_retval :: int
  br_count :: nat
  br_blocks :: "nat list"

record FlushRequest =
  fq_fd :: nat
  fq_size :: nat
  fq_offset :: int

record IdPathRequest =
  ip_id :: nat
  ip_path :: string

record StatusInodeTypeReply =
  si_retval :: int
  si_inode :: "InodeType option"

record PathReply =
  pr_retval :: int
  pr_size :: "nat option"
  pr_path :: "string option"

section \<open>Handlers\<close>

type_synonym envs = "nat \<Rightarrow> FsEnv"

definition closeCallback :: "nat \<Rightarrow> FS \<Rightarrow> FS" where
  "closeCallback chan fs = appClose chan fs"

definition marshall_pipe :: "FsConf \<Rightarrow> envs \<Rightarrow> FS \<Rightarrow> (PipeReply \<times> FS) option" where
  "marshall_pipe cf envs fs = do {
     ((retval, read_fd, write_fd, inode), fs) \<leftarrow> fs_pipe cf (envs 0) fs;
     Some (\<lparr>pp_retval = retval, pp_read_fd = read_fd, pp_write_fd = write_fd, pp_inode = inode\<rparr>, fs)
   }"

text \<open>\<^verbatim>\<open>create\<close>: the reply is sent before a new directory gets its two names.\<close>

definition marshall_create :: "FsConf \<Rightarrow> envs \<Rightarrow> nat \<Rightarrow> CreateRequest \<Rightarrow> FS \<Rightarrow> (StatusInodeTypeReply \<times> FS) option" where
  "marshall_create cf envs chan req fs = do {
     path \<leftarrow> string_at 0 (cr_path req);
     let parent = cr_parent req;
     ((retval, exist), fs) \<leftarrow> fs_create cf (envs 0) (InodeOnly parent) path (cr_flags req) (cr_mode req) fs;
     let reply = \<lparr>si_retval = retval, si_inode = exist\<rparr>;
     if retval = OK \<and> cr_flags req AND O_DIRECTORY \<noteq> 0
     then if cf_max_fname_len cf \<le> length path then None
     else do {
       exist \<leftarrow> exist;
       dot_dot_server \<leftarrow> (if ino_type exist = TYPE_DIR_SHARED then fosPathOwner (cf_server_count cf) exist ''..''
                          else Some (ino_server exist));
       (exist, fs) \<leftarrow>
         (if ino_server parent = ino_server exist \<or> ino_type parent = TYPE_DIR_SHARED
          then do {
            ((retval, exist), fs) \<leftarrow> fs_addmap cf (envs 1) chan (InodeOnly parent) path exist False fs;
            if retval = OK then Some (exist, fs) else None
          }
          else Some (exist, fs));
       fs \<leftarrow>
         (if dot_dot_server = int (fs_id fs)
          then do {
            ((retval, _), fs) \<leftarrow> fs_addmap cf (envs 2) chan (InodeOnly exist) ''..'' parent False fs;
            if retval = OK then Some fs else None
          }
          else Some fs);
       Some (reply, fs)
     }
     else Some (reply, fs)
   }"

definition marshall_destroy :: "FsConf \<Rightarrow> envs \<Rightarrow> nat \<Rightarrow> FS \<Rightarrow> (int \<times> FS) option" where
  "marshall_destroy cf envs i fs = fs_destroy cf (envs 0) i fs"

definition marshall_addmap :: "FsConf \<Rightarrow> envs \<Rightarrow> nat \<Rightarrow> AddMapMessage \<Rightarrow> FS \<Rightarrow> (StatusInodeTypeReply \<times> FS) option" where
  "marshall_addmap cf envs chan msg fs =
     (case msg of
        UpdateMap msg2 \<Rightarrow>
          if um_update msg2 then do {
            path \<leftarrow> string_at 0 (um_path msg2);
            ((retval, exist), fs) \<leftarrow>
              fs_addmap cf (envs 0) chan (um_parent msg2) path (um_child msg2) (um_overwrite msg2) fs;
            if retval \<noteq> OK \<and> retval \<noteq> EXIST then None
            else do {
              old_path \<leftarrow> string_at (length path + 1) (um_path msg2);
              (remove_retval, fs) \<leftarrow> fs_removemap cf (envs 1) chan (ino_id (um_old_parent msg2)) old_path fs;
              if remove_retval \<noteq> OK then None
              else Some (\<lparr>si_retval = retval, si_inode = Some exist\<rparr>, fs)
            }
          }
          else None
      | AddMap msg \<Rightarrow>
          if am_update msg then None
          else do {
            path \<leftarrow> string_at 0 (am_path msg);
            ((retval, exist), fs) \<leftarrow> fs_addmap cf (envs 0) chan (am_parent msg) path (am_child msg) (am_overwrite msg) fs;
            if retval \<noteq> OK \<and> retval \<noteq> EXIST then None
            else Some (\<lparr>si_retval = retval, si_inode = Some exist\<rparr>, fs)
          })"

definition marshall_removemap :: "FsConf \<Rightarrow> envs \<Rightarrow> nat \<Rightarrow> IdPathRequest \<Rightarrow> FS \<Rightarrow> (int \<times> FS) option" where
  "marshall_removemap cf envs chan msg fs = do {
     path \<leftarrow> string_at 0 (ip_path msg);
     fs_removemap cf (envs 0) chan (ip_id msg) path fs
   }"

definition open_reply :: "int \<Rightarrow> OpenResult option \<Rightarrow> InodeType option \<Rightarrow> OpenReply" where
  "open_reply retval res exist =
     \<lparr>ow_retval = retval, ow_fd = Option.bind res or_fd, ow_type = Option.bind res or_type,
      ow_size = Option.bind res or_size, ow_state = map_option or_state res, ow_exist = exist\<rparr>"

text \<open>\<^verbatim>\<open>open\<close>: with \<^verbatim>\<open>O_CREAT\<close> it creates the inode, adds its name and opens it, when it lives here.\<close>

definition marshall_open :: "FsConf \<Rightarrow> envs \<Rightarrow> nat \<Rightarrow> OpenMessage \<Rightarrow> FS \<Rightarrow> (OpenReply \<times> FS) option" where
  "marshall_open cf envs chan msg fs =
     (case msg of
        CreateOpen req \<Rightarrow>
          if co_flags req AND O_CREAT \<noteq> 0 then do {
            path \<leftarrow> string_at 0 (co_path req);
            ((retval, exist), fs) \<leftarrow> fs_create cf (envs 0) (co_parent req) path (co_flags req) (co_mode req) fs;
            let excl = (co_flags req AND O_EXCL \<noteq> 0);
            if (retval = EXIST \<and> \<not> excl) \<or> retval = OK then do {
              exist \<leftarrow> exist;
              (retval, exist, fs) \<leftarrow>
                (if retval \<noteq> EXIST then do {
                   ((retval, exist), fs) \<leftarrow> fs_addmap cf (envs 1) chan (co_parent req) path exist False fs;
                   Some (retval, exist, fs)
                 }
                 else do {
                   fs \<leftarrow> appAddCache_path chan (co_parent req) path fs;
                   Some (OK, exist, fs)
                 });
              if retval \<noteq> OK then None
              else if ino_server exist = int (fs_id fs) then do {
                ((retval, res), fs) \<leftarrow> fs_open cf (envs 2) (ino_id exist) (co_flags req AND NOT O_CREAT) fs;
                Some (open_reply retval (Some res) (Some exist), fs)
              }
              else Some (open_reply EXIST None (Some exist), fs)
            }
            else Some (open_reply retval None exist, fs)
          }
          else None
      | Open req \<Rightarrow>
          if op_flags req AND O_CREAT \<noteq> 0 then None
          else do {
            ((retval, res), fs) \<leftarrow> fs_open cf (envs 0) (op_id req) (op_flags req) fs;
            Some (open_reply retval (Some res) None, fs)
          })"

definition marshall_read :: "FsConf \<Rightarrow> envs \<Rightarrow> ReadRequest \<Rightarrow> FS \<Rightarrow> (ReadReply \<times> FS) option" where
  "marshall_read cf envs msg fs = do {
     ((retval, data, cnt), fs) \<leftarrow> fs_read cf (envs 0) (rq_fd msg) (rq_count msg) fs;
     Some (\<lparr>rp_retval = retval, rp_count = cnt, rp_data = data\<rparr>, fs)
   }"

text \<open>\<^verbatim>\<open>write\<close> takes as many bytes as the request says, which have to be in the message.\<close>

definition marshall_write :: "FsConf \<Rightarrow> envs \<Rightarrow> WriteRequest \<Rightarrow> FS \<Rightarrow> (WriteReply \<times> FS) option" where
  "marshall_write cf envs msg fs =
     (if length (wq_data msg) < wq_count msg then None
      else do {
        ((retval, cnt), fs) \<leftarrow> fs_write cf (envs 0) (wq_fd msg) (take (wq_count msg) (wq_data msg)) fs;
        Some (\<lparr>wp_retval = retval, wp_count = cnt\<rparr>, fs)
      })"

definition marshall_lseek :: "FsConf \<Rightarrow> envs \<Rightarrow> LseekRequest \<Rightarrow> FS \<Rightarrow> (LseekReply \<times> FS) option" where
  "marshall_lseek cf envs msg fs = do {
     ((retval, offset), fs) \<leftarrow> fs_lseek cf (envs 0) (lq_fd msg) (lq_offset msg) (lq_whence msg) fs;
     Some (\<lparr>lp_retval = retval, lp_offset = offset\<rparr>, fs)
   }"

definition marshall_dup :: "FsConf \<Rightarrow> envs \<Rightarrow> nat \<Rightarrow> FS \<Rightarrow> (DupReply \<times> FS) option" where
  "marshall_dup cf envs fd fs = do {
     ((retval, res), fs) \<leftarrow> fs_dup cf (envs 0) fd fs;
     Some (\<lparr>du_retval = retval, du_inode = map_option fst res, du_type = map_option (fst \<circ> snd) res,
            du_size = map_option (snd \<circ> snd) res\<rparr>, fs)
   }"

definition marshall_close :: "FsConf \<Rightarrow> envs \<Rightarrow> CloseRequest \<Rightarrow> FS \<Rightarrow> (int \<times> FS) option" where
  "marshall_close cf envs msg fs = fs_close cf (envs 0) (cl_fd msg) (cl_offset msg) (cl_size msg) fs"

definition marshall_fstat :: "FsConf \<Rightarrow> envs \<Rightarrow> nat \<Rightarrow> FS \<Rightarrow> (StatReply \<times> FS) option" where
  "marshall_fstat cf envs i fs = do {
     ((retval, buf), fs) \<leftarrow> fs_fstatat cf (envs 0) i fs;
     Some (\<lparr>st_retval = retval, st_buf = buf\<rparr>, fs)
   }"

text \<open>The method takes the offset as an \<^verbatim>\<open>int\<close>.\<close>

definition marshall_direntry :: "FsConf \<Rightarrow> envs \<Rightarrow> nat \<Rightarrow> DirEntRequest \<Rightarrow> FS \<Rightarrow> (DirEntReply \<times> FS) option" where
  "marshall_direntry cf envs chan msg fs = do {
     ((retval, buf, n, more), fs) \<leftarrow>
       fs_direntry cf (envs 0) chan (dq_inode msg) (c_int (int (dq_offset msg))) (dq_size msg) fs;
     Some (\<lparr>dp_retval = retval, dp_more = more, dp_size = n, dp_buf = buf\<rparr>, fs)
   }"

definition marshall_unlink :: "FsConf \<Rightarrow> envs \<Rightarrow> nat \<Rightarrow> UnlinkRequest \<Rightarrow> FS \<Rightarrow> (int \<times> FS) option" where
  "marshall_unlink cf envs chan msg fs = do {
     (retval, fs) \<leftarrow>
       (if uq_parent_id msg \<noteq> SIZE_MAX
        then do {
          path \<leftarrow> string_at 0 (uq_path msg);
          fs_removemap cf (envs 0) chan (uq_parent_id msg) path fs
        }
        else Some (OK, fs));
     if retval = OK then fs_unlink cf (envs 1) (uq_id msg) fs else Some (retval, fs)
   }"

definition marshall_rmdir :: "FsConf \<Rightarrow> envs \<Rightarrow> nat \<Rightarrow> RmdirMessage \<Rightarrow> FS \<Rightarrow> (int \<times> FS) option" where
  "marshall_rmdir cf envs chan msg fs = do {
     let (i, phase) = (case msg of Rmdir m \<Rightarrow> (rd_id m, rd_phase m) | RmdirAndMap m \<Rightarrow> (rm_id m, rm_phase m));
     (retval, fs) \<leftarrow> fs_rmdir cf (envs 0) i (if phase = RMDIR_AND_MAP then RMDIR_FORCE else phase) fs;
     if retval = OK \<and> phase = RMDIR_AND_MAP
     then (case msg of
         RmdirAndMap msg2 \<Rightarrow> do {
           path \<leftarrow> string_at 0 (rm_path msg2);
           fs_removemap cf (envs 1) chan (ino_id (rm_parent msg2)) path fs
         }
       | Rmdir _ \<Rightarrow> None)
     else Some (retval, fs)
   }"

definition marshall_readlink :: "FsConf \<Rightarrow> envs \<Rightarrow> nat \<Rightarrow> FS \<Rightarrow> (PathReply \<times> FS) option" where
  "marshall_readlink cf envs i fs = do {
     ((retval, res), fs) \<leftarrow> fs_readlink cf (envs 0) i fs;
     Some (\<lparr>pr_retval = retval, pr_size = map_option snd res, pr_path = map_option fst res\<rparr>, fs)
   }"

definition marshall_truncate :: "FsConf \<Rightarrow> envs \<Rightarrow> TruncRequest \<Rightarrow> FS \<Rightarrow> (int \<times> FS) option" where
  "marshall_truncate cf envs msg fs = fs_truncate cf (envs 0) (tq_inode msg) (tq_len msg) fs"

definition marshall_chmod :: "FsConf \<Rightarrow> envs \<Rightarrow> ChmodRequest \<Rightarrow> FS \<Rightarrow> (int \<times> FS) option" where
  "marshall_chmod cf envs msg fs = fs_chmod cf (envs 0) (mq_inode msg) (mq_mode msg) fs"

definition marshall_chown :: "FsConf \<Rightarrow> envs \<Rightarrow> ChownRequest \<Rightarrow> FS \<Rightarrow> (int \<times> FS) option" where
  "marshall_chown cf envs msg fs = fs_chown cf (envs 0) (oq_inode msg) (oq_uid msg) (oq_gid msg) fs"

definition marshall_resolve :: "FsConf \<Rightarrow> envs \<Rightarrow> nat \<Rightarrow> IdPathRequest \<Rightarrow> FS \<Rightarrow> (ResolveReply \<times> FS) option" where
  "marshall_resolve cf envs chan msg fs = do {
     path \<leftarrow> string_at 0 (ip_path msg);
     ((retval, child), fs) \<leftarrow> fs_resolve cf (envs 0) chan (ip_id msg) path fs;
     Some (\<lparr>re_child = child, re_retval = retval\<rparr>, fs)
   }"

definition marshall_utimens :: "FsConf \<Rightarrow> envs \<Rightarrow> UTimeNSRequest \<Rightarrow> FS \<Rightarrow> (int \<times> FS) option" where
  "marshall_utimens cf envs msg fs = fs_utimens cf (envs 0) (ut_inode msg) (ut_atime msg) (ut_mtime msg) (ut_flags msg) fs"

definition marshall_symlink :: "FsConf \<Rightarrow> envs \<Rightarrow> SymlinkRequest \<Rightarrow> FS \<Rightarrow> (int \<times> FS) option" where
  "marshall_symlink cf envs msg fs = do {
     src \<leftarrow> string_at 0 (sy_paths msg);
     dest \<leftarrow> string_at (sy_separator msg) (sy_paths msg);
     fs_symlink cf (envs 0) (sy_parent_id msg) src dest fs
   }"

definition marshall_blocks :: "FsConf \<Rightarrow> envs \<Rightarrow> BlockListRequest \<Rightarrow> FS \<Rightarrow> (BlockListReply \<times> FS) option" where
  "marshall_blocks cf envs msg fs = do {
     ((retval, blocks), fs) \<leftarrow> fs_blocks cf (envs 0) (bl_inode msg) (bl_offset msg) (bl_count msg) fs;
     Some (\<lparr>br_retval = retval, br_count = bl_count msg, br_blocks = blocks\<rparr>, fs)
   }"

definition marshall_flush :: "FsConf \<Rightarrow> envs \<Rightarrow> FlushRequest \<Rightarrow> FS \<Rightarrow> (int \<times> FS) option" where
  "marshall_flush cf envs msg fs = fs_flush cf (envs 0) (fq_fd msg) (fq_size msg) (fq_offset msg) fs"

end
