(* ===== verification/Fs_Dispatch.thy ===== *)
theory Fs_Dispatch
  imports Fs_Server_Props Fs_Marshall
begin

text \<open>
  The requests of a file-system server and the handlers registered for them (\<open>sys/fs/server.cpp\<close>), the runs of a
  server that serves the requests of all its clients, and the types of its objects in these runs.
\<close>

section \<open>Requests and replies\<close>

text \<open>A request by its message type, with the structure its handler reads, and the structure of the answer.\<close>

datatype FsRequest =
    Req_CREATE CreateRequest
  | Req_DESTROY nat
  | Req_ADDMAP AddMapMessage
  | Req_REMOVEMAP IdPathRequest
  | Req_PIPE
  | Req_OPEN OpenMessage
  | Req_READ ReadRequest
  | Req_WRITE WriteRequest
  | Req_LSEEK LseekRequest
  | Req_CLOSE CloseRequest
  | Req_DUP nat
  | Req_FSTAT nat
  | Req_UNLINK UnlinkRequest
  | Req_DIRENT DirEntRequest
  | Req_READLINK nat
  | Req_RMDIR RmdirMessage
  | Req_TRUNC TruncRequest
  | Req_CHMOD ChmodRequest
  | Req_CHOWN ChownRequest
  | Req_RESOLVE IdPathRequest
  | Req_UTIMENS UTimeNSRequest
  | Req_SYMLINK SymlinkRequest
  | Req_BLOCKS BlockListRequest
  | Req_FLUSH FlushRequest

datatype FsAnswer =
    Ans_status int
  | Ans_inode StatusInodeTypeReply
  | Ans_pipe PipeReply
  | Ans_open OpenReply
  | Ans_read ReadReply
  | Ans_write WriteReply
  | Ans_lseek LseekReply
  | Ans_dup DupReply
  | Ans_stat StatReply
  | Ans_dirent DirEntReply
  | Ans_path PathReply
  | Ans_resolve ResolveReply
  | Ans_blocks BlockListReply

text \<open>The handler that \<^verbatim>\<open>dispatchRegister\<close> was called with for the type of the request.\<close>

fun fs_serve :: "FsConf \<Rightarrow> envs \<Rightarrow> nat \<Rightarrow> FsRequest \<Rightarrow> FS \<Rightarrow> (FsAnswer \<times> FS) option" where
  "fs_serve cf envs chan (Req_CREATE msg) fs = map_option (apfst Ans_inode) (marshall_create cf envs chan msg fs)"
| "fs_serve cf envs chan (Req_DESTROY i) fs = map_option (apfst Ans_status) (marshall_destroy cf envs i fs)"
| "fs_serve cf envs chan (Req_ADDMAP msg) fs = map_option (apfst Ans_inode) (marshall_addmap cf envs chan msg fs)"
| "fs_serve cf envs chan (Req_REMOVEMAP msg) fs = map_option (apfst Ans_status) (marshall_removemap cf envs chan msg fs)"
| "fs_serve cf envs chan Req_PIPE fs = map_option (apfst Ans_pipe) (marshall_pipe cf envs fs)"
| "fs_serve cf envs chan (Req_OPEN msg) fs = map_option (apfst Ans_open) (marshall_open cf envs chan msg fs)"
| "fs_serve cf envs chan (Req_READ msg) fs = map_option (apfst Ans_read) (marshall_read cf envs msg fs)"
| "fs_serve cf envs chan (Req_WRITE msg) fs = map_option (apfst Ans_write) (marshall_write cf envs msg fs)"
| "fs_serve cf envs chan (Req_LSEEK msg) fs = map_option (apfst Ans_lseek) (marshall_lseek cf envs msg fs)"
| "fs_serve cf envs chan (Req_CLOSE msg) fs = map_option (apfst Ans_status) (marshall_close cf envs msg fs)"
| "fs_serve cf envs chan (Req_DUP fd) fs = map_option (apfst Ans_dup) (marshall_dup cf envs fd fs)"
| "fs_serve cf envs chan (Req_FSTAT i) fs = map_option (apfst Ans_stat) (marshall_fstat cf envs i fs)"
| "fs_serve cf envs chan (Req_UNLINK msg) fs = map_option (apfst Ans_status) (marshall_unlink cf envs chan msg fs)"
| "fs_serve cf envs chan (Req_DIRENT msg) fs = map_option (apfst Ans_dirent) (marshall_direntry cf envs chan msg fs)"
| "fs_serve cf envs chan (Req_READLINK i) fs = map_option (apfst Ans_path) (marshall_readlink cf envs i fs)"
| "fs_serve cf envs chan (Req_RMDIR msg) fs = map_option (apfst Ans_status) (marshall_rmdir cf envs chan msg fs)"
| "fs_serve cf envs chan (Req_TRUNC msg) fs = map_option (apfst Ans_status) (marshall_truncate cf envs msg fs)"
| "fs_serve cf envs chan (Req_CHMOD msg) fs = map_option (apfst Ans_status) (marshall_chmod cf envs msg fs)"
| "fs_serve cf envs chan (Req_CHOWN msg) fs = map_option (apfst Ans_status) (marshall_chown cf envs msg fs)"
| "fs_serve cf envs chan (Req_RESOLVE msg) fs = map_option (apfst Ans_resolve) (marshall_resolve cf envs chan msg fs)"
| "fs_serve cf envs chan (Req_UTIMENS msg) fs = map_option (apfst Ans_status) (marshall_utimens cf envs msg fs)"
| "fs_serve cf envs chan (Req_SYMLINK msg) fs = map_option (apfst Ans_status) (marshall_symlink cf envs msg fs)"
| "fs_serve cf envs chan (Req_BLOCKS msg) fs = map_option (apfst Ans_blocks) (marshall_blocks cf envs msg fs)"
| "fs_serve cf envs chan (Req_FLUSH msg) fs = map_option (apfst Ans_status) (marshall_flush cf envs msg fs)"

section \<open>Every handler keeps the invariant\<close>

text \<open>The handlers are sequences of calls: conditions on their result are computed call by call.\<close>

named_theorems keeps \<open>rules for the result of a sequence of calls\<close>

lemma keeps_call:
  assumes "\<And>r fs'. m = Some (r, fs') \<Longrightarrow> fs_inv B M fs'" "\<And>r fs'. fs_inv B M fs' \<Longrightarrow> Q (r, fs')"
  shows "pred_option Q m"
  using assms by (cases m) auto

lemma keeps_bind [keeps]: "pred_option (\<lambda>y. pred_option Q (f y)) m \<Longrightarrow> pred_option Q (Option.bind m f)"
  by (cases m) auto

lemma keeps_if [keeps]:
  "(b \<Longrightarrow> pred_option Q m) \<Longrightarrow> (\<not> b \<Longrightarrow> pred_option Q n) \<Longrightarrow> pred_option Q (if b then m else n)"
  by simp

lemma keeps_prod [keeps]: "(\<And>a b. p = (a, b) \<Longrightarrow> pred_option Q (f a b)) \<Longrightarrow> pred_option Q (case p of (a, b) \<Rightarrow> f a b)"
  by (cases p) simp

lemma keeps_prod_arg [keeps]:
  "(\<And>a b. p = (a, b) \<Longrightarrow> pred_option Q (f a b x)) \<Longrightarrow> pred_option Q ((case p of (a, b) \<Rightarrow> f a b) x)"
  by (cases p) simp

lemma keeps_pair: "pred_option Q (f a b) \<Longrightarrow> pred_option Q (case (a, b) of (a, b) \<Rightarrow> f a b)"
  by simp

lemma keeps_Some [keeps]: "Q y \<Longrightarrow> pred_option Q (Some y)"
  by simp

lemma keeps_None [keeps]: "pred_option Q None"
  by simp

lemma keeps_any: "(\<And>y. Q y) \<Longrightarrow> pred_option Q m"
  by (cases m) auto

lemma keeps_map [keeps]: "pred_option (\<lambda>y. Q (f y)) m \<Longrightarrow> pred_option Q (map_option f m)"
  by (cases m) auto

lemma keeps_appAddCache_path [keeps]:
  assumes "fs_inv B M fs" "\<And>fs'. fs_inv B M fs' \<Longrightarrow> Q fs'"
  shows "pred_option Q (appAddCache_path chan parent path fs)"
proof (cases "appAddCache_path chan parent path fs")
  case (Some fs')
  then have "fs_inv B M fs'" using assms(1) by (auto simp: appAddCache_path_def split: bind_splits if_splits)
  then show ?thesis using assms(2) Some by simp
qed simp

lemma keeps_OpenMessage [keeps]:
  "(\<And>m. pred_option Q (f m)) \<Longrightarrow> (\<And>m. pred_option Q (g m)) \<Longrightarrow> pred_option Q (case msg of Open m \<Rightarrow> f m | CreateOpen m \<Rightarrow> g m)"
  by (cases msg) simp_all

lemma keeps_AddMapMessage [keeps]:
  "(\<And>m. pred_option Q (f m)) \<Longrightarrow> (\<And>m. pred_option Q (g m)) \<Longrightarrow> pred_option Q (case msg of AddMap m \<Rightarrow> f m | UpdateMap m \<Rightarrow> g m)"
  by (cases msg) simp_all

lemma keeps_RmdirMessage [keeps]:
  "(\<And>m. pred_option Q (f m)) \<Longrightarrow> (\<And>m. pred_option Q (g m)) \<Longrightarrow> pred_option Q (case msg of Rmdir m \<Rightarrow> f m | RmdirAndMap m \<Rightarrow> g m)"
  by (cases msg) simp_all

lemmas marshall_defs = marshall_create_def marshall_destroy_def marshall_addmap_def marshall_removemap_def marshall_pipe_def
  marshall_open_def marshall_read_def marshall_write_def marshall_lseek_def marshall_close_def marshall_dup_def
  marshall_fstat_def marshall_unlink_def marshall_direntry_def marshall_readlink_def marshall_rmdir_def
  marshall_truncate_def marshall_chmod_def marshall_chown_def marshall_resolve_def marshall_utimens_def
  marshall_symlink_def marshall_blocks_def marshall_flush_def

lemma handlers_keep:
  assumes "fs_inv B M fs"
  shows
    "pred_option (\<lambda>(r, fs'). fs_inv B M fs') (marshall_create cf envs chan m1 fs)"
    "pred_option (\<lambda>(r, fs'). fs_inv B M fs') (marshall_destroy cf envs i fs)"
    "pred_option (\<lambda>(r, fs'). fs_inv B M fs') (marshall_addmap cf envs chan m3 fs)"
    "pred_option (\<lambda>(r, fs'). fs_inv B M fs') (marshall_removemap cf envs chan m4 fs)"
    "pred_option (\<lambda>(r, fs'). fs_inv B M fs') (marshall_pipe cf envs fs)"
    "pred_option (\<lambda>(r, fs'). fs_inv B M fs') (marshall_open cf envs chan m6 fs)"
    "pred_option (\<lambda>(r, fs'). fs_inv B M fs') (marshall_read cf envs m7 fs)"
    "pred_option (\<lambda>(r, fs'). fs_inv B M fs') (marshall_write cf envs m8 fs)"
    "pred_option (\<lambda>(r, fs'). fs_inv B M fs') (marshall_lseek cf envs m9 fs)"
    "pred_option (\<lambda>(r, fs'). fs_inv B M fs') (marshall_close cf envs m10 fs)"
    "pred_option (\<lambda>(r, fs'). fs_inv B M fs') (marshall_dup cf envs fd fs)"
    "pred_option (\<lambda>(r, fs'). fs_inv B M fs') (marshall_fstat cf envs i fs)"
    "pred_option (\<lambda>(r, fs'). fs_inv B M fs') (marshall_unlink cf envs chan m13 fs)"
    "pred_option (\<lambda>(r, fs'). fs_inv B M fs') (marshall_direntry cf envs chan m14 fs)"
    "pred_option (\<lambda>(r, fs'). fs_inv B M fs') (marshall_readlink cf envs i fs)"
    "pred_option (\<lambda>(r, fs'). fs_inv B M fs') (marshall_rmdir cf envs chan m16 fs)"
    "pred_option (\<lambda>(r, fs'). fs_inv B M fs') (marshall_truncate cf envs m17 fs)"
    "pred_option (\<lambda>(r, fs'). fs_inv B M fs') (marshall_chmod cf envs m18 fs)"
    "pred_option (\<lambda>(r, fs'). fs_inv B M fs') (marshall_chown cf envs m19 fs)"
    "pred_option (\<lambda>(r, fs'). fs_inv B M fs') (marshall_resolve cf envs chan m20 fs)"
    "pred_option (\<lambda>(r, fs'). fs_inv B M fs') (marshall_utimens cf envs m21 fs)"
    "pred_option (\<lambda>(r, fs'). fs_inv B M fs') (marshall_symlink cf envs m22 fs)"
    "pred_option (\<lambda>(r, fs'). fs_inv B M fs') (marshall_blocks cf envs m23 fs)"
    "pred_option (\<lambda>(r, fs'). fs_inv B M fs') (marshall_flush cf envs m24 fs)"
  unfolding marshall_defs Let_def using assms
  apply -
  apply (rule keeps_pair | rule keeps | (rule keeps_call, rule call_inv, assumption, assumption) | rule keeps_any | simp only: prod.case)+
  done

lemma fs_serve_inv: "fs_inv B M fs \<Longrightarrow> fs_serve cf envs chan msg fs = Some (r, fs') \<Longrightarrow> fs_inv B M fs'"
  by (cases msg) (fastforce dest: handlers_keep simp: pred_option_def)+

section \<open>Runs of a server\<close>

text \<open>The states of the server \<open>sid\<close>: after its start, after a request from any client, when a client goes, when its
  notifications are taken, and when clients write to the memory that they share with it.\<close>

inductive fs_reachable :: "FsConf \<Rightarrow> nat \<Rightarrow> FS \<Rightarrow> bool" for cf sid where
  start: "FilesystemServer_new cf env sid oc cy m = Some fs \<Longrightarrow> fs_reachable cf sid fs"
| request: "fs_reachable cf sid fs \<Longrightarrow> fs_serve cf envs chan msg fs = Some (r, fs') \<Longrightarrow> fs_reachable cf sid fs'"
| leave: "fs_reachable cf sid fs \<Longrightarrow> fs_reachable cf sid (closeCallback chan fs)"
| notified: "fs_reachable cf sid fs \<Longrightarrow> fs_reachable cf sid (fs\<lparr>fs_sent := sent\<rparr>)"
| shared: "fs_reachable cf sid fs \<Longrightarrow> fs_reachable cf sid (fs\<lparr>fs_memory := m\<rparr>)"

lemma fs_reachable_inv:
  assumes "0 < cf_block_size cf" "cf_block_size cf dvd cf_memory_size cf div cf_server_count cf"
    and "cf_memory_size cf < 2 ^ 31" "sid < cf_server_count cf"
    and "fs_reachable cf sid fs"
  shows "fs_inv (cf_block_size cf) (cf_memory_size cf) fs"
  using assms(5)
proof (induction rule: fs_reachable.induct)
  case (start env oc cy m fs)
  then show ?case by (rule FilesystemServer_new_inv [OF assms(1-4)])
next
  case (request fs envs chan msg r fs')
  then show ?case using fs_serve_inv by blast
qed (simp_all add: closeCallback_def appClose_def)

lemma body_ok_types:
  assumes "body_ok vf"
  shows "vf_type vf = TYPE_FILE \<longleftrightarrow> (\<exists>f. as_file vf = Some f)" "vf_isDir vf \<longleftrightarrow> (\<exists>d. as_dir vf = Some d)"
    "vf_type vf = TYPE_PIPE \<longleftrightarrow> (\<exists>p. as_pipe vf = Some p)" "vf_type vf = TYPE_SYMLINK \<longleftrightarrow> (\<exists>s. vf_body vf = SymlinkBody s)"
  using assms by (cases "vf_body vf"; auto simp: body_ok_def vf_isDir_def)+

text \<open>C20. The objects of a server are always of the type they claim.  Whatever requests it gets from its clients, well formed or
  not, and whatever they write to the shared memory in between, in every state that the server reaches the object it keeps under
  a number has that number, and is a file, a directory, a pipe or a link exactly as its type says; so the casts of the
  handlers, which are guarded by the type only, always find an object of the class they cast to.\<close>

theorem server_well_typed:
  assumes "0 < cf_block_size cf" "cf_block_size cf dvd cf_memory_size cf div cf_server_count cf"
    and "cf_memory_size cf < 2 ^ 31" "sid < cf_server_count cf"
    and "fs_reachable cf sid fs"
  shows "(fs_files fs i = Some vf \<longrightarrow> vf_id vf = i
       \<and> (vf_type vf = TYPE_FILE \<longleftrightarrow> (\<exists>f. as_file vf = Some f))
       \<and> (vf_isDir vf \<longleftrightarrow> (\<exists>d. as_dir vf = Some d))
       \<and> (vf_type vf = TYPE_PIPE \<longleftrightarrow> (\<exists>p. as_pipe vf = Some p))
       \<and> (vf_type vf = TYPE_SYMLINK \<longleftrightarrow> (\<exists>s. vf_body vf = SymlinkBody s)))
     \<and> (fs_pipes fs i = Some vf \<longrightarrow> vf_id vf = i \<and> (\<exists>p. as_pipe vf = Some p))
     \<and> (\<exists>v d. fs_files fs ORPHANS_INO = Some v \<and> as_dir v = Some d)"
proof -
  have inv: "fs_inv (cf_block_size cf) (cf_memory_size cf) fs" by (rule fs_reachable_inv [OF assms])
  then have "fs_files fs i = Some vf \<longrightarrow> vf_id vf = i \<and> body_ok vf"
    "fs_pipes fs i = Some vf \<longrightarrow> vf_id vf = i \<and> vf_type vf = TYPE_PIPE \<and> body_ok vf" "orphans_ok (fs_files fs)"
    by (simp_all add: server_inv_def object_ok_def)
  then show ?thesis using body_ok_types [of vf] by (auto simp: orphans_ok_def)
qed

theorem server_well_typed_witness:
  "\<exists>fs0 r fs vf. boot_ex = Some fs0
     \<and> fs_serve conf_ex (\<lambda>k. env_ex (5 + k)) 50
         (Req_CREATE \<lparr>cr_parent = \<lparr>ino_server = 0, ino_id = 0, ino_type = TYPE_DIR\<rparr>, cr_flags = 0, cr_mode = 420, cr_path = ''a'' @ [CHR 0x00]\<rparr>) fs0 = Some (r, fs)
     \<and> fs_files fs 2 = Some vf \<and> vf_id vf = 2 \<and> (\<exists>f. as_file vf = Some f)"
proof -
  let ?req = "Req_CREATE \<lparr>cr_parent = \<lparr>ino_server = 0, ino_id = 0, ino_type = TYPE_DIR\<rparr>, cr_flags = 0, cr_mode = 420, cr_path = ''a'' @ [CHR 0x00]\<rparr>"
  have "\<exists>fs0 r fs vf. boot_ex = Some fs0 \<and> fs_serve conf_ex (\<lambda>k. env_ex (5 + k)) 50 ?req fs0 = Some (r, fs)
     \<and> fs_files fs 2 = Some vf \<and> vf_type vf = TYPE_FILE"
    by (simp add: Inode.truncate_def marshall_create_def string_at_def ex_defs FilesystemServer_new_def BufferCache_new_def region_blocks.simps object_defs c_int_def
      method_defs file_defs ORPHANS_INO_def O_DIRECTORY_def O_TRUNC_def O_APPEND_def Let_def)
  then obtain fs0 r fs vf where w: "boot_ex = Some fs0" "fs_serve conf_ex (\<lambda>k. env_ex (5 + k)) 50 ?req fs0 = Some (r, fs)"
    "fs_files fs 2 = Some vf" "vf_type vf = TYPE_FILE" by blast
  have "fs_reachable conf_ex 0 fs" using fs_reachable.start [of conf_ex _ 0] fs_reachable.request [OF _ w(2)] w(1) unfolding boot_ex_def by blast
  from server_well_typed [OF _ _ _ _ this, of 2 vf] w show ?thesis by (auto simp: conf_ex_def)
qed

end
