(* ===== verification/Fs_Dirs.thy ===== *)
theory Fs_Dirs
  imports Fs_Server_Props Fs_Marshall
begin

text \<open>
  What a file-system server promises to its clients about directories: the contract of resolving,
  adding and removing a name, as a locale, and its interpretation on the server's methods.  A client
  sees a directory as a finite map from names to inodes; a directory the server does not have yet, a
  shared one that nothing was stored in, is empty.
\<close>

section \<open>Interface: a directory service\<close>

text \<open>\<open>rest\<close> is everything else about the server that matters to clients: the other objects, the descriptors and the
  storage.  The first argument of the operations, of type \<open>'e\<close>, is the caller and its surroundings.\<close>

locale directory_service =
  fixes entries :: "'s \<Rightarrow> nat \<Rightarrow> string \<rightharpoonup> InodeType"
    and present :: "'s \<Rightarrow> nat \<Rightarrow> bool"
    and usable :: "'s \<Rightarrow> nat \<Rightarrow> bool"
    and room :: "'s \<Rightarrow> bool"
    and good :: "string \<Rightarrow> bool"
    and rest :: "'s \<Rightarrow> 'o"
    and resolve :: "'e \<Rightarrow> nat \<Rightarrow> string \<Rightarrow> 's \<Rightarrow> ((int \<times> InodeType option) \<times> 's) option"
    and addmap :: "'e \<Rightarrow> nat \<Rightarrow> string \<Rightarrow> InodeType \<Rightarrow> bool \<Rightarrow> 's \<Rightarrow> ((int \<times> InodeType) \<times> 's) option"
    and removemap :: "'e \<Rightarrow> nat \<Rightarrow> string \<Rightarrow> 's \<Rightarrow> (int \<times> 's) option"
  assumes present_usable: "present s i \<Longrightarrow> usable s i"
    and resolve_law: "usable s i \<Longrightarrow> good n \<Longrightarrow>
      \<exists>s'. resolve e i n s = Some ((case entries s i n of Some c \<Rightarrow> (OK, Some c) | None \<Rightarrow> (NOT_FOUND, None)), s')
         \<and> entries s' = entries s \<and> present s' = present s \<and> usable s' = usable s \<and> rest s' = rest s"
    and addmap_law: "present s i \<or> usable s i \<and> room s \<Longrightarrow> good n \<Longrightarrow>
      \<exists>s'. addmap e i n c ow s = Some ((case entries s i n of Some c' \<Rightarrow> (EXIST, c') | None \<Rightarrow> (OK, c)), s')
         \<and> entries s' = (if ow \<or> entries s i n = None then (entries s)(i := (entries s i)(n \<mapsto> c)) else entries s)
         \<and> present s' = (present s)(i := True) \<and> usable s' = usable s \<and> rest s' = rest s"
    and removemap_law: "present s i \<Longrightarrow> good n \<Longrightarrow>
      \<exists>s'. removemap e i n s = Some (if entries s i n = None then NOT_FOUND else OK, s')
         \<and> entries s' = (entries s)(i := (entries s i)(n := None))
         \<and> present s' = present s \<and> usable s' = usable s \<and> rest s' = rest s"
begin

text \<open>A name that was added is found, one that was removed is not.\<close>

lemma add_then_resolve:
  assumes "present s i \<or> usable s i \<and> room s" "good n" "entries s i n = None"
  shows "\<exists>s1 s2. addmap e i n c ow s = Some ((OK, c), s1) \<and> resolve e' i n s1 = Some ((OK, Some c), s2)"
proof -
  obtain s1 where "addmap e i n c ow s = Some ((OK, c), s1)" "entries s1 i n = Some c" "usable s1 i"
    using addmap_law [OF assms(1,2), of e c ow] assms present_usable by auto
  then show ?thesis using resolve_law [of s1 i n e'] assms(2) by auto
qed

text \<open>Moving a name inside one server: the new name is added over what it had, the old one is removed.  With the same
  name twice nothing is left of it.\<close>

lemma add_then_remove:
  assumes "present s i" "present s j" "good n" "good old" "entries s j old = Some c"
  shows "\<exists>s1 s2. addmap e i n c True s = Some ((case entries s i n of Some c' \<Rightarrow> (EXIST, c') | None \<Rightarrow> (OK, c)), s1)
     \<and> removemap e' j old s1 = Some (OK, s2) \<and> rest s2 = rest s \<and> present s2 = present s \<and> usable s2 = usable s
     \<and> entries s2 = (let es = (entries s)(i := (entries s i)(n \<mapsto> c)) in es(j := (es j)(old := None)))"
proof -
  obtain s1 where s1: "addmap e i n c True s = Some ((case entries s i n of Some c' \<Rightarrow> (EXIST, c') | None \<Rightarrow> (OK, c)), s1)"
    "entries s1 = (entries s)(i := (entries s i)(n \<mapsto> c))" "present s1 = present s" "usable s1 = usable s" "rest s1 = rest s"
    using addmap_law [of s i n e c True] assms by (auto simp: fun_upd_idem_iff)
  have "entries s1 j old \<noteq> None" using s1(2) assms(5) by auto
  then obtain s2 where "removemap e' j old s1 = Some (OK, s2)" "entries s2 = (entries s1)(j := (entries s1 j)(old := None))"
    "present s2 = present s1" "usable s2 = usable s1" "rest s2 = rest s1"
    using removemap_law [of s1 j old e'] assms(2,4) s1(3) by auto
  then show ?thesis using s1 by (auto simp: Let_def)
qed

end

section \<open>The server as a directory service\<close>

definition fs_children :: "FS \<Rightarrow> nat \<Rightarrow> ChildMap" where
  "fs_children fs i = (case fs_files fs i of
       Some vf \<Rightarrow> (case vf_body vf of DirBody d \<Rightarrow> d_children d | _ \<Rightarrow> [])
     | None \<Rightarrow> [])"

definition fs_entries :: "FS \<Rightarrow> nat \<Rightarrow> string \<rightharpoonup> InodeType" where
  "fs_entries fs i name = map_option vl_inode (child_find name (fs_children fs i))"

definition fs_present :: "FS \<Rightarrow> nat \<Rightarrow> bool" where
  "fs_present fs i \<longleftrightarrow> (\<exists>vf d. fs_files fs i = Some vf \<and> vf_isDir vf \<and> vf_body vf = DirBody d)"

definition fs_usable :: "FS \<Rightarrow> nat \<Rightarrow> bool" where
  "fs_usable fs i \<longleftrightarrow> fs_files fs i = None \<or> fs_present fs i"

definition fs_room :: "FS \<Rightarrow> bool" where
  "fs_room fs \<longleftrightarrow> fs_seq fs < 2 ^ 31 - 1"

definition name_ok :: "string \<Rightarrow> bool" where
  "name_ok n \<longleftrightarrow> n \<noteq> [] \<and> n \<noteq> ''stats''"

text \<open>The objects other than directories.\<close>

definition fs_objects :: "FS \<Rightarrow> nat \<rightharpoonup> VFile" where
  "fs_objects fs i = (case fs_files fs i of Some vf \<Rightarrow> if vf_isDir vf then None else Some vf | None \<Rightarrow> None)"

definition fs_rest :: "FS \<Rightarrow> (nat \<rightharpoonup> VFile) \<times> (nat \<rightharpoonup> VFile) \<times> (nat \<times> FileDescriptor) list \<times> BufferCache \<times> fs_mem \<times> nat" where
  "fs_rest fs = (fs_objects fs, fs_pipes fs, fs_fds fs, fs_cache fs, fs_memory fs, fs_id fs)"

lemmas dir_view_defs = fs_children_def fs_entries_def fs_present_def fs_usable_def fs_rest_def fs_objects_def

lemma view_cong:
  assumes "fs_files fs' = fs_files fs"
  shows "fs_entries fs' = fs_entries fs" "fs_present fs' = fs_present fs" "fs_usable fs' = fs_usable fs"
    "fs_objects fs' = fs_objects fs"
  using assms by (simp_all add: dir_view_defs fun_eq_iff)

lemma fs_objects_frame [simp]:
  "fs_objects (tick cf op fs) = fs_objects fs" "fs_objects (tock cf env op fs) = fs_objects fs"
  "fs_objects (appAddCache a e fs) = fs_objects fs" "fs_objects (appRemoveCache env a e fs) = fs_objects fs"
  by (rule view_cong(4), simp)+

lemma view_set_children:
  assumes "fs_files fs' = (fs_files fs)(i \<mapsto> vf\<lparr>vf_body := DirBody (d\<lparr>d_children := ch\<rparr>)\<rparr>)" "vf_isDir vf" "fs_usable fs i"
  shows "fs_entries fs' = (fs_entries fs)(i := (\<lambda>n. map_option vl_inode (child_find n ch)))"
    "fs_present fs' = (fs_present fs)(i := True)" "fs_usable fs' = fs_usable fs" "fs_objects fs' = fs_objects fs"
  using assms by (auto simp: dir_view_defs fun_eq_iff vf_isDir_def)

lemma child_find_update [simp]:
  "child_find n (addChild loc m c ch) = (if n = m then Some \<lparr>vl_addr = loc, vl_inode = c\<rparr> else child_find n ch)"
  "child_find n (child_erase m ch) = (if n = m then None else child_find n ch)"
  by (simp_all add: child_find_def addChild_def child_erase_def delete_conv')

lemma appAddCache_seq: "fs_seq (appAddCache a e fs) = fs_seq fs"
  by (simp add: appAddCache_def)

lemma fs_resolve_law:
  assumes "fs_usable fs i" "name_ok n"
  shows "\<exists>fs'. fs_resolve cf env a i n fs
       = Some ((case fs_entries fs i n of Some c \<Rightarrow> (OK, Some c) | None \<Rightarrow> (NOT_FOUND, None)), fs')
     \<and> fs_files fs' = fs_files fs \<and> fs_rest fs' = fs_rest fs \<and> fs_seq fs' = fs_seq fs"
proof (cases "fs_files fs i")
  case None
  then show ?thesis using assms(2)
    by (simp add: fs_resolve_def op_counter_eq name_ok_def fs_entries_def fs_children_def child_find_def fs_rest_def)
next
  case (Some vf)
  then obtain d where "vf_isDir vf" "vf_body vf = DirBody d" using assms(1) by (auto simp: fs_usable_def fs_present_def)
  with Some show ?thesis using assms(2)
    by (auto simp: fs_resolve_def op_counter_eq name_ok_def fs_entries_def fs_children_def as_dir_def fs_rest_def
        appAddCache_seq split: option.splits)
qed

lemma fs_removemap_law:
  assumes "fs_present fs i" "name_ok n"
  shows "\<exists>fs'. fs_removemap cf env a i n fs = Some (if fs_entries fs i n = None then NOT_FOUND else OK, fs')
     \<and> fs_entries fs' = (fs_entries fs)(i := (fs_entries fs i)(n := None)) \<and> fs_present fs' = fs_present fs
     \<and> fs_usable fs' = fs_usable fs \<and> fs_rest fs' = fs_rest fs"
proof -
  from assms(1) obtain vf d where vf: "fs_files fs i = Some vf" "vf_isDir vf" "vf_body vf = DirBody d"
    by (auto simp: fs_present_def)
  have ch: "fs_children fs i = d_children d" using vf by (simp add: fs_children_def)
  have u: "fs_usable fs i" using assms(1) by (simp add: fs_usable_def)
  show ?thesis
  proof (cases "child_find n (d_children d)")
    case None
    have "fs_entries fs = (fs_entries fs)(i := (fs_entries fs i)(n := None))"
      using None ch by (auto simp: fs_entries_def fun_eq_iff)
    moreover obtain fs' where fs': "fs_removemap cf env a i n fs = Some (NOT_FOUND, fs')" "fs_files fs' = fs_files fs"
      "fs_pipes fs' = fs_pipes fs" "fs_fds fs' = fs_fds fs" "fs_cache fs' = fs_cache fs" "fs_memory fs' = fs_memory fs"
      "fs_id fs' = fs_id fs"
      using None vf assms(2) by (simp add: fs_removemap_def op_counter_eq name_ok_def as_dir_def)
    moreover have "fs_entries fs i n = None" using None ch by (simp add: fs_entries_def)
    ultimately show ?thesis using view_cong [OF fs'(2)] by (simp add: fs_rest_def)
  next
    case (Some e)
    let ?ch = "child_erase n (d_children d)"
    obtain fs' where fs': "fs_removemap cf env a i n fs = Some (OK, fs')"
      "fs_files fs' = (fs_files fs)(i \<mapsto> vf\<lparr>vf_body := DirBody (d\<lparr>d_children := ?ch\<rparr>)\<rparr>)"
      "fs_pipes fs' = fs_pipes fs" "fs_fds fs' = fs_fds fs" "fs_cache fs' = fs_cache fs" "fs_memory fs' = fs_memory fs"
      "fs_id fs' = fs_id fs"
      using Some vf assms(2)
      by (simp add: fs_removemap_def op_counter_eq name_ok_def as_dir_def set_children_def Let_def)
    have "fs_entries fs' = (fs_entries fs)(i := (fs_entries fs i)(n := None))"
      unfolding view_set_children(1) [OF fs'(2) vf(2) u] by (auto simp: fs_entries_def ch fun_eq_iff)
    moreover have "fs_present fs' = fs_present fs"
      unfolding view_set_children(2) [OF fs'(2) vf(2) u] using assms(1) by (auto simp: fun_eq_iff)
    ultimately show ?thesis
      using fs' view_set_children(3,4) [OF fs'(2) vf(2) u] Some ch by (simp add: fs_rest_def fs_entries_def)
  qed
qed

lemma lazy_dir_view:
  assumes "fs_present fs i \<or> fs_usable fs i \<and> fs_room fs"
  obtains fs0 vf d where "lazy_dir cf env i fs = Some fs0" "fs_files fs0 i = Some vf" "vf_isDir vf" "vf_body vf = DirBody d"
    "fs_entries fs0 = fs_entries fs" "fs_present fs0 = (fs_present fs)(i := True)" "fs_usable fs0 = fs_usable fs"
    "fs_rest fs0 = fs_rest fs"
proof (cases "fs_files fs i")
  case None
  then have "fs_room fs" using assms by (auto simp: fs_present_def)
  then obtain vf where vf: "new_Dir cf env (fs_id fs) True 0x1FF (fs_seq fs) = Some (vf, fs_seq fs + 1)" "vf_isDir vf"
    "vf_body vf = DirBody \<lparr>d_vdir = True, d_locked = False, d_children = []\<rparr>"
    by (simp add: new_Dir_def VFile_new_def fs_room_def vf_isDir_def)
  let ?fs = "put_file i (vf\<lparr>vf_id := i\<rparr>) (fs\<lparr>fs_seq := fs_seq fs + 1\<rparr>)"
  have "fs_entries ?fs = fs_entries fs" "fs_present ?fs = (fs_present fs)(i := True)" "fs_usable ?fs = fs_usable fs"
    "fs_objects ?fs = fs_objects fs"
    using None vf(2,3) by (auto simp: dir_view_defs fun_eq_iff vf_isDir_def child_find_def)
  then show thesis using None vf
    by (intro that [of ?fs "vf\<lparr>vf_id := i\<rparr>"]) (simp_all add: lazy_dir_def vf_isDir_def fs_rest_def)
next
  case (Some vf)
  then obtain d where "vf_isDir vf" "vf_body vf = DirBody d" using assms by (auto simp: fs_usable_def fs_present_def)
  moreover from this Some have "fs_present fs = (fs_present fs)(i := True)" by (auto simp: fs_present_def fun_eq_iff)
  ultimately show thesis using Some by (intro that [of fs vf d]) simp_all
qed

lemma fs_addmap_law:
  assumes "fs_present fs i \<or> fs_usable fs i \<and> fs_room fs" "name_ok n" "ino_id parent = i"
  shows "\<exists>fs'. fs_addmap cf env a parent n c ow fs
       = Some ((case fs_entries fs i n of Some c' \<Rightarrow> (EXIST, c') | None \<Rightarrow> (OK, c)), fs')
     \<and> fs_entries fs' = (if ow \<or> fs_entries fs i n = None then (fs_entries fs)(i := (fs_entries fs i)(n \<mapsto> c)) else fs_entries fs)
     \<and> fs_present fs' = (fs_present fs)(i := True) \<and> fs_usable fs' = fs_usable fs \<and> fs_rest fs' = fs_rest fs"
proof -
  let ?fs = "tick cf ADDMAP fs"
  have t: "fs_present ?fs = fs_present fs" "fs_entries ?fs = fs_entries fs" "fs_usable ?fs = fs_usable fs"
    "fs_rest ?fs = fs_rest fs" "fs_room ?fs = fs_room fs"
    using view_cong [of ?fs fs] by (simp_all add: fs_rest_def fs_room_def)
  obtain fs0 vf d where fs0: "lazy_dir cf env i ?fs = Some fs0" "fs_files fs0 i = Some vf" "vf_isDir vf"
    "vf_body vf = DirBody d" "fs_entries fs0 = fs_entries fs" "fs_present fs0 = (fs_present fs)(i := True)"
    "fs_usable fs0 = fs_usable fs" "fs_rest fs0 = fs_rest fs"
    using lazy_dir_view [of ?fs i cf env] assms(1) unfolding t by blast
  have ch: "fs_entries fs i n = map_option vl_inode (child_find n (d_children d))" for n
    unfolding fs0(5) [symmetric] using fs0(2,4) by (simp add: fs_entries_def fs_children_def)
  have u: "fs_usable fs0 i" using fs0(2-4) by (simp add: fs_usable_def fs_present_def)
  show ?thesis
  proof (cases "child_find n (d_children d) \<noteq> None \<and> \<not> ow")
    case True
    then obtain e where "child_find n (d_children d) = Some e" by blast
    with True fs0(1-4) assms(2,3) have add: "fs_addmap cf env a parent n c ow fs = Some ((EXIST, vl_inode e), tock cf env ADDMAP fs0)"
      by (simp add: fs_addmap_def op_counter_eq name_ok_def as_dir_def)
    have "fs_rest (tock cf env ADDMAP fs0) = fs_rest fs" using fs0(8) by (simp add: fs_rest_def)
    then show ?thesis
      using add ch [of n] True \<open>child_find n (d_children d) = Some e\<close> fs0(5-7) view_cong [of "tock cf env ADDMAP fs0" fs0] by simp
  next
    case False
    let ?ch = "addChild (en_loc env) n c (if child_find n (d_children d) = None then d_children d else child_erase n (d_children d))"
    obtain fs' where fs': "fs_addmap cf env a parent n c ow fs
        = Some ((case child_find n (d_children d) of Some e \<Rightarrow> (EXIST, vl_inode e) | None \<Rightarrow> (OK, c)), fs')"
      "fs_files fs' = (fs_files fs0)(i \<mapsto> vf\<lparr>vf_body := DirBody (d\<lparr>d_children := ?ch\<rparr>)\<rparr>)"
      "fs_pipes fs' = fs_pipes fs0" "fs_fds fs' = fs_fds fs0" "fs_cache fs' = fs_cache fs0" "fs_memory fs' = fs_memory fs0"
      "fs_id fs' = fs_id fs0"
      using False fs0(1-4) assms(2,3)
      by (cases "child_find n (d_children d)")
         (simp_all add: fs_addmap_def op_counter_eq name_ok_def as_dir_def set_children_def Let_def)
    note v = view_set_children [OF fs'(2) fs0(3) u]
    have "fs_entries fs' = (fs_entries fs)(i := (fs_entries fs i)(n \<mapsto> c))"
      unfolding v(1) fs0(5) by (auto simp: ch fun_eq_iff)
    moreover have "ow \<or> fs_entries fs i n = None" using False ch [of n] by auto
    moreover have "fs_rest fs' = fs_rest fs" using fs' v(4) fs0(8) by (simp add: fs_rest_def)
    ultimately show ?thesis
      using fs'(1) v(2,3) fs0(6,7) ch [of n] by (simp split: option.splits)
  qed
qed

text \<open>The interpretation: a server answers the calls of an application \<open>a\<close> in the surroundings \<open>env\<close>.\<close>

interpretation dirs: directory_service fs_entries fs_present fs_usable fs_room name_ok fs_rest
    "\<lambda>(env, a) i n. fs_resolve cf env a i n"
    "\<lambda>(env, a) i n c ow. fs_addmap cf env a \<lparr>ino_server = 0, ino_id = i\<rparr> n c ow"
    "\<lambda>(env, a) i n. fs_removemap cf env a i n" for cf
proof (unfold_locales, goal_cases)
  case (1 s i)
  then show ?case by (simp add: fs_usable_def)
next
  case (2 s i n e)
  obtain env a where e: "e = (env, a)" by (cases e)
  from fs_resolve_law [OF 2, of cf env a] obtain s' where
    "fs_resolve cf env a i n s = Some ((case fs_entries s i n of Some c \<Rightarrow> (OK, Some c) | None \<Rightarrow> (NOT_FOUND, None)), s')"
    "fs_files s' = fs_files s" "fs_rest s' = fs_rest s" by blast
  then show ?case using view_cong [of s' s] unfolding e prod.case by blast
next
  case (3 s i n e c ow)
  obtain env a where e: "e = (env, a)" by (cases e)
  show ?case unfolding e prod.case by (rule fs_addmap_law [OF 3]) simp
next
  case (4 s i n e)
  obtain env a where e: "e = (env, a)" by (cases e)
  show ?case unfolding e prod.case by (rule fs_removemap_law [OF 4])
qed

end
