(* ===== verification/Fs_Client.thy ===== *)
theory Fs_Client
  imports Fs_Marshall
begin

text \<open>
  The client library of the file system (\<open>sys/fs/lib/lib.cpp\<close>, \<open>dir_cache.hpp\<close>, \<open>dir_cache.cpp\<close>): the
  remote calls, the cache of directory entries, the look-up of paths, and the operations that take
  several servers: unlinking, making and removing directories, renaming.

  A client runs in a \<open>World\<close>: the servers, the buffer memory that all of them share with the clients,
  its own directory cache, the channel the servers know it by, and the number of calls so far, which
  selects the surroundings of the next call.  A remote call
  runs the handler of the server it is sent to; waking the server, the event log and the debugging
  counters of the client are left out.  A server that fails an assertion never answers: the call is
  \<^term>\<open>None\<close>.
\<close>

unbundle bit_operations_syntax

section \<open>The directory cache\<close>

text \<open>\<^verbatim>\<open>PathPair\<close>, ordered by the number, the length and the characters of the name.\<close>

datatype PathPair = PathPair (pp_id: nat) (pp_str: string)

instantiation PathPair :: linorder
begin

definition less_PathPair :: "PathPair \<Rightarrow> PathPair \<Rightarrow> bool" where
  "less_PathPair pp1 pp2 \<longleftrightarrow>
     (if pp_id pp1 \<noteq> pp_id pp2 then pp_id pp1 < pp_id pp2
      else if length (pp_str pp1) \<noteq> length (pp_str pp2) then length (pp_str pp1) < length (pp_str pp2)
      else ord_class.lexordp (map of_char (pp_str pp1)) (map of_char (pp_str pp2) :: nat list))"

definition less_eq_PathPair :: "PathPair \<Rightarrow> PathPair \<Rightarrow> bool" where
  "less_eq_PathPair pp1 pp2 \<longleftrightarrow> pp1 < pp2 \<or> pp1 = pp2"

instance
proof
  fix x y z :: PathPair
  have chars: "map of_char s = (map of_char t :: nat list) \<longleftrightarrow> s = t" for s t :: string
    by (metis inj_map_eq_map inj_on_def of_char_eq_iff)
  have irrefl: "\<not> x < x" for x :: PathPair
    by (simp add: less_PathPair_def lexordp_irreflexive)
  have trans: "x < z" if "x < y" "y < z" for x y z :: PathPair
    using that by (auto simp: less_PathPair_def intro: lexordp_trans split: if_splits)
  have linear: "x < y \<or> x = y \<or> y < x" for x y :: PathPair
    using lexordp_linear [of "map of_char (pp_str x) :: nat list" "map of_char (pp_str y)"]
    by (cases x; cases y) (auto simp: less_PathPair_def chars)
  show "x < y \<longleftrightarrow> x \<le> y \<and> \<not> y \<le> x"
    using irrefl trans by (auto simp: less_eq_PathPair_def)
  show "x \<le> x" by (simp add: less_eq_PathPair_def)
  show "x \<le> z" if "x \<le> y" "y \<le> z" using that trans by (auto simp: less_eq_PathPair_def)
  show "x = y" if "x \<le> y" "y \<le> x" using that irrefl trans by (auto simp: less_eq_PathPair_def)
  show "x \<le> y \<or> y \<le> x" using linear by (auto simp: less_eq_PathPair_def)
qed

end

type_synonym DirCache = "(PathPair \<times> InodeType) list"

text \<open>\<^verbatim>\<open>std::map::insert\<close>, which leaves an entry that is there.\<close>

fun cache_insert :: "PathPair \<Rightarrow> InodeType \<Rightarrow> DirCache \<Rightarrow> DirCache" where
  "cache_insert k child [] = [(k, child)]"
| "cache_insert k child ((k', child') # rest) =
     (if k = k' then (k', child') # rest
      else if k < k' then (k, child) # (k', child') # rest
      else (k', child') # cache_insert k child rest)"

text \<open>\<^verbatim>\<open>remove_dest\<close> erases the first entry that leads to an inode.\<close>

fun remove_dest :: "Inode \<Rightarrow> DirCache \<Rightarrow> DirCache" where
  "remove_dest child [] = []"
| "remove_dest child ((k, i) # rest) =
     (if ino_id i = ino_id child \<and> ino_server i = ino_server child then rest
      else (k, i) # remove_dest child rest)"

section \<open>Clients and servers\<close>

record ClientConf =
  lc_fs :: FsConf
  lc_chunk_size :: nat
  lc_buffer_cache :: bool
  lc_rm_scatter_gather :: bool
  lc_creation_affinity :: bool
  lc_socket_map :: "nat list"
  lc_dest_server :: int
  lc_env :: "nat \<Rightarrow> envs"

record World =
  wd_servers :: "FS list"
  wd_memory :: fs_mem
  wd_cache :: DirCache
  wd_chan :: nat
  wd_clock :: nat

abbreviation lc_count :: "ClientConf \<Rightarrow> nat" where
  "lc_count lc \<equiv> cf_server_count (lc_fs lc)"

abbreviation lc_cache :: "ClientConf \<Rightarrow> bool" where
  "lc_cache lc \<equiv> cf_directory_cache (lc_fs lc)"

text \<open>A remote call: \<^verbatim>\<open>establish_fs_chan\<close>, the request and the reply.\<close>

definition rpc ::
    "ClientConf \<Rightarrow> int \<Rightarrow> (FsConf \<Rightarrow> envs \<Rightarrow> nat \<Rightarrow> FS \<Rightarrow> ('r \<times> FS) option) \<Rightarrow> World \<Rightarrow> ('r \<times> World) option" where
  "rpc lc server handler w =
     (if server < 0 \<or> length (wd_servers w) \<le> nat server then None
      else do {
        let fs = (wd_servers w ! nat server)\<lparr>fs_memory := wd_memory w\<rparr>;
        (reply, fs) \<leftarrow> handler (lc_fs lc) (lc_env lc (wd_clock w)) (wd_chan w) fs;
        Some (reply, w\<lparr>wd_servers := (wd_servers w)[nat server := fs], wd_memory := fs_memory fs, wd_clock := wd_clock w + 1\<rparr>)
      })"

definition DirCache_add :: "InodeType \<Rightarrow> string \<Rightarrow> InodeType \<Rightarrow> World \<Rightarrow> World" where
  "DirCache_add parent path child w = w\<lparr>wd_cache := cache_insert (PathPair (ino_id parent) path) child (wd_cache w)\<rparr>"

definition DirCache_remove :: "InodeType \<Rightarrow> string \<Rightarrow> World \<Rightarrow> World" where
  "DirCache_remove parent path w = w\<lparr>wd_cache := AList.delete (PathPair (ino_id parent) path) (wd_cache w)\<rparr>"

definition DirCache_clear :: "World \<Rightarrow> World" where
  "DirCache_clear w = w\<lparr>wd_cache := []\<rparr>"

text \<open>\<^verbatim>\<open>fosNotifications\<close> for each notification a server has sent to this client.\<close>

definition fosNotifications :: "Inode \<Rightarrow> World \<Rightarrow> World" where
  "fosNotifications inode w = w\<lparr>wd_cache := remove_dest inode (wd_cache w)\<rparr>"

definition check_notifications :: "World \<Rightarrow> World" where
  "check_notifications w =
     (let mine = concat (map (\<lambda>fs. map snd (filter (\<lambda>(a, _). a = wd_chan w) (fs_sent fs))) (wd_servers w))
      in fold fosNotifications mine
           (w\<lparr>wd_servers := map (\<lambda>fs. fs\<lparr>fs_sent := filter (\<lambda>(a, _). a \<noteq> wd_chan w) (fs_sent fs)\<rparr>) (wd_servers w)\<rparr>))"

section \<open>Remote calls\<close>

definition fosCreate ::
    "ClientConf \<Rightarrow> int \<Rightarrow> InodeType \<Rightarrow> string \<Rightarrow> u32 \<Rightarrow> u32 \<Rightarrow> World \<Rightarrow> ((int \<times> InodeType option) \<times> World) option" where
  "fosCreate lc server parent path flags mode w =
     (if ino_id parent = 0 \<and> path = ''/'' then Some ((OK, None), w)
      else do {
        let req = \<lparr>cr_parent = parent, cr_flags = flags, cr_mode = mode, cr_path = c_string path\<rparr>;
        (reply, w) \<leftarrow> rpc lc server (\<lambda>cf envs chan. marshall_create cf envs chan req) w;
        Some ((si_retval reply, si_inode reply), w)
      })"

definition fosDestroy :: "ClientConf \<Rightarrow> int \<Rightarrow> nat \<Rightarrow> World \<Rightarrow> (int \<times> World) option" where
  "fosDestroy lc server i = rpc lc server (\<lambda>cf envs chan. marshall_destroy cf envs i)"

definition fosAddMap ::
    "ClientConf \<Rightarrow> int \<Rightarrow> InodeType \<Rightarrow> string \<Rightarrow> InodeType \<Rightarrow> bool \<Rightarrow> World
     \<Rightarrow> ((int \<times> InodeType option) \<times> World) option" where
  "fosAddMap lc server parent path child overwrite w = do {
     let req = \<lparr>am_parent = InodeOnly parent, am_child = child, am_overwrite = overwrite, am_update = False,
                am_path = c_string path\<rparr>;
     (reply, w) \<leftarrow> rpc lc server (\<lambda>cf envs chan. marshall_addmap cf envs chan (AddMap req)) w;
     let w = (if lc_cache lc \<and> (si_retval reply = OK \<or> overwrite) then DirCache_add parent path child w else w);
     Some ((si_retval reply, si_inode reply), w)
   }"

definition fosUpdateMap ::
    "ClientConf \<Rightarrow> int \<Rightarrow> InodeType \<Rightarrow> string \<Rightarrow> InodeType \<Rightarrow> bool \<Rightarrow> InodeType \<Rightarrow> string \<Rightarrow> World
     \<Rightarrow> ((int \<times> InodeType option) \<times> World) option" where
  "fosUpdateMap lc server parent path child overwrite old_parent old_path w = do {
     let req = \<lparr>um_parent = InodeOnly parent, um_child = child, um_overwrite = overwrite, um_update = True,
                um_old_parent = old_parent, um_path = c_string path @ c_string old_path\<rparr>;
     (reply, w) \<leftarrow> rpc lc server (\<lambda>cf envs chan. marshall_addmap cf envs chan (UpdateMap req)) w;
     let w = (if lc_cache lc \<and> (si_retval reply = OK \<or> overwrite) then DirCache_add parent path child w else w);
     Some ((si_retval reply, si_inode reply), w)
   }"

definition fosRemoveMap :: "ClientConf \<Rightarrow> int \<Rightarrow> InodeType \<Rightarrow> string \<Rightarrow> World \<Rightarrow> (int \<times> World) option" where
  "fosRemoveMap lc server parent path =
     rpc lc server (\<lambda>cf envs chan. marshall_removemap cf envs chan \<lparr>ip_id = ino_id parent, ip_path = c_string path\<rparr>)"

text \<open>\<^verbatim>\<open>_fosOpen\<close>, \<^verbatim>\<open>_fosCreateOpen\<close> and \<^verbatim>\<open>_fosResolve\<close>.\<close>

definition fosOpen :: "ClientConf \<Rightarrow> InodeType \<Rightarrow> u32 \<Rightarrow> World \<Rightarrow> (OpenReply \<times> World) option" where
  "fosOpen lc inode flags =
     rpc lc (ino_server inode) (\<lambda>cf envs chan. marshall_open cf envs chan (Open \<lparr>op_flags = flags, op_id = ino_id inode\<rparr>))"

definition fosCreateOpen ::
    "ClientConf \<Rightarrow> int \<Rightarrow> InodeType \<Rightarrow> string \<Rightarrow> u32 \<Rightarrow> u32 \<Rightarrow> World \<Rightarrow> (OpenReply \<times> World) option" where
  "fosCreateOpen lc server parent path flags mode =
     rpc lc server (\<lambda>cf envs chan. marshall_open cf envs chan
       (CreateOpen \<lparr>co_flags = flags, co_parent = InodeOnly parent, co_mode = mode, co_path = c_string path\<rparr>))"

text \<open>The result is left alone unless the answer is \<^verbatim>\<open>OK\<close>.\<close>

definition fosResolve :: "ClientConf \<Rightarrow> InodeType \<Rightarrow> string \<Rightarrow> InodeType \<Rightarrow> World \<Rightarrow> ((int \<times> InodeType) \<times> World) option" where
  "fosResolve lc parent path inode w =
     (if ino_id parent = 0 \<and> path = [] then Some ((OK, \<lparr>ino_server = 0, ino_id = 0, ino_type = TYPE_DIR\<rparr>), w)
      else if path = ''.'' then Some ((OK, parent\<lparr>ino_type := TYPE_DIR\<rparr>), w)
      else do {
        (reply, w) \<leftarrow> rpc lc (ino_server parent) (\<lambda>cf envs chan. marshall_resolve cf envs chan
            \<lparr>ip_id = ino_id parent, ip_path = c_string path\<rparr>) w;
        if re_retval reply = OK then do { child \<leftarrow> re_child reply; Some ((OK, child), w) }
        else Some ((re_retval reply, inode), w)
      })"

section \<open>Looking up paths\<close>

text \<open>\<^verbatim>\<open>DirCache::resolve\<close> of the first \<open>pathlen\<close> characters of a path: the status, \<^verbatim>\<open>*child\<close> and \<^verbatim>\<open>*cached\<close>.\<close>

definition DirCache_resolve ::
    "ClientConf \<Rightarrow> InodeType \<Rightarrow> string \<Rightarrow> nat \<Rightarrow> InodeType \<Rightarrow> bool \<Rightarrow> World
     \<Rightarrow> ((int \<times> InodeType \<times> bool) \<times> World) option" where
  "DirCache_resolve lc parent path pathlen child cached w =
     (let name = take pathlen path
      in if name = ''.'' \<or> path = [] then Some ((OK, parent, cached), w)
      else case (if lc_cache lc then map_of (wd_cache w) (PathPair (ino_id parent) name) else None) of
        Some hit \<Rightarrow> Some ((OK, hit, True), w)
      | None \<Rightarrow> do {
          server \<leftarrow> fosPathOwnern (lc_count lc) parent name;
          let parent = parent\<lparr>ino_server := server\<rparr>;
          ((retval, child), w) \<leftarrow> fosResolve lc parent name child w;
          let w = (if lc_cache lc \<and> retval = OK then DirCache_add parent name child w else w);
          Some ((retval, child, cached), w)
        })"

text \<open>The loop of \<^verbatim>\<open>_fosResolvePieces\<close> over the separators that start before the end of the part to resolve,
  \<open>left\<close> characters away: the rest of the path and its length.\<close>

function resolve_pieces ::
    "ClientConf \<Rightarrow> nat \<Rightarrow> InodeType \<Rightarrow> string \<Rightarrow> bool \<Rightarrow> World
     \<Rightarrow> ((int \<times> InodeType \<times> string \<times> nat \<times> bool) \<times> World) option" where
  "resolve_pieces lc left result path cached w =
     (let k = length (takeWhile (\<lambda>c. c \<noteq> CHR ''/'') path)
      in if CHR ''/'' \<notin> set path \<or> left \<le> k then Some ((OK, result, path, left, cached), w)
         else do {
           ((ret, result, cached), w) \<leftarrow> DirCache_resolve lc result path k result cached w;
           if ret = OK then resolve_pieces lc (left - (k + 1)) result (drop (k + 1) path) cached w
           else Some ((ret, result, drop (k + 1) path, left - (k + 1), cached), w)
         })"
  by pat_completeness auto
termination
  by (relation "measure (\<lambda>(lc, left, result, path, cached, w). length path)") (auto intro!: diff_less intro: length_pos_if_in_set)

declare resolve_pieces.simps [simp del]

definition fosResolvePieces ::
    "ClientConf \<Rightarrow> InodeType \<Rightarrow> string \<Rightarrow> nat \<Rightarrow> bool \<Rightarrow> World \<Rightarrow> ((int \<times> InodeType \<times> bool) \<times> World) option" where
  "fosResolvePieces lc parent path pathlen cached w = do {
     ((ret, result, path, pathlen, cached), w) \<leftarrow> resolve_pieces lc pathlen parent path cached w;
     if ret \<noteq> OK then Some ((ret, result, cached), w)
     else DirCache_resolve lc result path pathlen result cached w
   }"

text \<open>The look-ups start at the root for an absolute path.\<close>

definition start_dir :: "InodeType \<Rightarrow> string \<Rightarrow> InodeType" where
  "start_dir parent path =
     (case path of c # _ \<Rightarrow> if c = CHR ''/'' then parent\<lparr>ino_id := 0, ino_type := TYPE_DIR\<rparr> else parent | [] \<Rightarrow> parent)"

text \<open>The position of the last separator; one that ends the path does not count, unless it is all of it.\<close>

definition last_sep :: "string \<Rightarrow> nat option" where
  "last_sep path =
     (let body = (if length path > 1 \<and> last path = CHR ''/'' then butlast path else path)
      in if CHR ''/'' \<in> set body
         then Some (length body - 1 - length (takeWhile (\<lambda>c. c \<noteq> CHR ''/'') (rev body)))
         else None)"

text \<open>\<^verbatim>\<open>fosLookupParent\<close>: the status, the rest of the path, the directory and \<^verbatim>\<open>*cached\<close>.  The status of a parent
  that is not a directory is \<^verbatim>\<open>-INVALID\<close>.\<close>

definition fosLookupParent ::
    "ClientConf \<Rightarrow> InodeType \<Rightarrow> string \<Rightarrow> bool \<Rightarrow> World \<Rightarrow> ((int \<times> string \<times> InodeType \<times> bool) \<times> World) option" where
  "fosLookupParent lc parent path cached w =
     (let w = check_notifications w
      in if path = [] then Some ((OK, path, parent, cached), w)
      else do {
        let parent = start_dir parent path;
        ((ret, path, result, cached), w) \<leftarrow>
          (case last_sep path of
             Some sep \<Rightarrow> do {
               ((ret, result, cached), w) \<leftarrow> fosResolvePieces lc parent path sep cached w;
               Some ((ret, drop (sep + 1) path, result, cached), w)
             }
           | None \<Rightarrow> Some ((OK, path, parent, cached), w));
        Some ((if ino_type result \<noteq> TYPE_DIR_SHARED \<and> ino_type result \<noteq> TYPE_DIR then - INVALID else ret,
               path, result, cached), w)
      })"

definition fosLookup ::
    "ClientConf \<Rightarrow> InodeType \<Rightarrow> string \<Rightarrow> bool \<Rightarrow> World \<Rightarrow> ((int \<times> InodeType \<times> bool) \<times> World) option" where
  "fosLookup lc parent path cached w =
     fosResolvePieces lc (start_dir parent path) path (length path) cached (check_notifications w)"

text \<open>\<^verbatim>\<open>_fosClearCache\<close> forgets the entries a path goes through.\<close>

function clear_pieces :: "ClientConf \<Rightarrow> nat \<Rightarrow> InodeType \<Rightarrow> string \<Rightarrow> World \<Rightarrow> World option" where
  "clear_pieces lc left parent path w =
     (let k = length (takeWhile (\<lambda>c. c \<noteq> CHR ''/'') path)
      in if CHR ''/'' \<notin> set path \<or> left \<le> k then Some (DirCache_remove parent (take left path) w)
         else do {
           ((ret, child, _), w) \<leftarrow> DirCache_resolve lc parent path k parent False w;
           let w = DirCache_remove parent (take k path) w;
           if ret = OK then clear_pieces lc (left - (k + 1)) child (drop (k + 1) path) w
           else None
         })"
  by pat_completeness auto
termination
  by (relation "measure (\<lambda>(lc, left, parent, path, w). length path)") (auto intro!: diff_less intro: length_pos_if_in_set)

declare clear_pieces.simps [simp del]

definition fosClearCache :: "ClientConf \<Rightarrow> InodeType \<Rightarrow> string \<Rightarrow> World \<Rightarrow> World option" where
  "fosClearCache lc parent path w =
     (if \<not> lc_cache lc then Some w
      else let parent = start_dir parent path;
               path = (case path of c # cs \<Rightarrow> if c = CHR ''/'' then cs else path | [] \<Rightarrow> path)
      in if path = [] then None
         else let path = (if last path = CHR ''/'' then butlast path else path)
         in clear_pieces lc (length path) parent path w)"

section \<open>Operations on names\<close>

definition fosUnlink :: "ClientConf \<Rightarrow> InodeType \<Rightarrow> string \<Rightarrow> World \<Rightarrow> (int \<times> World) option" where
  "fosUnlink lc parent path w = do {
     ((retval, path, parent, _), w) \<leftarrow> fosLookupParent lc parent path False w;
     if retval \<noteq> OK then Some (retval, w)
     else do {
       dir_entry_server \<leftarrow> fosPathOwner (lc_count lc) parent path;
       ((retval, child, _), w) \<leftarrow> fosLookup lc parent path False w;
       if retval \<noteq> OK then Some (retval, w)
       else do {
         (retval, w) \<leftarrow> (if ino_server child \<noteq> dir_entry_server
                         then fosRemoveMap lc dir_entry_server parent path w else Some (OK, w));
         if retval \<noteq> OK then None
         else do {
           let req = (if ino_server child = dir_entry_server
                      then \<lparr>uq_id = ino_id child, uq_parent_id = ino_id parent, uq_path = c_string path\<rparr>
                      else \<lparr>uq_id = ino_id child, uq_parent_id = SIZE_MAX, uq_path = []\<rparr>);
           (retval, w) \<leftarrow> rpc lc (ino_server child) (\<lambda>cf envs chan. marshall_unlink cf envs chan req) w;
           Some (retval, if lc_cache lc \<and> retval = OK then DirCache_remove parent path w else w)
         }
       }
     }
   }"

text \<open>\<^verbatim>\<open>_RmdirSendReq\<close> and \<^verbatim>\<open>_RmdirWaitReply\<close> together, and the variant that also removes the name.\<close>

definition fosDoRmdir :: "ClientConf \<Rightarrow> int \<Rightarrow> nat \<Rightarrow> int \<Rightarrow> World \<Rightarrow> (int \<times> World) option" where
  "fosDoRmdir lc server i phase =
     rpc lc server (\<lambda>cf envs chan. marshall_rmdir cf envs chan (Rmdir \<lparr>rd_id = i, rd_phase = phase\<rparr>))"

definition fosRmdirAndMap :: "ClientConf \<Rightarrow> int \<Rightarrow> nat \<Rightarrow> InodeType \<Rightarrow> string \<Rightarrow> World \<Rightarrow> (int \<times> World) option" where
  "fosRmdirAndMap lc server i parent path =
     rpc lc server (\<lambda>cf envs chan. marshall_rmdir cf envs chan
       (RmdirAndMap \<lparr>rm_id = i, rm_phase = RMDIR_AND_MAP, rm_parent = parent, rm_path = c_string path\<rparr>))"

text \<open>The loop that tries a server again while the directory is locked there.\<close>

partial_function (option) rmdir_try :: "ClientConf \<Rightarrow> int \<Rightarrow> nat \<Rightarrow> World \<Rightarrow> (int \<times> World) option" where
  "rmdir_try lc server i w = do {
     (retval, w) \<leftarrow> fosDoRmdir lc server i RMDIR_TRY w;
     if retval = - EAGAIN then rmdir_try lc server i w else Some (retval, w)
   }"

text \<open>The first phase without scatter-gather: the other servers in turn, up to the first that refuses; the number of
  servers contacted.\<close>

fun try_others :: "ClientConf \<Rightarrow> int \<Rightarrow> nat \<Rightarrow> int \<Rightarrow> nat list \<Rightarrow> World \<Rightarrow> ((int \<times> nat) \<times> World) option" where
  "try_others lc home i retval [] w = Some ((retval, lc_count lc), w)"
| "try_others lc home i retval (s # servers) w =
     (if int s = home then try_others lc home i retval servers w
      else do {
        (retval, w) \<leftarrow> rmdir_try lc (int s) i w;
        if retval \<noteq> OK then Some ((retval, s), w) else try_others lc home i retval servers w
      })"

text \<open>A request to each of some servers, every one of which has to succeed.\<close>

fun tell_all :: "ClientConf \<Rightarrow> nat \<Rightarrow> int \<Rightarrow> nat list \<Rightarrow> World \<Rightarrow> World option" where
  "tell_all lc i action [] w = Some w"
| "tell_all lc i action (s # servers) w = do {
     (retval2, w) \<leftarrow> fosDoRmdir lc (int s) i action w;
     if retval2 = OK then tell_all lc i action servers w else None
   }"

text \<open>The first phase with scatter-gather: every other server is asked once.\<close>

fun try_scatter :: "ClientConf \<Rightarrow> int \<Rightarrow> nat \<Rightarrow> int \<Rightarrow> nat list \<Rightarrow> World \<Rightarrow> ((int \<times> (nat \<times> int) list) \<times> World) option" where
  "try_scatter lc home i retval [] w = Some ((retval, []), w)"
| "try_scatter lc home i retval (s # servers) w =
     (if int s = home then do {
        ((retval, rs), w) \<leftarrow> try_scatter lc home i retval servers w;
        Some ((retval, (s, OK) # rs), w)
      }
      else do {
        (r, w) \<leftarrow> fosDoRmdir lc (int s) i RMDIR_TRY w;
        ((retval, rs), w) \<leftarrow> try_scatter lc home i (if r \<noteq> OK then r else retval) servers w;
        Some ((retval, (s, r) # rs), w)
      })"

text \<open>The two phases for a directory that all servers share: whether it was removed, and the status to return.\<close>

definition rmdir_shared :: "ClientConf \<Rightarrow> InodeType \<Rightarrow> World \<Rightarrow> ((bool \<times> int) \<times> World) option" where
  "rmdir_shared lc child w = do {
     let all = [0..<lc_count lc];
     (retval, w) \<leftarrow> rmdir_try lc (ino_server child) (ino_id child) w;
     if retval \<noteq> OK then Some ((False, retval), w)
     else if lc_rm_scatter_gather lc then do {
       ((retval, rs), w) \<leftarrow> try_scatter lc (ino_server child) (ino_id child) retval all w;
       let action = (if retval = OK then RMDIR_SUCCESS else RMDIR_FAIL);
       w \<leftarrow> tell_all lc (ino_id child) action (map fst (filter (\<lambda>(s, r). r \<noteq> NOT_EMPTY) rs)) w;
       Some ((action = RMDIR_SUCCESS, retval), w)
     }
     else do {
       ((retval, contacted), w) \<leftarrow> try_others lc (ino_server child) (ino_id child) retval all w;
       let action = (if retval = OK then RMDIR_SUCCESS else RMDIR_FAIL);
       w \<leftarrow> tell_all lc (ino_id child) action [0..<contacted] w;
       if action = RMDIR_FAIL \<and> int contacted < ino_server child
       then do {
         (retval, w) \<leftarrow> fosDoRmdir lc (ino_server child) (ino_id child) action w;
         if retval = OK then Some ((False, retval), w) else None
       }
       else Some ((action = RMDIR_SUCCESS, retval), w)
     }
   }"

definition fosRmdir :: "ClientConf \<Rightarrow> InodeType \<Rightarrow> string \<Rightarrow> World \<Rightarrow> (int \<times> World) option" where
  "fosRmdir lc parent path w =
     (if path = [] then None
      else do {
        let path = (if last path = CHR ''/'' then butlast path else path);
        ((retval, path, parent, _), w) \<leftarrow> fosLookupParent lc parent path False w;
        if retval \<noteq> OK then Some (retval, w)
        else do {
          dir_entry_server \<leftarrow> fosPathOwner (lc_count lc) parent path;
          ((retval, child, _), w) \<leftarrow> fosLookup lc parent path False w;
          if retval \<noteq> OK then Some (retval, w)
          else do {
            let done = (\<lambda>retval w. if lc_cache lc \<and> retval = OK
              then DirCache_remove child ''..'' (DirCache_remove parent path w) else w);
            if ino_type child \<noteq> TYPE_DIR_SHARED
            then if dir_entry_server = ino_server child then do {
                (retval, w) \<leftarrow> fosRmdirAndMap lc (ino_server child) (ino_id child) parent path w;
                Some (retval, done retval w)
              }
              else do {
                (retval, w) \<leftarrow> fosDoRmdir lc (ino_server child) (ino_id child) RMDIR_FORCE w;
                if retval \<noteq> OK then Some (retval, w)
                else do {
                  (retval, w) \<leftarrow> fosRemoveMap lc dir_entry_server parent path w;
                  if retval = OK then Some (retval, done retval w) else None
                }
              }
            else do {
              ((removed, retval), w) \<leftarrow> rmdir_shared lc child w;
              if \<not> removed then Some (retval, w)
              else do {
                (retval, w) \<leftarrow> fosRemoveMap lc dir_entry_server parent path w;
                Some (retval, done retval w)
              }
            }
          }
        }
      })"

text \<open>Creation affinity: when the server \<open>s\<close> is on another socket than the client, its own server is chosen.\<close>

definition creation_server :: "ClientConf \<Rightarrow> int \<Rightarrow> int \<Rightarrow> int option" where
  "creation_server lc s chosen =
     (if \<not> lc_creation_affinity lc then Some chosen
      else let n = int (length (lc_socket_map lc)); d = lc_dest_server lc
      in if s < 0 \<or> n \<le> s \<or> d < 0 \<or> n \<le> d then None
         else Some (if lc_socket_map lc ! nat s \<noteq> lc_socket_map lc ! nat d then d else chosen))"

definition fosMkdir :: "ClientConf \<Rightarrow> InodeType \<Rightarrow> string \<Rightarrow> u32 \<Rightarrow> World \<Rightarrow> (int \<times> World) option" where
  "fosMkdir lc parent path mode w =
     (if ino_id parent = 0 \<and> path = ''/'' then Some (OK, w)
      else if path = ''.'' then Some (OK, w)
      else if path = [] then None
      else do {
        let path = (if last path = CHR ''/'' then butlast path else path);
        ((retval, path, parent, _), w) \<leftarrow> fosLookupParent lc parent path False w;
        if retval \<noteq> OK then Some (retval, w)
        else do {
          dir_entry_server \<leftarrow> fosPathOwner (lc_count lc) parent path;
          inode_server \<leftarrow>
            (if ino_type parent = TYPE_DIR_SHARED then Some dir_entry_server
             else let s = int (fosPathHashDirect (lc_count lc) path) in creation_server lc s s);
          ((retval, child), w) \<leftarrow> fosCreate lc inode_server parent path O_DIRECTORY mode w;
          if retval \<noteq> OK then Some (retval, w)
          else do {
            child \<leftarrow> child;
            dot_dot \<leftarrow> (if ino_type child = TYPE_DIR_SHARED then fosPathOwner (lc_count lc) child ''..''
                        else Some inode_server);
            (retval, w) \<leftarrow>
              (if dot_dot \<noteq> inode_server then do {
                 ((retval, _), w) \<leftarrow> fosAddMap lc dot_dot child ''..'' parent False w;
                 if retval = OK then Some (retval, w) else None
               }
               else Some (retval, w));
            if ino_type parent \<noteq> TYPE_DIR then Some (retval, w)
            else if ino_server parent \<noteq> inode_server then do {
              ((retval, _), w) \<leftarrow> fosAddMap lc (ino_server parent) parent path child False w;
              if retval \<noteq> OK then do {
                (_, w) \<leftarrow> fosDestroy lc inode_server (ino_id child) w;
                Some (retval, w)
              }
              else Some (retval, w)
            }
            else Some (retval, DirCache_add parent path child w)
          }
        }
      })"

text \<open>The walk of \<^verbatim>\<open>fosRename\<close> from the new parent to the root: does it meet the directory being moved?\<close>

partial_function (option) meets :: "ClientConf \<Rightarrow> nat \<Rightarrow> InodeType \<Rightarrow> World \<Rightarrow> (bool \<times> World) option" where
  "meets lc child p w =
     (if ino_id p = 0 then Some (False, w)
      else do {
        server \<leftarrow> fosPathOwner (lc_count lc) p ''..'';
        ((retval, p), w) \<leftarrow> fosResolve lc (p\<lparr>ino_server := server\<rparr>) ''..'' p w;
        if retval \<noteq> OK then None
        else if ino_id p = child then Some (True, w)
        else meets lc child p w
      })"

text \<open>The parent of a path that has a separator.\<close>

definition rename_parent :: "ClientConf \<Rightarrow> InodeType \<Rightarrow> string \<Rightarrow> World \<Rightarrow> ((int \<times> string \<times> InodeType) \<times> World) option" where
  "rename_parent lc parent path w =
     (if CHR ''/'' \<in> set path then do {
        ((retval, path, parent, _), w) \<leftarrow> fosLookupParent lc parent path False w;
        Some ((retval, path, parent), w)
      }
      else Some ((OK, path, parent), w))"

text \<open>The part of \<^verbatim>\<open>fosRename\<close> that acts: the new name, the old name, the inode the new name had, and \<^verbatim>\<open>..\<close>.\<close>

definition rename_act ::
    "ClientConf \<Rightarrow> InodeType \<Rightarrow> string \<Rightarrow> InodeType \<Rightarrow> string \<Rightarrow> InodeType \<Rightarrow> World \<Rightarrow> (int \<times> World) option" where
  "rename_act lc old_parent oldpath new_parent newpath child w = do {
     dot_dot_server \<leftarrow> (if ino_type child = TYPE_DIR \<or> ino_type child = TYPE_DIR_SHARED
        then fosPathOwner (lc_count lc) child ''..'' else Some 0);
     new_server \<leftarrow> fosPathOwner (lc_count lc) new_parent newpath;
     old_server \<leftarrow> fosPathOwner (lc_count lc) old_parent oldpath;
     ((retval, exist), w) \<leftarrow>
       (if new_server = old_server
        then fosUpdateMap lc new_server new_parent newpath child True old_parent oldpath w
        else fosAddMap lc new_server new_parent newpath child True w);
     let destroy = (retval = EXIST);
     if \<not> destroy \<and> retval \<noteq> OK then None
     else do {
       (retval, w) \<leftarrow> (if new_server \<noteq> old_server then fosRemoveMap lc old_server old_parent oldpath w else Some (OK, w));
       if retval \<noteq> OK then None
       else do {
         let w = (if lc_cache lc then DirCache_remove old_parent oldpath w else w);
         (retval, w) \<leftarrow>
           (if destroy then do { exist \<leftarrow> exist; fosDestroy lc (ino_server exist) (ino_id exist) w }
            else Some (retval, w));
         if retval \<noteq> OK then None
         else if ino_type child = TYPE_DIR then do {
           ((retval, _), w) \<leftarrow> fosAddMap lc dot_dot_server child ''..'' new_parent True w;
           if retval = OK \<or> retval = EXIST then Some (OK, w) else None
         }
         else Some (retval, w)
       }
     }
   }"

text \<open>A failed look-up of the old name returns \<^verbatim>\<open>1\<close>: the comparison is assigned, not the status.\<close>

definition fosRename :: "ClientConf \<Rightarrow> InodeType \<Rightarrow> string \<Rightarrow> string \<Rightarrow> World \<Rightarrow> (int \<times> World) option" where
  "fosRename lc parent oldpath newpath w = do {
     ((retval, oldpath, old_parent), w) \<leftarrow> rename_parent lc parent oldpath w;
     if retval \<noteq> OK then Some (retval, w)
     else do {
       ((retval, newpath, new_parent), w) \<leftarrow> rename_parent lc parent newpath w;
       if retval \<noteq> OK then Some (retval, w)
       else do {
         ((retval, child, _), w) \<leftarrow> fosLookup lc old_parent oldpath False w;
         if retval \<noteq> OK then Some (1, w)
         else if ino_type child = TYPE_DIR \<or> ino_type child = TYPE_DIR_SHARED
         then if ino_id new_parent = ino_id child then Some (INVALID, w)
           else do {
             (inside, w) \<leftarrow> meets lc (ino_id child) new_parent w;
             if inside then Some (INVALID, w)
             else rename_act lc old_parent oldpath new_parent newpath child w
           }
         else rename_act lc old_parent oldpath new_parent newpath child w
       }
     }
   }"

definition fosFileSymlink :: "ClientConf \<Rightarrow> InodeType \<Rightarrow> string \<Rightarrow> string \<Rightarrow> World \<Rightarrow> (int \<times> World) option" where
  "fosFileSymlink lc parent path dest w =
     (if path = [] then Some (NOT_FOUND, w)
      else do {
        ((retval, path, parent, _), w) \<leftarrow> fosLookupParent lc parent path False w;
        if retval \<noteq> OK then Some (retval, w)
        else do {
          server \<leftarrow> fosPathOwner (lc_count lc) parent path;
          let req = \<lparr>sy_parent_id = ino_id parent, sy_separator = length path + 1, sy_paths = c_string path @ c_string dest\<rparr>;
          rpc lc server (\<lambda>cf envs chan. marshall_symlink cf envs req) w
        }
      })"

definition fosChmod :: "ClientConf \<Rightarrow> InodeType \<Rightarrow> string \<Rightarrow> u32 \<Rightarrow> World \<Rightarrow> (int \<times> World) option" where
  "fosChmod lc parent path mode w = do {
     ((retval, child, _), w) \<leftarrow> fosLookup lc parent path False w;
     if retval \<noteq> OK then Some (retval, w)
     else rpc lc (ino_server child) (\<lambda>cf envs chan. marshall_chmod cf envs \<lparr>mq_inode = ino_id child, mq_mode = mode\<rparr>) w
   }"

definition fosChown :: "ClientConf \<Rightarrow> InodeType \<Rightarrow> string \<Rightarrow> nat \<Rightarrow> nat \<Rightarrow> World \<Rightarrow> (int \<times> World) option" where
  "fosChown lc parent path uid gid w = do {
     ((retval, child, _), w) \<leftarrow> fosLookup lc parent path False w;
     if retval \<noteq> OK then Some (retval, w)
     else rpc lc (ino_server child)
       (\<lambda>cf envs chan. marshall_chown cf envs \<lparr>oq_inode = ino_id child, oq_uid = uid, oq_gid = gid\<rparr>) w
   }"

definition fosFileDup :: "ClientConf \<Rightarrow> int \<Rightarrow> nat \<Rightarrow> World \<Rightarrow> (int \<times> World) option" where
  "fosFileDup lc server fd w = do {
     (reply, w) \<leftarrow> rpc lc server (\<lambda>cf envs chan. marshall_dup cf envs fd) w;
     Some (du_retval reply, w)
   }"

text \<open>\<^verbatim>\<open>fosDoReadlink\<close>: the return value and the characters copied.\<close>

definition fosDoReadlink :: "ClientConf \<Rightarrow> InodeType \<Rightarrow> nat \<Rightarrow> World \<Rightarrow> ((int \<times> string) \<times> World) option" where
  "fosDoReadlink lc inode bufsiz w = do {
     let bufsiz = min bufsiz (cf_max_fname_len (lc_fs lc));
     (reply, w) \<leftarrow> rpc lc (ino_server inode) (\<lambda>cf envs chan. marshall_readlink cf envs (ino_id inode)) w;
     if pr_retval reply \<noteq> OK then None
     else do {
       n \<leftarrow> pr_size reply;
       path \<leftarrow> pr_path reply;
       Some ((int (min n bufsiz), take bufsiz path), w)
     }
   }"

definition fosReadlink :: "ClientConf \<Rightarrow> InodeType \<Rightarrow> string \<Rightarrow> nat \<Rightarrow> World \<Rightarrow> ((int \<times> string) \<times> World) option" where
  "fosReadlink lc parent path bufsiz w = do {
     ((retval, child, _), w) \<leftarrow> fosLookup lc parent path False w;
     if retval \<noteq> OK then Some ((retval, []), w) else fosDoReadlink lc child bufsiz w
   }"

text \<open>\<^verbatim>\<open>fosTruncate\<close> follows a symbolic link by reading the link of \<^verbatim>\<open>parent\<close>.\<close>

partial_function (option) fosTruncate :: "ClientConf \<Rightarrow> InodeType \<Rightarrow> string \<Rightarrow> nat \<Rightarrow> World \<Rightarrow> (int \<times> World) option" where
  "fosTruncate lc parent path len w = do {
     ((retval, path, parent, _), w) \<leftarrow> fosLookupParent lc parent path False w;
     if retval \<noteq> OK then Some (retval, w)
     else do {
       ((retval, child, _), w) \<leftarrow> fosLookup lc parent path False w;
       if retval \<noteq> OK then Some (retval, w)
       else do {
         (retval, w) \<leftarrow> rpc lc (ino_server child)
           (\<lambda>cf envs chan. marshall_truncate cf envs \<lparr>tq_inode = ino_id child, tq_len = len\<rparr>) w;
         if retval = ISSYM then do {
           ((_, link_dest), w) \<leftarrow> fosDoReadlink lc parent (cf_max_fname_len (lc_fs lc)) w;
           fosTruncate lc parent link_dest len w
         }
         else Some (retval, w)
       }
     }
   }"

end
