(* ===== verification/Fs_Client_Io.thy ===== *)
theory Fs_Client_Io
  imports Fs_Client
begin

text \<open>
  Open files, directories and pipes in a client (\<open>sys/fs/lib/file.cpp\<close>, \<open>dir.cpp\<close>, \<open>pipe.cpp\<close>,
  \<open>buffer_cache.cpp\<close>, the descriptor calls and \<^verbatim>\<open>fosFileOpen\<close> of \<open>lib.cpp\<close>).

  With the buffer cache a client knows the blocks of the file and copies bytes from and to the shared
  memory itself; the server learns the size when the file is flushed.  Without it, or when the
  descriptor is shared with another process, the bytes travel in chunks through the server.
\<close>

unbundle bit_operations_syntax

section \<open>Calls on descriptors\<close>

definition fosFdRead :: "ClientConf \<Rightarrow> int \<Rightarrow> nat \<Rightarrow> nat \<Rightarrow> World \<Rightarrow> ((int \<times> u8 list \<times> nat) \<times> World) option" where
  "fosFdRead lc server fd cnt w = do {
     (reply, w) \<leftarrow> rpc lc server (\<lambda>cf envs chan. marshall_read cf envs \<lparr>rq_fd = fd, rq_count = cnt\<rparr>) w;
     if 2 ^ 63 \<le> rp_count reply then None
     else Some ((rp_retval reply, rp_data reply, rp_count reply), w)
   }"

definition fosFdWrite :: "ClientConf \<Rightarrow> int \<Rightarrow> nat \<Rightarrow> u8 list \<Rightarrow> World \<Rightarrow> ((int \<times> nat) \<times> World) option" where
  "fosFdWrite lc server fd data w = do {
     (reply, w) \<leftarrow> rpc lc server (\<lambda>cf envs chan. marshall_write cf envs
         \<lparr>wq_fd = fd, wq_count = length data, wq_data = data\<rparr>) w;
     Some ((wp_retval reply, wp_count reply), w)
   }"

definition fosFdClose :: "ClientConf \<Rightarrow> int \<Rightarrow> nat \<Rightarrow> int \<Rightarrow> nat \<Rightarrow> World \<Rightarrow> (int \<times> World) option" where
  "fosFdClose lc server fd offset filesize w = do {
     (retval, w) \<leftarrow> rpc lc server (\<lambda>cf envs chan. marshall_close cf envs
         \<lparr>cl_fd = fd, cl_offset = offset, cl_size = filesize\<rparr>) w;
     if retval = OK then Some (OK, w) else None
   }"

definition fosFdLseek :: "ClientConf \<Rightarrow> int \<Rightarrow> nat \<Rightarrow> int \<Rightarrow> int \<Rightarrow> World \<Rightarrow> (int \<times> World) option" where
  "fosFdLseek lc server fd offset whence w = do {
     (reply, w) \<leftarrow> rpc lc server (\<lambda>cf envs chan. marshall_lseek cf envs
         \<lparr>lq_fd = fd, lq_offset = nat (offset mod 2 ^ 64), lq_whence = whence\<rparr>) w;
     if lp_retval reply = OK then Some (to_ssize (lp_offset reply), w) else None
   }"

definition fosFdFlush :: "ClientConf \<Rightarrow> int \<Rightarrow> nat \<Rightarrow> nat \<Rightarrow> int \<Rightarrow> World \<Rightarrow> (int \<times> World) option" where
  "fosFdFlush lc server fd filesize offset w = do {
     (retval, w) \<leftarrow> rpc lc server (\<lambda>cf envs chan. marshall_flush cf envs
         \<lparr>fq_fd = fd, fq_size = filesize, fq_offset = offset\<rparr>) w;
     if retval = OK then Some (OK, w) else None
   }"

definition fosGetBlocklist :: "ClientConf \<Rightarrow> InodeType \<Rightarrow> nat \<Rightarrow> nat \<Rightarrow> World \<Rightarrow> (nat list \<times> World) option" where
  "fosGetBlocklist lc inode offset cnt w = do {
     (reply, w) \<leftarrow> rpc lc (ino_server inode) (\<lambda>cf envs chan. marshall_blocks cf envs
         \<lparr>bl_inode = ino_id inode, bl_offset = offset, bl_count = cnt\<rparr>) w;
     if br_retval reply = OK then Some (take cnt (br_blocks reply), w) else None
   }"

section \<open>The shared buffer memory\<close>

text \<open>The copies assert that they stay inside the memory.\<close>

definition fosBufferCacheCopyOut :: "ClientConf \<Rightarrow> nat \<Rightarrow> nat \<Rightarrow> fs_mem \<Rightarrow> u8 list option" where
  "fosBufferCacheCopyOut lc offset cnt m =
     (if offset + cnt \<le> cf_memory_size (lc_fs lc) then Some (map m [offset..<offset + cnt]) else None)"

definition fosBufferCacheCopyIn :: "ClientConf \<Rightarrow> nat \<Rightarrow> u8 list \<Rightarrow> fs_mem \<Rightarrow> fs_mem option" where
  "fosBufferCacheCopyIn lc offset src m =
     (if offset + length src \<le> cf_memory_size (lc_fs lc)
      then Some (\<lambda>x. if offset \<le> x \<and> x < offset + length src then src ! (x - offset) else m x) else None)"

definition fosBufferCacheClear :: "ClientConf \<Rightarrow> nat \<Rightarrow> nat \<Rightarrow> fs_mem \<Rightarrow> fs_mem option" where
  "fosBufferCacheClear lc offset cnt m =
     (if offset + cnt \<le> cf_memory_size (lc_fs lc)
      then Some (\<lambda>x. if offset \<le> x \<and> x < offset + cnt then 0 else m x) else None)"

section \<open>Files\<close>

record AppFile =
  af_inode :: InodeType
  af_fd :: nat
  af_size :: nat
  af_state :: nat
  af_offset :: nat
  af_blocks :: "nat list"

definition AppFile_new :: "InodeType \<Rightarrow> nat \<Rightarrow> AppFile" where
  "AppFile_new inode fd =
     \<lparr>af_inode = inode, af_fd = fd, af_size = 0, af_state = CACHE_INVALID, af_offset = 0, af_blocks = []\<rparr>"

text \<open>The loops that copy through the blocks of the file.\<close>

function cached_read_loop :: "ClientConf \<Rightarrow> nat list \<Rightarrow> fs_mem \<Rightarrow> nat \<Rightarrow> nat \<Rightarrow> u8 list option" where
  "cached_read_loop lc blocks m offset rest =
     (if rest = 0 then Some []
      else if cf_block_size (lc_fs lc) = 0 then None
      else let block_size = cf_block_size (lc_fs lc);
               block_offset = offset AND (block_size - 1);
               block_nr = offset div block_size;
               n = min (block_size - block_offset) rest
      in if length blocks \<le> block_nr then None
         else do {
           bs \<leftarrow> fosBufferCacheCopyOut lc (blocks ! block_nr + block_offset) n m;
           bs2 \<leftarrow> cached_read_loop lc blocks m (offset + n) (rest - n);
           Some (bs @ bs2)
         })"
  by pat_completeness auto
termination
proof (relation "measure (\<lambda>(lc, blocks, m, offset, rest). rest)")
  fix lc blocks m and offset rest x xa xb xc :: nat and bs
  assume *: "rest \<noteq> 0" "cf_block_size (lc_fs lc) \<noteq> 0" "x = cf_block_size (lc_fs lc)" "xa = offset AND (x - 1)"
    "xc = min (x - xa) rest"
  have "xa \<le> x - 1" unfolding *(4) by (rule and_nat_le)
  then show "((lc, blocks, m, offset + xc, rest - xc), lc, blocks, m, offset, rest)
      \<in> measure (\<lambda>(lc, blocks, m, offset, rest). rest)"
    using * by auto
qed auto

declare cached_read_loop.simps [simp del]

function cached_write_loop :: "ClientConf \<Rightarrow> nat list \<Rightarrow> nat \<Rightarrow> u8 list \<Rightarrow> fs_mem \<Rightarrow> fs_mem option" where
  "cached_write_loop lc blocks offset bs m =
     (if bs = [] then Some m
      else if cf_block_size (lc_fs lc) = 0 then None
      else let block_size = cf_block_size (lc_fs lc);
               block_offset = offset AND (block_size - 1);
               block_nr = offset div block_size;
               n = min (block_size - block_offset) (length bs)
      in if length blocks \<le> block_nr then None
         else do {
           m \<leftarrow> fosBufferCacheCopyIn lc (blocks ! block_nr + block_offset) (take n bs) m;
           cached_write_loop lc blocks (offset + n) (drop n bs) m
         })"
  by pat_completeness auto
termination
proof (relation "measure (\<lambda>(lc, blocks, offset, bs, m). length bs)")
  fix lc blocks and offset x xa xb xc :: nat and bs :: "u8 list" and m m' :: fs_mem
  assume *: "bs \<noteq> []" "cf_block_size (lc_fs lc) \<noteq> 0" "x = cf_block_size (lc_fs lc)" "xa = offset AND (x - 1)"
    "xc = min (x - xa) (length bs)"
  have "xa \<le> x - 1" unfolding *(4) by (rule and_nat_le)
  then show "((lc, blocks, offset + xc, drop xc bs, m'), lc, blocks, offset, bs, m)
      \<in> measure (\<lambda>(lc, blocks, offset, bs, m). length bs)"
    using * by auto
qed auto

declare cached_write_loop.simps [simp del]

text \<open>The loops through the server, a chunk at a time: the last status, and the bytes read or the number written.\<close>

function read_chunks :: "ClientConf \<Rightarrow> int \<Rightarrow> nat \<Rightarrow> nat \<Rightarrow> World \<Rightarrow> ((int \<times> u8 list) \<times> World) option" where
  "read_chunks lc server fd rest w =
     (if rest = 0 then Some ((OK, []), w)
      else do {
        ((ret, data, n), w) \<leftarrow> fosFdRead lc server fd (min rest (lc_chunk_size lc)) w;
        if ret \<noteq> OK then Some ((ret, []), w)
        else if n = 0 then Some ((OK, []), w)
        else if rest < n then None
        else do {
          ((ret, bs), w) \<leftarrow> read_chunks lc server fd (rest - n) w;
          Some ((ret, take n data @ bs), w)
        }
      })"
  by pat_completeness auto
termination
  by (relation "measure (\<lambda>(lc, server, fd, rest, w). rest)") auto

declare read_chunks.simps [simp del]

function write_chunks :: "ClientConf \<Rightarrow> int \<Rightarrow> nat \<Rightarrow> u8 list \<Rightarrow> World \<Rightarrow> ((int \<times> nat) \<times> World) option" where
  "write_chunks lc server fd bs w =
     (if bs = [] then Some ((OK, 0), w)
      else do {
        ((ret, n), w) \<leftarrow> fosFdWrite lc server fd (take (min (length bs) (lc_chunk_size lc)) bs) w;
        if ret \<noteq> OK then Some ((ret, 0), w)
        else if n = 0 then Some ((OK, 0), w)
        else do {
          ((ret, written), w) \<leftarrow> write_chunks lc server fd (drop n bs) w;
          Some ((ret, n + written), w)
        }
      })"
  by pat_completeness auto
termination
  by (relation "measure (\<lambda>(lc, server, fd, bs, w). length bs)") auto

declare write_chunks.simps [simp del]

text \<open>The \<^verbatim>\<open>uint64_t\<close> that a read or a write returns: a count, or a negative status converted.\<close>

definition io_result :: "int \<Rightarrow> nat \<Rightarrow> nat" where
  "io_result ret n = (if n \<noteq> 0 then n else nat (ret mod 2 ^ 64))"

abbreviation touch :: "AppFile \<Rightarrow> AppFile" where
  "touch af \<equiv> (if af_state af = CACHE_SHARED then af\<lparr>af_state := CACHE_EXCLUSIVE\<rparr> else af)"

definition AppFile_read :: "ClientConf \<Rightarrow> nat \<Rightarrow> AppFile \<Rightarrow> World \<Rightarrow> ((nat \<times> u8 list) \<times> AppFile \<times> World) option" where
  "AppFile_read lc cnt af w =
     (let af = touch af
      in if lc_buffer_cache lc \<and> af_state af \<noteq> CACHE_INVALID
         then if af_offset af < af_size af
           then do {
             let cnt = (if size_t (af_offset af + cnt) > af_size af then af_size af - af_offset af else cnt);
             bs \<leftarrow> cached_read_loop lc (af_blocks af) (wd_memory w) (af_offset af) cnt;
             Some ((length bs, bs), af\<lparr>af_offset := af_offset af + cnt\<rparr>, w)
           }
           else Some ((0, []), af, w)
         else do {
           ((ret, bs), w) \<leftarrow> read_chunks lc (ino_server (af_inode af)) (af_fd af) cnt w;
           Some ((io_result ret (length bs), bs), af, w)
         })"

text \<open>\<^verbatim>\<open>File::blocks\<close> stores block numbers from a position on.\<close>

fun AppFile_blocks :: "nat \<Rightarrow> nat list \<Rightarrow> nat list \<Rightarrow> nat list" where
  "AppFile_blocks k [] bs = bs"
| "AppFile_blocks k (b # next) bs = AppFile_blocks (k + 1) next (if k < length bs then bs[k := b] else bs @ [b])"

definition AppFile_truncate :: "ClientConf \<Rightarrow> nat \<Rightarrow> AppFile \<Rightarrow> World \<Rightarrow> (int \<times> AppFile \<times> World) option" where
  "AppFile_truncate lc len af w = do {
     let af = (if lc_buffer_cache lc then af\<lparr>af_size := len, af_offset := min (af_offset af) len\<rparr> else af);
     (retval, w) \<leftarrow> fosTruncate lc (af_inode af) [] len w;
     Some (retval, af, w)
   }"

text \<open>The new blocks of a file that grows are fetched from the server and cleared, at most 4096 at a time.\<close>

fun clear_blocks :: "ClientConf \<Rightarrow> nat list \<Rightarrow> fs_mem \<Rightarrow> fs_mem option" where
  "clear_blocks lc [] m = Some m"
| "clear_blocks lc (b # bs) m = do {
     m \<leftarrow> fosBufferCacheClear lc b (cf_block_size (lc_fs lc)) m;
     clear_blocks lc bs m
   }"

function fetch_blocks :: "ClientConf \<Rightarrow> nat \<Rightarrow> nat \<Rightarrow> AppFile \<Rightarrow> World \<Rightarrow> (AppFile \<times> World) option" where
  "fetch_blocks lc additional_blocks cached_size af w =
     (if additional_blocks = 0 then Some (af, w)
      else do {
        let block_size = cf_block_size (lc_fs lc);
        let block_offset = (if cached_size mod block_size > 0 then cached_size div block_size + 1
                            else cached_size div block_size);
        let new_blocks = min additional_blocks 4096;
        (blocklist, w) \<leftarrow> fosGetBlocklist lc (af_inode af) block_offset new_blocks w;
        m \<leftarrow> clear_blocks lc blocklist (wd_memory w);
        fetch_blocks lc (additional_blocks - new_blocks) (cached_size + new_blocks * block_size)
          (af\<lparr>af_blocks := AppFile_blocks block_offset blocklist (af_blocks af)\<rparr>) (w\<lparr>wd_memory := m\<rparr>)
      })"
  by pat_completeness auto
termination
  by (relation "measure (\<lambda>(lc, additional_blocks, cached_size, af, w). additional_blocks)") auto

declare fetch_blocks.simps [simp del]

text \<open>Sizes are kept in an \<^verbatim>\<open>int\<close> here.  The status of the truncation is ignored.\<close>

definition cached_grow :: "ClientConf \<Rightarrow> nat \<Rightarrow> AppFile \<Rightarrow> World \<Rightarrow> (AppFile \<times> World) option" where
  "cached_grow lc cnt af w =
     (let block_size = cf_block_size (lc_fs lc);
          left_in_block = (if af_size af mod block_size = 0 then 0 else block_size - af_size af mod block_size);
          cached_size = af_size af;
          new_size = af_offset af + cnt
      in if block_size = 0 \<or> 2 ^ 31 \<le> cached_size + left_in_block \<or> 2 ^ 31 \<le> new_size then None
      else if new_size > cached_size + left_in_block
      then do {
        let additional_bytes = new_size - left_in_block - cached_size;
        let additional_blocks = (if additional_bytes mod block_size \<noteq> 0 then additional_bytes div block_size + 1
                                 else additional_bytes div block_size);
        (_, af, w) \<leftarrow> AppFile_truncate lc new_size af w;
        fetch_blocks lc additional_blocks cached_size af w
      }
      else Some (af, w))"

definition AppFile_write :: "ClientConf \<Rightarrow> u8 list \<Rightarrow> AppFile \<Rightarrow> World \<Rightarrow> (nat \<times> AppFile \<times> World) option" where
  "AppFile_write lc bs af w =
     (let af = touch af
      in if lc_buffer_cache lc \<and> af_state af \<noteq> CACHE_INVALID
         then do {
           (af, w) \<leftarrow> cached_grow lc (length bs) af w;
           let af = af\<lparr>af_size := max (af_size af) (af_offset af + length bs)\<rparr>;
           m \<leftarrow> cached_write_loop lc (af_blocks af) (af_offset af) bs (wd_memory w);
           Some (length bs, af\<lparr>af_offset := af_offset af + length bs\<rparr>, w\<lparr>wd_memory := m\<rparr>)
         }
         else do {
           ((ret, n), w) \<leftarrow> write_chunks lc (ino_server (af_inode af)) (af_fd af) bs w;
           let r = io_result ret n;
           Some (r, if ret \<noteq> OK then af else af\<lparr>af_offset := size_t (af_offset af + n)\<rparr>, w)
         })"

definition AppFile_flush :: "ClientConf \<Rightarrow> AppFile \<Rightarrow> World \<Rightarrow> World option" where
  "AppFile_flush lc af w =
     (if lc_buffer_cache lc
      then map_option snd (fosFdFlush lc (ino_server (af_inode af)) (af_fd af) (af_size af) (to_ssize (af_offset af)) w)
      else Some w)"

definition AppFile_state :: "ClientConf \<Rightarrow> nat \<Rightarrow> AppFile \<Rightarrow> World \<Rightarrow> (AppFile \<times> World) option" where
  "AppFile_state lc state af w = do {
     w \<leftarrow> (if state = CACHE_INVALID \<and> af_state af = CACHE_EXCLUSIVE then AppFile_flush lc af w else Some w);
     Some (af\<lparr>af_state := state\<rparr>, w)
   }"

text \<open>\<^verbatim>\<open>File::close\<close>: the state is invalid before it is looked at, so the descriptor's offset and size are not sent.\<close>

definition AppFile_close :: "ClientConf \<Rightarrow> AppFile \<Rightarrow> World \<Rightarrow> (int \<times> World) option" where
  "AppFile_close lc af w = do {
     (af, w) \<leftarrow> AppFile_state lc CACHE_INVALID af w;
     let (offset, filesize) = (if lc_buffer_cache lc \<and> af_state af \<noteq> CACHE_INVALID
                               then (to_ssize (af_offset af), af_size af) else (- 1, SIZE_MAX));
     fosFdClose lc (ino_server (af_inode af)) (af_fd af) offset filesize w
   }"

definition AppFile_lseek :: "ClientConf \<Rightarrow> int \<Rightarrow> int \<Rightarrow> AppFile \<Rightarrow> World \<Rightarrow> (int \<times> AppFile \<times> World) option" where
  "AppFile_lseek lc offset whence af w =
     (if lc_buffer_cache lc \<and> af_state af \<noteq> CACHE_INVALID
      then do {
        offset \<leftarrow>
          (if whence = SEEK_SET then Some offset
           else if whence = SEEK_CUR then Some (offset + int (af_offset af))
           else if whence = SEEK_END then Some (int (af_size af) + offset)
           else if whence = SEEK_DATA then Some (int (af_offset af))
           else if whence = SEEK_HOLE then Some (int (af_size af))
           else None);
        let o' = nat (offset mod 2 ^ 64);
        Some (to_ssize o', af\<lparr>af_offset := o'\<rparr>, w)
      }
      else do {
        (r, w) \<leftarrow> fosFdLseek lc (ino_server (af_inode af)) (af_fd af) offset whence w;
        Some (r, af, w)
      })"

function cache_blocks :: "ClientConf \<Rightarrow> nat \<Rightarrow> nat \<Rightarrow> AppFile \<Rightarrow> World \<Rightarrow> (AppFile \<times> World) option" where
  "cache_blocks lc blocks_read cnt af w =
     (if cnt \<le> blocks_read then Some (af, w)
      else do {
        let bc = min 4096 (cnt - blocks_read);
        (blocklist, w) \<leftarrow> fosGetBlocklist lc (af_inode af) blocks_read bc w;
        cache_blocks lc (blocks_read + bc) cnt (af\<lparr>af_blocks := AppFile_blocks blocks_read blocklist (af_blocks af)\<rparr>) w
      })"
  by pat_completeness auto
termination
  by (relation "measure (\<lambda>(lc, blocks_read, cnt, af, w). cnt - blocks_read)") auto

declare cache_blocks.simps [simp del]

definition AppFile_cache_blocks :: "ClientConf \<Rightarrow> AppFile \<Rightarrow> World \<Rightarrow> (AppFile \<times> World) option" where
  "AppFile_cache_blocks lc af w =
     (if \<not> lc_buffer_cache lc then Some (af, w)
      else let block_size = cf_block_size (lc_fs lc)
      in if block_size = 0 then None
         else cache_blocks lc 0 (if af_size af mod block_size \<noteq> 0 then af_size af div block_size + 1
                                 else af_size af div block_size) af w)"

section \<open>Directories\<close>

record AppDir =
  ad_inode :: InodeType
  ad_fd :: nat
  ad_offset :: nat
  ad_current_server :: int
  ad_dents :: "FauxDirent list"

definition AppDir_new :: "InodeType \<Rightarrow> nat \<Rightarrow> AppDir" where
  "AppDir_new inode fd =
     \<lparr>ad_inode = inode, ad_fd = fd, ad_offset = 0,
      ad_current_server = (if ino_type inode \<noteq> TYPE_DIR_SHARED then ino_server inode else 0), ad_dents = []\<rparr>"

section \<open>Opening\<close>

datatype AppObject = FileObject AppFile | DirObject AppDir

text \<open>The first part of \<^verbatim>\<open>fosFileOpen\<close>: the status, and unless it returns at once the flags, the directory, the name,
  the inode and whether it came from the cache.  Where the inode is still to be created only its server is set.\<close>

definition open_prepare ::
    "ClientConf \<Rightarrow> InodeType \<Rightarrow> string \<Rightarrow> u32 \<Rightarrow> u32 \<Rightarrow> World
     \<Rightarrow> ((int \<times> (u32 \<times> InodeType \<times> string \<times> InodeType \<times> bool) option) \<times> World) option" where
  "open_prepare lc parent path flags mode w =
     (if flags AND O_CREAT \<noteq> 0
      then if flags AND O_DIRECTORY \<noteq> 0 then Some ((INVALID, None), w)
      else do {
        ((retval, path, parent, cached), w) \<leftarrow> fosLookupParent lc parent path False w;
        if retval \<noteq> OK then Some ((retval, None), w)
        else do {
          dir_entry_server \<leftarrow> fosPathOwner (lc_count lc) parent path;
          let chosen = (if ino_type parent = TYPE_DIR_SHARED then dir_entry_server
                        else int (fosPathHashDirect (lc_count lc) path));
          server \<leftarrow> (if flags AND O_WRONLY = 0 then creation_server lc dir_entry_server chosen else Some chosen);
          let inode = \<lparr>ino_server = server, ino_id = 0, ino_type = TYPE_FILE\<rparr>;
          if server = dir_entry_server then Some ((OK, Some (flags, parent, path, inode, cached)), w)
          else do {
            ((retval, exist), w) \<leftarrow> fosCreate lc server parent path flags mode w;
            if retval = EXIST \<and> flags AND O_EXCL \<noteq> 0 then Some ((retval, None), w)
            else if retval = ISSYM then None
            else if retval \<noteq> EXIST \<and> retval \<noteq> OK then Some ((retval, None), w)
            else do {
              exist \<leftarrow> exist;
              if retval = EXIST then Some ((OK, Some (flags AND NOT O_CREAT, parent, path, exist, cached)), w)
              else do {
                let inode = inode\<lparr>ino_id := ino_id exist\<rparr>;
                ((retval, exist), w) \<leftarrow> fosAddMap lc dir_entry_server parent path inode False w;
                (retval, w) \<leftarrow>
                  (if retval = EXIST then do {
                     (retval, w) \<leftarrow> fosDestroy lc server (ino_id inode) w;
                     if retval = OK then Some (retval, w) else None
                   }
                   else Some (retval, w));
                exist \<leftarrow> exist;
                Some ((retval, Some (flags AND NOT O_CREAT, parent, path, exist, cached)), w)
              }
            }
          }
        }
      }
      else do {
        ((retval, path, parent, _), w) \<leftarrow> fosLookupParent lc parent path False w;
        if retval \<noteq> OK then Some ((retval, None), w)
        else do {
          ((retval, inode, cached), w) \<leftarrow> fosLookup lc parent path False w;
          Some ((retval, Some (flags, parent, path, inode, cached)), w)
        }
      })"

text \<open>The call that opens the inode: the status, the flags, the inode with its type, and the reply.\<close>

definition open_attempt ::
    "ClientConf \<Rightarrow> u32 \<Rightarrow> u32 \<Rightarrow> InodeType \<Rightarrow> string \<Rightarrow> InodeType \<Rightarrow> World
     \<Rightarrow> ((int \<times> u32 \<times> InodeType \<times> OpenReply option) \<times> World) option" where
  "open_attempt lc flags mode parent path inode w =
     (if ino_id parent = 0 \<and> path = ''/'' then None
      else if flags AND O_CREAT \<noteq> 0
      then do {
        (reply, w) \<leftarrow> fosCreateOpen lc (ino_server inode) parent path flags mode w;
        if ow_retval reply = EXIST
        then if flags AND O_EXCL \<noteq> 0 then Some ((EXIST, flags, inode, None), w)
        else do {
          exist \<leftarrow> ow_exist reply;
          let flags = flags AND NOT O_CREAT;
          if ino_server exist \<noteq> ino_server inode then do {
            (reply, w) \<leftarrow> fosOpen lc exist flags w;
            Some ((ow_retval reply, flags, exist, Some reply), w)
          }
          else Some ((OK, flags, exist, Some reply), w)
        }
        else Some ((ow_retval reply, flags, case ow_exist reply of Some exist \<Rightarrow> exist | None \<Rightarrow> inode, Some reply), w)
      }
      else do {
        (reply, w) \<leftarrow> fosOpen lc inode flags w;
        Some ((ow_retval reply, flags, inode, Some reply), w)
      })"

text \<open>The object for an opened inode.\<close>

definition open_object :: "ClientConf \<Rightarrow> u32 \<Rightarrow> InodeType \<Rightarrow> OpenReply \<Rightarrow> World \<Rightarrow> (AppObject \<times> World) option" where
  "open_object lc flags inode reply w = do {
     ty \<leftarrow> ow_type reply;
     fd \<leftarrow> ow_fd reply;
     let inode = inode\<lparr>ino_type := ty\<rparr>;
     if ty = TYPE_FILE then do {
       filesize \<leftarrow> ow_size reply;
       state \<leftarrow> ow_state reply;
       (af, w) \<leftarrow> AppFile_cache_blocks lc ((AppFile_new inode fd)\<lparr>af_size := filesize\<rparr>) w;
       let af = af\<lparr>af_state := state\<rparr>;
       Some (FileObject (if flags AND O_APPEND \<noteq> 0 then af\<lparr>af_offset := filesize\<rparr> else af), w)
     }
     else if ty = TYPE_DIR \<or> ty = TYPE_DIR_SHARED then Some (DirObject (AppDir_new inode fd), w)
     else None
   }"

definition fosFileOpen ::
    "ClientConf \<Rightarrow> InodeType \<Rightarrow> string \<Rightarrow> u32 \<Rightarrow> u32 \<Rightarrow> World \<Rightarrow> ((int \<times> AppObject option) \<times> World) option" where
  "fosFileOpen lc save_parent save_path flags mode w = do {
     ((retval, next), w) \<leftarrow> open_prepare lc save_parent save_path flags mode w;
     case next of
       None \<Rightarrow> Some ((retval, None), w)
     | Some (flags, parent, path, inode, cached) \<Rightarrow>
         if retval \<noteq> OK then Some ((retval, None), w)
         else do {
           ((retval, flags, inode, reply), w) \<leftarrow> open_attempt lc flags mode parent path inode w;
           ((retval, flags, inode, reply), w) \<leftarrow>
             (if lc_cache lc \<and> cached \<and> flags AND O_CREAT = 0 \<and> retval = NOT_FOUND
              then do {
                w \<leftarrow> fosClearCache lc save_parent save_path w;
                ((retval, inode, _), w) \<leftarrow> fosLookup lc save_parent save_path cached w;
                if retval \<noteq> OK then Some ((retval, flags, inode, None), w)
                else open_attempt lc flags mode parent path inode w
              }
              else Some ((retval, flags, inode, reply), w));
           if retval \<noteq> OK then Some ((retval, None), w)
           else do {
             reply \<leftarrow> reply;
             (obj, w) \<leftarrow> open_object lc flags inode reply w;
             let inode = (case ow_type reply of Some ty \<Rightarrow> inode\<lparr>ino_type := ty\<rparr> | None \<Rightarrow> inode);
             Some ((OK, Some obj), if lc_cache lc \<and> flags AND O_CREAT \<noteq> 0 then DirCache_add parent path inode w else w)
           }
         }
   }"

section \<open>Listing directories\<close>

text \<open>Sub-directories of a listing enter the cache; their server is computed from the number.  Then the type that
  marks shared directories is shown as a directory.\<close>

definition cache_dent :: "InodeType \<Rightarrow> FauxDirent \<Rightarrow> World \<Rightarrow> World" where
  "cache_dent parent e w =
     (if (d_type e = DT_DIR \<or> d_type e = DT_BLK) \<and> take 1 (d_name e) \<noteq> ''.''
      then DirCache_add parent (d_name e)
        \<lparr>ino_server = c_int (int (drop_bit INODE_SHIFT (d_ino e))), ino_id = d_ino e,
         ino_type = (if d_type e = DT_DIR then TYPE_DIR else TYPE_DIR_SHARED)\<rparr> w
      else w)"

definition show_dent :: "FauxDirent \<Rightarrow> FauxDirent" where
  "show_dent e = (if d_type e = DT_BLK then e\<lparr>d_type := DT_DIR\<rparr> else e)"

text \<open>\<^verbatim>\<open>fosDirent\<close>: the status, the entries, their size and whether there are more.\<close>

definition fosDirent ::
    "ClientConf \<Rightarrow> InodeType \<Rightarrow> nat \<Rightarrow> nat \<Rightarrow> World \<Rightarrow> ((int \<times> FauxDirent list \<times> nat \<times> bool) \<times> World) option" where
  "fosDirent lc inode offset n w = do {
     let req = \<lparr>dq_inode = ino_id inode, dq_offset = offset, dq_size = min n (lc_chunk_size lc)\<rparr>;
     (reply, w) \<leftarrow> rpc lc (ino_server inode) (\<lambda>cf envs chan. marshall_direntry cf envs chan req) w;
     if dp_retval reply = - 1 \<or> dp_retval reply = - 2 then Some ((dp_retval reply, [], 0, False), w)
     else Some ((dp_retval reply, map show_dent (dp_buf reply), dp_size reply, dp_more reply),
                fold (cache_dent inode) (dp_buf reply) w)
   }"

text \<open>\<^verbatim>\<open>Dir::getdents64\<close> without the snapshot: the return value and the entries.  An unshared directory is read from
  its own server only; for a shared one the scan moves from server to server.  The source tests whether the current server
  equals the number of servers; it starts as a server and is only ever stepped up to that number, so it never passes it.\<close>

function AppDir_getdents64 ::
    "ClientConf \<Rightarrow> nat \<Rightarrow> AppDir \<Rightarrow> World \<Rightarrow> ((int \<times> FauxDirent list) \<times> AppDir \<times> World) option" where
  "AppDir_getdents64 lc n ad w =
     (if int (lc_count lc) \<le> ad_current_server ad then Some ((0, []), ad, w)
      else do {
        let dir = (ad_inode ad)\<lparr>ino_server := ad_current_server ad\<rparr>;
        let shared = (ino_type (ad_inode ad) = TYPE_DIR_SHARED);
        ((ret, dents, written, has_more), w) \<leftarrow> fosDirent lc dir (ad_offset ad) n w;
        let w = fold (cache_dent (ad_inode ad)) dents w;
        if \<not> shared \<and> ret = - 2 then None
        else if \<not> shared \<and> ret = - 1 then Some ((0, []), ad, w)
        else if ret = - 1 \<or> ret = - 2
        then (let ad = ad\<lparr>ad_current_server := ad_current_server ad + 1\<rparr>
              in if ad_current_server ad = int (lc_count lc) then Some ((0, []), ad, w)
                 else AppDir_getdents64 lc n (ad\<lparr>ad_offset := 0\<rparr>) w)
        else if ret < 0 then Some ((- 1, dents), ad, w)
        else Some ((int written, dents),
          if \<not> has_more
          then if shared then ad\<lparr>ad_current_server := ad_current_server ad + 1, ad_offset := 0\<rparr>
               else ad\<lparr>ad_current_server := int (lc_count lc)\<rparr>
          else ad\<lparr>ad_offset := ad_offset ad + nat ret\<rparr>, w)
      })"
  by pat_completeness auto
termination
  by (relation "measure (\<lambda>(lc, n, ad, w). nat (int (lc_count lc) - ad_current_server ad))") auto

declare AppDir_getdents64.simps [simp del]

section \<open>Pipes\<close>

record AppPipe =
  ap_inode :: InodeType
  ap_fd :: nat

definition fosPipeOpen :: "ClientConf \<Rightarrow> World \<Rightarrow> ((int \<times> (AppPipe \<times> AppPipe) option) \<times> World) option" where
  "fosPipeOpen lc w = do {
     (reply, w) \<leftarrow> rpc lc 0 (\<lambda>cf envs chan. marshall_pipe cf envs) w;
     let inode = \<lparr>ino_server = ino_server (pp_inode reply), ino_id = ino_id (pp_inode reply), ino_type = TYPE_PIPE\<rparr>;
     Some ((pp_retval reply,
            if pp_retval reply \<noteq> OK then None
            else Some (\<lparr>ap_inode = inode, ap_fd = pp_read_fd reply\<rparr>, \<lparr>ap_inode = inode, ap_fd = pp_write_fd reply\<rparr>)), w)
   }"

definition AppPipe_write :: "ClientConf \<Rightarrow> u8 list \<Rightarrow> AppPipe \<Rightarrow> World \<Rightarrow> (nat \<times> World) option" where
  "AppPipe_write lc bs ap w = do {
     ((ret, n), w) \<leftarrow> write_chunks lc (ino_server (ap_inode ap)) (ap_fd ap) bs w;
     Some (io_result ret n, w)
   }"

end
