(* ===== verification/Fs_Client_Dirs.thy ===== *)
theory Fs_Client_Dirs
  imports Fs_Dirs Fs_Client_Io
begin

text \<open>
  Directories seen by a client: remote calls as changes of the servers' directories, look-up of a
  name through the cache, and renaming.
\<close>

section \<open>Remote calls\<close>

text \<open>What a server holds beside its directories, without the memory all of them share.\<close>

definition fs_core :: "FS \<Rightarrow> (nat \<rightharpoonup> VFile) \<times> (nat \<rightharpoonup> VFile) \<times> (nat \<times> FileDescriptor) list \<times> BufferCache \<times> nat" where
  "fs_core fs = (fs_objects fs, fs_pipes fs, fs_fds fs, fs_cache fs, fs_id fs)"

lemma view_memory [simp]:
  "fs_entries (fs\<lparr>fs_memory := m\<rparr>) = fs_entries fs" "fs_present (fs\<lparr>fs_memory := m\<rparr>) = fs_present fs"
  "fs_usable (fs\<lparr>fs_memory := m\<rparr>) = fs_usable fs" "fs_objects (fs\<lparr>fs_memory := m\<rparr>) = fs_objects fs"
  by (rule view_cong, simp)+

lemma fs_room_memory [simp]: "fs_room (fs\<lparr>fs_memory := m\<rparr>) = fs_room fs"
  by (simp add: fs_room_def)

lemma fs_core_memory [simp]: "fs_core (fs\<lparr>fs_memory := m\<rparr>) = fs_core fs"
  by (simp add: fs_core_def)

lemma fs_rest_core: "fs_rest fs' = fs_rest fs \<longleftrightarrow> fs_core fs' = fs_core fs \<and> fs_memory fs' = fs_memory fs"
  by (auto simp: fs_rest_def fs_core_def)

definition in_range :: "World \<Rightarrow> int \<Rightarrow> bool" where
  "in_range w s \<longleftrightarrow> 0 \<le> s \<and> nat s < length (wd_servers w)"

abbreviation srv :: "World \<Rightarrow> int \<Rightarrow> FS" where
  "srv w s \<equiv> wd_servers w ! nat s"

text \<open>The change a call makes at one server.\<close>

definition changed :: "World \<Rightarrow> World \<Rightarrow> int \<Rightarrow> (nat \<Rightarrow> string \<rightharpoonup> InodeType) \<Rightarrow> (nat \<Rightarrow> bool) \<Rightarrow> bool" where
  "changed w w' s es ps \<longleftrightarrow>
     (\<exists>fs'. wd_servers w' = (wd_servers w)[nat s := fs'] \<and> fs_entries fs' = es \<and> fs_present fs' = ps
        \<and> fs_usable fs' = fs_usable (srv w s) \<and> fs_core fs' = fs_core (srv w s))
     \<and> wd_memory w' = wd_memory w \<and> wd_chan w' = wd_chan w"

lemma rpc_step:
  assumes "in_range w s" "h (lc_fs lc) (lc_env lc (wd_clock w)) (wd_chan w) ((srv w s)\<lparr>fs_memory := wd_memory w\<rparr>) = Some (r, fs')"
  shows "rpc lc s h w = Some (r, w\<lparr>wd_servers := (wd_servers w)[nat s := fs'], wd_memory := fs_memory fs', wd_clock := wd_clock w + 1\<rparr>)"
  using assms by (simp add: rpc_def in_range_def not_less)

lemma changedI:
  assumes "fs_rest fs' = fs_rest ((srv w s)\<lparr>fs_memory := wd_memory w\<rparr>)" "fs_usable fs' = fs_usable (srv w s)"
  shows "changed w (w\<lparr>wd_servers := (wd_servers w)[nat s := fs'], wd_memory := fs_memory fs', wd_clock := k\<rparr>) s
           (fs_entries fs') (fs_present fs')"
proof -
  have "fs_core fs' = fs_core (srv w s)" "fs_memory fs' = wd_memory w"
    using assms(1) unfolding fs_rest_core by simp_all
  then show ?thesis using assms(2) by (auto simp: changed_def)
qed

lemma changed_cache [simp]: "changed w (w'\<lparr>wd_cache := c\<rparr>) s es ps = changed w w' s es ps"
  by (simp add: changed_def)

lemma fosRemoveMap_law:
  assumes "in_range w s" "fs_present (srv w s) (ino_id p)" "name_ok n" "c_ok n"
  shows "\<exists>w'. fosRemoveMap lc s p n w = Some (if fs_entries (srv w s) (ino_id p) n = None then NOT_FOUND else OK, w')
     \<and> changed w w' s ((fs_entries (srv w s))(ino_id p := (fs_entries (srv w s) (ino_id p))(n := None))) (fs_present (srv w s))
     \<and> wd_cache w' = wd_cache w"
proof -
  let ?fs = "(srv w s)\<lparr>fs_memory := wd_memory w\<rparr>"
  obtain fs' where fs': "fs_removemap (lc_fs lc) (lc_env lc (wd_clock w) 0) (wd_chan w) (ino_id p) n ?fs
      = Some (if fs_entries ?fs (ino_id p) n = None then NOT_FOUND else OK, fs')"
    "fs_entries fs' = (fs_entries ?fs)(ino_id p := (fs_entries ?fs (ino_id p))(n := None))" "fs_present fs' = fs_present ?fs"
    "fs_usable fs' = fs_usable ?fs" "fs_rest fs' = fs_rest ?fs"
    using dirs.removemap_law [of ?fs "ino_id p" n "lc_fs lc" "(lc_env lc (wd_clock w) 0, wd_chan w)"] assms by auto
  have "fosRemoveMap lc s p n w = Some (if fs_entries (srv w s) (ino_id p) n = None then NOT_FOUND else OK,
      w\<lparr>wd_servers := (wd_servers w)[nat s := fs'], wd_memory := fs_memory fs', wd_clock := wd_clock w + 1\<rparr>)"
    unfolding fosRemoveMap_def by (rule rpc_step [OF assms(1)]) (use fs'(1) assms(4) in \<open>simp add: marshall_removemap_def\<close>)
  then show ?thesis using changedI [OF fs'(5)] fs'(2-4) by auto
qed

lemma fs_addmap_parent: "fs_addmap cf env a (InodeOnly p) = fs_addmap cf env a \<lparr>ino_server = 0, ino_id = ino_id p\<rparr>"
  unfolding fs_addmap_def Inode.defs Inode.select_convs ..

lemma fosAddMap_law:
  fixes s :: int
  assumes "in_range w s" "fs_present (srv w s) (ino_id p) \<or> fs_usable (srv w s) (ino_id p) \<and> fs_room (srv w s)"
    and "name_ok n" "c_ok n"
  defines "es \<equiv> fs_entries (srv w s)"
  shows "\<exists>w'. fosAddMap lc s p n c ow w = Some ((case es (ino_id p) n of Some c' \<Rightarrow> (EXIST, Some c') | None \<Rightarrow> (OK, Some c)), w')
     \<and> changed w w' s (if ow \<or> es (ino_id p) n = None then es(ino_id p := (es (ino_id p))(n \<mapsto> c)) else es)
         ((fs_present (srv w s))(ino_id p := True))
     \<and> wd_cache w' = (if lc_cache lc \<and> (es (ino_id p) n = None \<or> ow) then cache_insert (PathPair (ino_id p) n) c (wd_cache w) else wd_cache w)"
proof -
  let ?fs = "(srv w s)\<lparr>fs_memory := wd_memory w\<rparr>" and ?e = "(lc_env lc (wd_clock w) 0, wd_chan w)"
  obtain fs' where fs': "fs_addmap (lc_fs lc) (fst ?e) (wd_chan w) (InodeOnly p) n c ow ?fs
      = Some ((case es (ino_id p) n of Some c' \<Rightarrow> (EXIST, c') | None \<Rightarrow> (OK, c)), fs')"
    "fs_entries fs' = (if ow \<or> es (ino_id p) n = None then es(ino_id p := (es (ino_id p))(n \<mapsto> c)) else es)"
    "fs_present fs' = (fs_present (srv w s))(ino_id p := True)" "fs_usable fs' = fs_usable (srv w s)" "fs_rest fs' = fs_rest ?fs"
    using dirs.addmap_law [of ?fs "ino_id p" n "lc_fs lc" ?e c ow] assms(2,3) unfolding fs_addmap_parent es_def by auto
  let ?w = "w\<lparr>wd_servers := (wd_servers w)[nat s := fs'], wd_memory := fs_memory fs', wd_clock := wd_clock w + 1\<rparr>"
  let ?req = "AddMap \<lparr>am_parent = InodeOnly p, am_child = c, am_overwrite = ow, am_update = False, am_path = c_string n\<rparr>"
  have "rpc lc s (\<lambda>cf envs chan. marshall_addmap cf envs chan ?req) w
      = Some (\<lparr>si_retval = (if es (ino_id p) n = None then OK else EXIST),
               si_inode = Some (case es (ino_id p) n of Some c' \<Rightarrow> c' | None \<Rightarrow> c)\<rparr>, ?w)"
    by (rule rpc_step [OF assms(1)]) (use fs'(1) assms(4) in \<open>simp add: marshall_addmap_def split: option.splits\<close>)
  then show ?thesis
    using changedI [OF fs'(5,4), of "wd_clock w + 1"] fs'(2,3)
    by (cases "es (ino_id p) n") (auto simp: fosAddMap_def DirCache_add_def OK_def EXIST_def)
qed

lemma fosUpdateMap_law:
  fixes s :: int
  assumes "in_range w s" "fs_present (srv w s) (ino_id p)" "fs_present (srv w s) (ino_id q)"
    and "name_ok n" "c_ok n" "name_ok old" "c_ok old"
  defines "es \<equiv> fs_entries (srv w s)"
  assumes "es (ino_id q) old = Some c"
  shows "\<exists>w'. fosUpdateMap lc s p n c True q old w
       = Some ((case es (ino_id p) n of Some c' \<Rightarrow> (EXIST, Some c') | None \<Rightarrow> (OK, Some c)), w')
     \<and> changed w w' s (let es = es(ino_id p := (es (ino_id p))(n \<mapsto> c)) in es(ino_id q := (es (ino_id q))(old := None)))
         (fs_present (srv w s))
     \<and> wd_cache w' = (if lc_cache lc then cache_insert (PathPair (ino_id p) n) c (wd_cache w) else wd_cache w)"
proof -
  let ?fs = "(srv w s)\<lparr>fs_memory := wd_memory w\<rparr>" and ?e = "(lc_env lc (wd_clock w) 0, wd_chan w)"
    and ?e' = "(lc_env lc (wd_clock w) 1, wd_chan w)"
  obtain fs1 fs' where fs': "fs_addmap (lc_fs lc) (fst ?e) (wd_chan w) (InodeOnly p) n c True ?fs
      = Some ((case es (ino_id p) n of Some c' \<Rightarrow> (EXIST, c') | None \<Rightarrow> (OK, c)), fs1)"
    "fs_removemap (lc_fs lc) (fst ?e') (wd_chan w) (ino_id q) old fs1 = Some (OK, fs')"
    "fs_entries fs' = (let es = es(ino_id p := (es (ino_id p))(n \<mapsto> c)) in es(ino_id q := (es (ino_id q))(old := None)))"
    "fs_present fs' = fs_present (srv w s)" "fs_usable fs' = fs_usable (srv w s)" "fs_rest fs' = fs_rest ?fs"
    using dirs.add_then_remove [of ?fs "ino_id p" "ino_id q" n old c "lc_fs lc" ?e ?e'] assms
    unfolding fs_addmap_parent es_def by auto
  let ?w = "w\<lparr>wd_servers := (wd_servers w)[nat s := fs'], wd_memory := fs_memory fs', wd_clock := wd_clock w + 1\<rparr>"
  let ?req = "UpdateMap \<lparr>um_parent = InodeOnly p, um_child = c, um_overwrite = True, um_update = True, um_old_parent = q,
      um_path = c_string n @ c_string old\<rparr>"
  have str: "string_at (Suc (length n)) (c_string n @ c_string old) = Some old"
    using string_at_next [OF assms(5), of "c_string old"] assms(7) by simp
  have "rpc lc s (\<lambda>cf envs chan. marshall_addmap cf envs chan ?req) w
      = Some (\<lparr>si_retval = (if es (ino_id p) n = None then OK else EXIST),
               si_inode = Some (case es (ino_id p) n of Some c' \<Rightarrow> c' | None \<Rightarrow> c)\<rparr>, ?w)"
    by (rule rpc_step [OF assms(1)])
       (use fs'(1,2) assms(5) str in \<open>simp add: marshall_addmap_def split: option.splits\<close>)
  then show ?thesis
    using changedI [OF fs'(6,5), of "wd_clock w + 1"] fs'(3,4)
    by (cases "es (ino_id p) n") (auto simp: fosUpdateMap_def DirCache_add_def OK_def EXIST_def)
qed

section \<open>Looking up a name\<close>

text \<open>A single name: not empty, without separators, and not one of the names that are treated specially.\<close>

definition plain :: "string \<Rightarrow> bool" where
  "plain n \<longleftrightarrow> name_ok n \<and> c_ok n \<and> CHR ''/'' \<notin> set n \<and> n \<noteq> ''.'' \<and> n \<noteq> ''..''"

lemma plainD: "plain n \<Longrightarrow> name_ok n" "plain n \<Longrightarrow> c_ok n" "plain n \<Longrightarrow> CHR ''/'' \<notin> set n"
    "plain n \<Longrightarrow> n \<noteq> ''.''" "plain n \<Longrightarrow> n \<noteq> []" "plain n \<Longrightarrow> n \<noteq> ''..''"
  by (simp_all add: plain_def name_ok_def)

text \<open>The world after its notifications: only the client's cache differs.\<close>

lemma check_notifications_servers:
  "wd_servers (check_notifications w) = map (\<lambda>fs. fs\<lparr>fs_sent := filter (\<lambda>(a, _). a \<noteq> wd_chan w) (fs_sent fs)\<rparr>) (wd_servers w)"
  "wd_memory (check_notifications w) = wd_memory w" "wd_chan (check_notifications w) = wd_chan w"
  "wd_clock (check_notifications w) = wd_clock w"
proof -
  have "wd_servers (fold fosNotifications xs w) = wd_servers w \<and> wd_memory (fold fosNotifications xs w) = wd_memory w
      \<and> wd_chan (fold fosNotifications xs w) = wd_chan w \<and> wd_clock (fold fosNotifications xs w) = wd_clock w" for xs w
    by (induction xs arbitrary: w) (simp_all add: fosNotifications_def)
  then show
    "wd_servers (check_notifications w) = map (\<lambda>fs. fs\<lparr>fs_sent := filter (\<lambda>(a, _). a \<noteq> wd_chan w) (fs_sent fs)\<rparr>) (wd_servers w)"
    "wd_memory (check_notifications w) = wd_memory w" "wd_chan (check_notifications w) = wd_chan w"
    "wd_clock (check_notifications w) = wd_clock w"
    by (simp_all add: check_notifications_def Let_def)
qed

lemma in_range_check [simp]: "in_range (check_notifications w) = in_range w"
  by (simp add: in_range_def check_notifications_servers fun_eq_iff)

lemma srv_check:
  assumes "in_range w s"
  shows "fs_entries (srv (check_notifications w) s) = fs_entries (srv w s)"
    "fs_present (srv (check_notifications w) s) = fs_present (srv w s)"
    "fs_usable (srv (check_notifications w) s) = fs_usable (srv w s)"
    "fs_core (srv (check_notifications w) s) = fs_core (srv w s)"
    "fs_room (srv (check_notifications w) s) = fs_room (srv w s)"
proof -
  let ?fs = "srv (check_notifications w) s"
  have *: "?fs = (srv w s)\<lparr>fs_sent := filter (\<lambda>(a, _). a \<noteq> wd_chan w) (fs_sent (srv w s))\<rparr>"
    using assms by (simp add: check_notifications_servers in_range_def)
  show "fs_entries ?fs = fs_entries (srv w s)" "fs_present ?fs = fs_present (srv w s)"
    "fs_usable ?fs = fs_usable (srv w s)" by (rule view_cong, simp add: *)+
  show "fs_room ?fs = fs_room (srv w s)" by (simp add: * fs_room_def)
  have "fs_objects ?fs = fs_objects (srv w s)" by (rule view_cong) (simp add: *)
  then show "fs_core ?fs = fs_core (srv w s)" by (simp add: * fs_core_def)
qed

text \<open>The server that keeps a name of a directory, and the inode it leads to there.\<close>

definition owner :: "ClientConf \<Rightarrow> InodeType \<Rightarrow> string \<Rightarrow> int" where
  "owner lc p n = the (fosPathOwner (lc_count lc) p n)"

definition name_of :: "ClientConf \<Rightarrow> World \<Rightarrow> InodeType \<Rightarrow> string \<Rightarrow> InodeType option" where
  "name_of lc w p n = fs_entries (srv w (owner lc p n)) (ino_id p) n"

definition dir_inode :: "ClientConf \<Rightarrow> World \<Rightarrow> InodeType \<Rightarrow> bool" where
  "dir_inode lc w p \<longleftrightarrow> (ino_type p = TYPE_DIR \<or> ino_type p = TYPE_DIR_SHARED) \<and> in_range w (ino_server p)
     \<and> 1 < lc_count lc \<and> length (wd_servers w) = lc_count lc"

lemma owner_works:
  assumes "dir_inode lc w p"
  shows "fosPathOwner (lc_count lc) p n = Some (owner lc p n)" "fosPathOwnern (lc_count lc) p n = Some (owner lc p n)"
    "in_range w (owner lc p n)"
  using assms by (auto simp: dir_inode_def owner_def fosPathOwner_def fosPathOwnern_def in_range_def)

text \<open>The entry a client remembers for a name is right, or it remembers none.\<close>

definition cache_right :: "ClientConf \<Rightarrow> World \<Rightarrow> InodeType \<Rightarrow> string \<Rightarrow> bool" where
  "cache_right lc w p n \<longleftrightarrow> (lc_cache lc \<longrightarrow> (case map_of (wd_cache w) (PathPair (ino_id p) n) of
       None \<Rightarrow> True | Some c \<Rightarrow> name_of lc w p n = Some c))"

lemma fosResolve_law:
  assumes "in_range w (ino_server p)" "fs_usable (srv w (ino_server p)) (ino_id p)" "plain n \<or> n = ''..''"
  defines "es \<equiv> fs_entries (srv w (ino_server p))"
  shows "\<exists>w'. fosResolve lc p n old w = Some ((case es (ino_id p) n of Some c \<Rightarrow> (OK, c) | None \<Rightarrow> (NOT_FOUND, old)), w')
     \<and> changed w w' (ino_server p) es (fs_present (srv w (ino_server p))) \<and> wd_cache w' = wd_cache w
     \<and> (\<forall>s. fs_room (srv w' s) = fs_room (srv w s) \<and> fs_files (srv w' s) = fs_files (srv w s))"
proof -
  let ?s = "ino_server p"
  let ?fs = "(srv w ?s)\<lparr>fs_memory := wd_memory w\<rparr>"
  have n: "name_ok n" "c_ok n" "n \<noteq> []" "n \<noteq> ''.''" using assms(3) plainD [of n] by (auto simp: name_ok_def c_ok_def)
  obtain fs' where fs': "fs_resolve (lc_fs lc) (lc_env lc (wd_clock w) 0) (wd_chan w) (ino_id p) n ?fs
      = Some ((case es (ino_id p) n of Some c \<Rightarrow> (OK, Some c) | None \<Rightarrow> (NOT_FOUND, None)), fs')"
    "fs_files fs' = fs_files ?fs" "fs_rest fs' = fs_rest ?fs" "fs_seq fs' = fs_seq ?fs"
    using fs_resolve_law [of ?fs "ino_id p" n "lc_fs lc" "lc_env lc (wd_clock w) 0" "wd_chan w"] assms(2) n(1)
    unfolding es_def by auto
  note v = view_cong [OF fs'(2)]
  let ?w = "w\<lparr>wd_servers := (wd_servers w)[nat ?s := fs'], wd_memory := fs_memory fs', wd_clock := wd_clock w + 1\<rparr>"
  have "rpc lc ?s (\<lambda>cf envs chan. marshall_resolve cf envs chan \<lparr>ip_id = ino_id p, ip_path = c_string n\<rparr>) w
      = Some (\<lparr>re_child = es (ino_id p) n, re_retval = (if es (ino_id p) n = None then NOT_FOUND else OK)\<rparr>, ?w)"
    by (rule rpc_step [OF assms(1)]) (use fs'(1) n in \<open>simp add: marshall_resolve_def split: option.splits\<close>)
  moreover have "changed w ?w ?s es (fs_present (srv w ?s))"
    using changedI [OF fs'(3), of "wd_clock w + 1"] v(1-3) by (simp add: es_def)
  moreover have "fs_room (srv ?w s) = fs_room (srv w s)" "fs_files (srv ?w s) = fs_files (srv w s)" for s
    using fs'(2,4) assms(1) by (cases "nat s = nat ?s"; auto simp: fs_room_def in_range_def)+
  ultimately show ?thesis
    using n by (auto simp: fosResolve_def OK_def NOT_FOUND_def split: option.splits)
qed

text \<open>Nothing changed but the client's cache, the caches the servers keep and the clock.\<close>

definition steady :: "World \<Rightarrow> World \<Rightarrow> bool" where
  "steady w w' \<longleftrightarrow> length (wd_servers w') = length (wd_servers w) \<and> wd_memory w' = wd_memory w \<and> wd_chan w' = wd_chan w
     \<and> (\<forall>s. in_range w s \<longrightarrow> fs_entries (srv w' s) = fs_entries (srv w s) \<and> fs_present (srv w' s) = fs_present (srv w s)
          \<and> fs_usable (srv w' s) = fs_usable (srv w s) \<and> fs_core (srv w' s) = fs_core (srv w s)
          \<and> fs_room (srv w' s) = fs_room (srv w s) \<and> fs_files (srv w' s) = fs_files (srv w s))"

lemma steady_check: "steady w (check_notifications w)"
  by (simp add: steady_def srv_check check_notifications_servers(2,3)) (simp add: check_notifications_servers in_range_def)

lemma steady_trans: "steady w w' \<Longrightarrow> steady w' w'' \<Longrightarrow> steady w w''"
  by (simp add: steady_def in_range_def)

lemma steady_name_of: "steady w w' \<Longrightarrow> dir_inode lc w p \<Longrightarrow> name_of lc w' p n = name_of lc w p n"
  by (simp add: steady_def name_of_def owner_works)

lemma steady_dir_inode: "steady w w' \<Longrightarrow> dir_inode lc w' p = dir_inode lc w p"
  by (simp add: steady_def dir_inode_def in_range_def)

lemma changed_steady:
  assumes "changed w w' s (fs_entries (srv w s)) (fs_present (srv w s))" "\<And>t. fs_room (srv w' t) = fs_room (srv w t) \<and> fs_files (srv w' t) = fs_files (srv w t)"
  shows "steady w w'"
proof -
  from assms(1) obtain fs' where fs': "wd_servers w' = (wd_servers w)[nat s := fs']" "fs_entries fs' = fs_entries (srv w s)"
    "fs_present fs' = fs_present (srv w s)" "fs_usable fs' = fs_usable (srv w s)" "fs_core fs' = fs_core (srv w s)"
    "wd_memory w' = wd_memory w" "wd_chan w' = wd_chan w" by (auto simp: changed_def)
  have "fs_entries (srv w' t) = fs_entries (srv w t) \<and> fs_present (srv w' t) = fs_present (srv w t)
      \<and> fs_usable (srv w' t) = fs_usable (srv w t) \<and> fs_core (srv w' t) = fs_core (srv w t)" if "in_range w t" for t
    using fs' that by (cases "nat t = nat s") (auto simp: in_range_def)
  then show ?thesis using fs' assms(2) by (simp add: steady_def)
qed

lemma resolve_pieces_plain:
  "CHR ''/'' \<notin> set path \<Longrightarrow> resolve_pieces lc n p path cached w = Some ((OK, p, path, n, cached), w)"
  by (subst resolve_pieces.simps) simp

lemma start_dir_plain: "CHR ''/'' \<notin> set path \<Longrightarrow> start_dir p path = p"
  by (auto simp: start_dir_def split: list.splits)

lemma steady_cache [simp]: "steady w (w'\<lparr>wd_cache := c\<rparr>) = steady w w'"
  by (simp add: steady_def)

lemma fosLookup_plain:
  assumes dir: "dir_inode lc w p" and n: "plain n" and u: "fs_usable (srv w (owner lc p n)) (ino_id p)"
    and right: "cache_right lc (check_notifications w) p n"
  obtains b' w' where "fosLookup lc p n b w = Some ((case name_of lc w p n of Some c \<Rightarrow> (OK, c, b') | None \<Rightarrow> (NOT_FOUND, p, b')), w')"
    "steady w w'" "wd_cache w' = wd_cache (check_notifications w)
      \<or> (\<exists>c. wd_cache w' = cache_insert (PathPair (ino_id p) n) c (wd_cache (check_notifications w)))"
proof -
  let ?w = "check_notifications w"
  have st: "steady w ?w" by (rule steady_check)
  have dir': "dir_inode lc ?w p" using dir by (simp add: steady_dir_inode [OF st])
  have look: "fosLookup lc p n b w = DirCache_resolve lc p n (length n) p b ?w"
    using plainD(3) [OF n] by (simp add: fosLookup_def fosResolvePieces_def start_dir_plain resolve_pieces_plain)
  show thesis
  proof (cases "if lc_cache lc then map_of (wd_cache ?w) (PathPair (ino_id p) n) else None")
    case (Some c)
    then have "name_of lc ?w p n = Some c" using right by (simp add: cache_right_def split: if_splits)
    then have "name_of lc w p n = Some c" by (simp add: steady_name_of [OF st dir])
    moreover have "fosLookup lc p n b w = Some ((OK, c, True), ?w)"
      unfolding look using Some plainD [OF n] by (simp add: DirCache_resolve_def)
    ultimately show thesis using that st by simp
  next
    case None
    let ?s = "owner lc p n" and ?p = "p\<lparr>ino_server := owner lc p n\<rparr>"
    have in': "in_range ?w ?s" "fs_usable (srv ?w ?s) (ino_id p)"
      using owner_works(3) [OF dir] u by (simp_all add: srv_check)
    obtain w' where w': "fosResolve lc ?p n p ?w = Some ((case name_of lc ?w p n of Some c \<Rightarrow> (OK, c) | None \<Rightarrow> (NOT_FOUND, p)), w')"
      "changed ?w w' ?s (fs_entries (srv ?w ?s)) (fs_present (srv ?w ?s))" "wd_cache w' = wd_cache ?w"
      "\<And>s. fs_room (srv w' s) = fs_room (srv ?w s) \<and> fs_files (srv w' s) = fs_files (srv ?w s)"
      using fosResolve_law [of ?w ?p n lc p] in' n by (auto simp: name_of_def)
    have st': "steady w w'" by (rule steady_trans [OF st changed_steady [OF w'(2,4)]])
    have res: "fosLookup lc p n b w = Some ((case name_of lc w p n of Some c \<Rightarrow> (OK, c, b) | None \<Rightarrow> (NOT_FOUND, p, b)),
        case name_of lc w p n of Some c \<Rightarrow> (if lc_cache lc then DirCache_add ?p n c w' else w') | None \<Rightarrow> w')"
      unfolding look using None w'(1) plainD [OF n] owner_works(2) [OF dir] steady_name_of [OF st dir]
      by (auto simp: DirCache_resolve_def OK_def NOT_FOUND_def split: option.splits)
    show thesis
      using st' w'(3) by (intro that [OF res]) (auto simp: DirCache_add_def split: option.splits)
  qed
qed

section \<open>Renaming\<close>

lemma changedD:
  assumes "changed w w' s es ps" "in_range w s"
  shows "in_range w' = in_range w"
    and "in_range w t \<Longrightarrow> fs_entries (srv w' t) = (if t = s then es else fs_entries (srv w t))"
    and "in_range w t \<Longrightarrow> fs_present (srv w' t) = (if t = s then ps else fs_present (srv w t))"
    and "in_range w t \<Longrightarrow> fs_core (srv w' t) = fs_core (srv w t)"
    and "length (wd_servers w') = length (wd_servers w)" and "wd_memory w' = wd_memory w"
  using assms by (auto simp: changed_def in_range_def nth_list_update fun_eq_iff)

text \<open>A file that nobody has open, which can be destroyed.\<close>

definition closed_file :: "World \<Rightarrow> InodeType \<Rightarrow> bool" where
  "closed_file w e \<longleftrightarrow> in_range w (ino_server e) \<and> (ino_id e \<noteq> 0 \<or> fs_id (srv w (ino_server e)) \<noteq> 0)
     \<and> ino_id e \<noteq> ORPHANS_INO \<and> \<not> has_fd (ino_id e) (srv w (ino_server e))
     \<and> (\<exists>vf f. fs_objects (srv w (ino_server e)) (ino_id e) = Some vf \<and> vf_id vf = ino_id e \<and> vf_body vf = FileBody f)"

lemma closed_file_core:
  assumes "in_range w' = in_range w" "in_range w (ino_server e) \<Longrightarrow> fs_core (srv w' (ino_server e)) = fs_core (srv w (ino_server e))"
  shows "closed_file w' e = closed_file w e"
  using assms by (auto simp: closed_file_def fs_core_def has_fd_def)

lemma fosDestroy_law:
  assumes "closed_file w e"
  obtains w' where "fosDestroy lc (ino_server e) (ino_id e) w = Some (OK, w')" "in_range w' = in_range w" "wd_cache w' = wd_cache w"
    "\<And>t. in_range w t \<Longrightarrow> fs_entries (srv w' t) = fs_entries (srv w t)" "fs_files (srv w' (ino_server e)) (ino_id e) = None"
    "length (wd_servers w') = length (wd_servers w)"
proof -
  let ?s = "ino_server e" and ?i = "ino_id e"
  let ?fs = "(srv w ?s)\<lparr>fs_memory := wd_memory w\<rparr>"
  obtain vf f where vf: "fs_files (srv w ?s) ?i = Some vf" "\<not> vf_isDir vf" "vf_id vf = ?i" "vf_body vf = FileBody f"
    using assms by (auto simp: closed_file_def fs_objects_def split: option.splits if_splits)
  have e: "in_range w ?s" "?i \<noteq> ORPHANS_INO" "\<not> (?i = 0 \<and> fs_id (srv w ?s) = 0)" "\<not> has_fd ?i (srv w ?s)"
    using assms by (auto simp: closed_file_def)
  have nofd: "\<not> has_fd ?i (tick cf op ?fs)" for cf op using e(4) by (simp add: has_fd_def)
  obtain fs' where fs': "fs_destroy (lc_fs lc) (lc_env lc (wd_clock w) 0) ?i ?fs = Some (OK, fs')"
    "fs_files fs' = (fs_files (srv w ?s))(?i := None)"
    using vf e(2,3) nofd by (auto simp: fs_destroy_def op_counter_eq remove_object_def erase_delete_def Let_def)
  let ?w = "w\<lparr>wd_servers := (wd_servers w)[nat ?s := fs'], wd_memory := fs_memory fs', wd_clock := wd_clock w + 1\<rparr>"
  have "fosDestroy lc ?s ?i w = Some (OK, ?w)"
    unfolding fosDestroy_def by (rule rpc_step [OF e(1)]) (use fs'(1) in \<open>simp add: marshall_destroy_def\<close>)
  moreover have "fs_entries fs' = fs_entries (srv w ?s)"
    using vf by (auto simp: fs_entries_def fs_children_def fs'(2) fun_eq_iff)
  then have "fs_entries (srv ?w t) = fs_entries (srv w t)" if "in_range w t" for t
    using that e(1) by (cases "nat t = nat ?s") (auto simp: in_range_def)
  ultimately show thesis
    using fs'(2) e(1) by (intro that [of ?w]) (auto simp: in_range_def)
qed

text \<open>The entries after the move of \<open>old\<close> in \<open>q\<close> to \<open>n\<close> in \<open>p\<close>.\<close>

definition renamed :: "ClientConf \<Rightarrow> World \<Rightarrow> InodeType \<Rightarrow> string \<Rightarrow> InodeType \<Rightarrow> string \<Rightarrow> InodeType \<Rightarrow> int \<Rightarrow> nat \<Rightarrow> string \<rightharpoonup> InodeType" where
  "renamed lc w q old p n child s i m =
     (if s = owner lc q old \<and> i = ino_id q \<and> m = old then None
      else if s = owner lc p n \<and> i = ino_id p \<and> m = n then Some child else fs_entries (srv w s) i m)"

definition new_cache :: "ClientConf \<Rightarrow> InodeType \<Rightarrow> string \<Rightarrow> InodeType \<Rightarrow> DirCache \<Rightarrow> DirCache" where
  "new_cache lc p n child m = (if lc_cache lc then cache_insert (PathPair (ino_id p) n) child m else m)"

lemma rename_names:
  assumes p: "dir_inode lc w p" "plain n" "fs_present (srv w (owner lc p n)) (ino_id p)"
    and q: "dir_inode lc w q" "plain old" "fs_present (srv w (owner lc q old)) (ino_id q)"
    and c: "name_of lc w q old = Some child"
  defines "s \<equiv> owner lc p n" and "t \<equiv> owner lc q old"
  defines "r \<equiv> (case name_of lc w p n of Some e \<Rightarrow> (EXIST, Some e) | None \<Rightarrow> (OK, Some child))"
  obtains w1 w2 where
    "(if s = t then fosUpdateMap lc s p n child True q old w else fosAddMap lc s p n child True w) = Some (r, w1)"
    "(if s \<noteq> t then fosRemoveMap lc t q old w1 else Some (OK, w1)) = Some (OK, w2)"
    "in_range w2 = in_range w" "\<And>k. in_range w k \<Longrightarrow> fs_entries (srv w2 k) = renamed lc w q old p n child k"
    "\<And>k. in_range w k \<Longrightarrow> fs_core (srv w2 k) = fs_core (srv w k)" "length (wd_servers w2) = length (wd_servers w)"
    "wd_cache w2 = new_cache lc p n child (wd_cache w)"
proof (cases "s = t")
  case True
  note own = owner_works [OF p(1), of n, folded s_def] owner_works [OF q(1), of old, folded t_def]
  from fosUpdateMap_law [of w s p q n old child lc] p q own c True obtain w' where
    w': "fosUpdateMap lc s p n child True q old w = Some (r, w')"
    "changed w w' s (let es = (fs_entries (srv w s))(ino_id p := (fs_entries (srv w s) (ino_id p))(n \<mapsto> child))
        in es(ino_id q := (es (ino_id q))(old := None))) (fs_present (srv w s))"
    "wd_cache w' = new_cache lc p n child (wd_cache w)"
    by (auto simp: plainD r_def name_of_def s_def t_def new_cache_def)
  note ch = changedD [OF w'(2) own(3)]
  have "fs_entries (srv w' k) = renamed lc w q old p n child k" if "in_range w k" for k
    using ch(2) [OF that] True by (auto simp: renamed_def fun_eq_iff Let_def s_def t_def)
  then show thesis using that [of w' w'] w' ch True by auto
next
  case False
  note own = owner_works [OF p(1), of n, folded s_def] owner_works [OF q(1), of old, folded t_def]
  from fosAddMap_law [of w s p n lc child True] p own obtain w1 where
    w1: "fosAddMap lc s p n child True w = Some (r, w1)"
    "changed w w1 s ((fs_entries (srv w s))(ino_id p := (fs_entries (srv w s) (ino_id p))(n \<mapsto> child)))
        ((fs_present (srv w s))(ino_id p := True))"
    "wd_cache w1 = new_cache lc p n child (wd_cache w)"
    by (auto simp: plainD r_def name_of_def s_def new_cache_def)
  note ch1 = changedD [OF w1(2) own(3)]
  have t: "in_range w1 t" "fs_entries (srv w1 t) = fs_entries (srv w t)" "fs_present (srv w1 t) = fs_present (srv w t)"
    using ch1(1-3) own(6) False by auto
  from fosRemoveMap_law [of w1 t q old lc] t q c obtain w2 where
    w2: "fosRemoveMap lc t q old w1 = Some (OK, w2)"
    "changed w1 w2 t ((fs_entries (srv w t))(ino_id q := (fs_entries (srv w t) (ino_id q))(old := None))) (fs_present (srv w t))"
    "wd_cache w2 = wd_cache w1"
    by (auto simp: plainD name_of_def t_def)
  note ch2 = changedD [OF w2(2) t(1)]
  have "fs_entries (srv w2 k) = renamed lc w q old p n child k" if "in_range w k" for k
    using ch2(2) [of k] ch1(1) ch1(2) [OF that] that False by (auto simp: renamed_def fun_eq_iff s_def t_def)
  then show thesis using that [of w1 w2] w1 w2 ch1 ch2 False by auto
qed

lemma rename_act_law:
  assumes p: "dir_inode lc w p" "plain n" "fs_present (srv w (owner lc p n)) (ino_id p)"
    and q: "dir_inode lc w q" "plain old" "fs_present (srv w (owner lc q old)) (ino_id q)"
    and c: "name_of lc w q old = Some child" "ino_type child = TYPE_FILE"
    and e: "\<And>e. name_of lc w p n = Some e \<Longrightarrow> closed_file w e"
  obtains w' where "rename_act lc q old p n child w = Some (OK, w')"
    "\<And>s. in_range w s \<Longrightarrow> fs_entries (srv w' s) = renamed lc w q old p n child s"
    "\<And>e. name_of lc w p n = Some e \<Longrightarrow> fs_files (srv w' (ino_server e)) (ino_id e) = None"
    "length (wd_servers w') = length (wd_servers w)"
    "lc_cache lc \<Longrightarrow> wd_cache w' = AList.delete (PathPair (ino_id q) old) (cache_insert (PathPair (ino_id p) n) child (wd_cache w))"
proof -
  let ?s = "owner lc p n" and ?t = "owner lc q old"
  define r where "r = (case name_of lc w p n of Some e \<Rightarrow> (EXIST, Some e) | None \<Rightarrow> (OK, Some child))"
  obtain w1 w2 where w2:
    "(if ?s = ?t then fosUpdateMap lc ?s p n child True q old w else fosAddMap lc ?s p n child True w) = Some (r, w1)"
    "(if ?s \<noteq> ?t then fosRemoveMap lc ?t q old w1 else Some (OK, w1)) = Some (OK, w2)"
    "in_range w2 = in_range w" "\<And>k. in_range w k \<Longrightarrow> fs_entries (srv w2 k) = renamed lc w q old p n child k"
    "\<And>k. in_range w k \<Longrightarrow> fs_core (srv w2 k) = fs_core (srv w k)" "length (wd_servers w2) = length (wd_servers w)"
    "wd_cache w2 = new_cache lc p n child (wd_cache w)"
    unfolding r_def by (rule rename_names [OF p q c(1)]) blast
  define w3 where "w3 = (if lc_cache lc then DirCache_remove q old w2 else w2)"
  have w3: "in_range w3 = in_range w" "wd_servers w3 = wd_servers w2" "lc_cache lc \<Longrightarrow>
      wd_cache w3 = AList.delete (PathPair (ino_id q) old) (cache_insert (PathPair (ino_id p) n) child (wd_cache w))"
    using w2(3,7) by (auto simp: w3_def DirCache_remove_def in_range_def fun_eq_iff new_cache_def)
  note own = owner_works [OF p(1), of n] owner_works [OF q(1), of old]
  show thesis
  proof (cases "name_of lc w p n")
    case None
    then have "rename_act lc q old p n child w = Some (OK, w3)"
      using own w2(1,2) c(2) by (simp add: rename_act_def r_def w3_def OK_def EXIST_def)
    then show thesis using None w2(4,6) w3 by (intro that [of w3]) auto
  next
    case (Some e')
    have "closed_file w3 e'" using e [OF Some] w2(5) w3(1,2) closed_file_core [of w3 w e'] by (auto simp: closed_file_def)
    then obtain w4 where w4: "fosDestroy lc (ino_server e') (ino_id e') w3 = Some (OK, w4)" "in_range w4 = in_range w3"
      "wd_cache w4 = wd_cache w3" "\<And>t. in_range w3 t \<Longrightarrow> fs_entries (srv w4 t) = fs_entries (srv w3 t)"
      "fs_files (srv w4 (ino_server e')) (ino_id e') = None" "length (wd_servers w4) = length (wd_servers w3)"
      by (rule fosDestroy_law [where lc = lc]) blast
    moreover have "rename_act lc q old p n child w = Some (OK, w4)"
      using own w2(1,2) c(2) Some w4(1) by (simp add: rename_act_def r_def w3_def [symmetric] EXIST_def)
    ultimately show thesis using Some w2(4,6) w3 by (intro that [of w4]) auto
  qed
qed

lemma cache_insert_other: "k' \<noteq> k \<Longrightarrow> map_of (cache_insert k c m) k' = map_of m k'"
  by (induction k c m rule: cache_insert.induct) auto

text \<open>The cache is a map: its keys are in order.\<close>

definition cache_sorted :: "DirCache \<Rightarrow> bool" where
  "cache_sorted m \<longleftrightarrow> sorted_wrt (<) (map fst m)"

lemma cache_insert_same:
  "cache_sorted m \<Longrightarrow> map_of m k = Some c' \<Longrightarrow> cache_insert k c m = m"
proof (induction k c m rule: cache_insert.induct)
  case (2 k c k' child' rest)
  show ?case
  proof (cases "k = k'")
    case False
    then have "k \<in> fst ` set rest" using 2(3) map_of_SomeD [of rest k c'] by force
    then have "k' < k" using 2(2) by (auto simp: cache_sorted_def)
    then show ?thesis using 2 False by (auto simp: cache_sorted_def)
  qed simp
qed simp

lemma cache_insert_keys: "set (map fst (cache_insert k c m)) = insert k (set (map fst m))"
  by (induction k c m rule: cache_insert.induct) auto

lemma cache_insert_sorted: "cache_sorted m \<Longrightarrow> cache_sorted (cache_insert k c m)"
proof (induction k c m rule: cache_insert.induct)
  case (2 k c k' child' rest)
  have "\<forall>x\<in>set (map fst rest). k' < x" "sorted_wrt (<) (map fst rest)" using 2(2) by (simp_all add: cache_sorted_def)
  moreover from this have "\<forall>x\<in>set (map fst (cache_insert k c rest)). k' < x" if "\<not> k < k'" "k \<noteq> k'"
    using that unfolding cache_insert_keys by auto
  ultimately show ?case using 2 by (auto simp: cache_sorted_def simp del: set_map intro: order.strict_trans)
qed (simp add: cache_sorted_def)

lemma rename_law:
  assumes dir: "dir_inode lc w p" and names: "plain old" "plain new"
    and pres: "fs_present (srv w (owner lc p old)) (ino_id p)" "fs_present (srv w (owner lc p new)) (ino_id p)"
    and right: "cache_right lc (check_notifications w) p old"
    and c: "name_of lc w p old = Some child" "ino_type child = TYPE_FILE"
    and e: "\<And>e. name_of lc w p new = Some e \<Longrightarrow> closed_file w e"
  obtains w' m where "fosRename lc p old new w = Some (OK, w')"
    "\<And>m. name_of lc w' p m = (if m = old then None else if m = new then Some child else name_of lc w p m)"
    "\<And>e. name_of lc w p new = Some e \<Longrightarrow> fs_files (srv w' (ino_server e)) (ino_id e) = None"
    "lc_cache lc \<Longrightarrow> wd_cache w' = AList.delete (PathPair (ino_id p) old) (cache_insert (PathPair (ino_id p) new) child m)"
    "m = wd_cache (check_notifications w) \<or> (\<exists>c. m = cache_insert (PathPair (ino_id p) old) c (wd_cache (check_notifications w)))"
proof -
  have u: "fs_usable (srv w (owner lc p old)) (ino_id p)" using pres(1) by (simp add: fs_usable_def)
  obtain b w1 where w1: "fosLookup lc p old False w = Some ((OK, child, b), w1)" "steady w w1"
    "wd_cache w1 = wd_cache (check_notifications w)
      \<or> (\<exists>c. wd_cache w1 = cache_insert (PathPair (ino_id p) old) c (wd_cache (check_notifications w)))"
    using fosLookup_plain [OF dir names(1) u right, of False] c(1) by auto
  note st = steady_name_of [OF w1(2) dir]
  have own: "in_range w (owner lc p m)" for m by (rule owner_works [OF dir])
  have pres1: "fs_present (srv w1 (owner lc p m)) (ino_id p)" if "fs_present (srv w (owner lc p m)) (ino_id p)" for m
    using w1(2) own that by (simp add: steady_def)
  have rng: "in_range w1 = in_range w" using w1(2) by (simp add: steady_def in_range_def fun_eq_iff)
  have e1: "closed_file w1 e" if "name_of lc w1 p new = Some e" for e
    using closed_file_core [OF rng] assms(9) [of e] that w1(2) by (auto simp: st steady_def)
  have dir1: "dir_inode lc w1 p" using steady_dir_inode [OF w1(2)] dir by simp
  obtain w' where w': "rename_act lc p old p new child w1 = Some (OK, w')"
    "\<And>s. in_range w1 s \<Longrightarrow> fs_entries (srv w' s) = renamed lc w1 p old p new child s"
    "\<And>e. name_of lc w1 p new = Some e \<Longrightarrow> fs_files (srv w' (ino_server e)) (ino_id e) = None"
    "lc_cache lc \<Longrightarrow> wd_cache w' = AList.delete (PathPair (ino_id p) old) (cache_insert (PathPair (ino_id p) new) child (wd_cache w1))"
    using c(1) by (auto simp: st intro: rename_act_law [OF dir1 names(2) pres1 dir1 names(1) pres1 _ c(2) e1, OF pres(2) pres(1)])
  have "fosRename lc p old new w = Some (OK, w')"
    using plainD(3) [OF names(1)] plainD(3) [OF names(2)] w1(1) c(2) w'(1) by (simp add: fosRename_def rename_parent_def)
  moreover have "name_of lc w' p m = (if m = old then None else if m = new then Some child else name_of lc w p m)" for m
    using w'(2) [of "owner lc p m"] own rng st [of m] by (auto simp: name_of_def renamed_def)
  ultimately show thesis using that [of w' "wd_cache w1"] w' w1(3) st by auto
qed

text \<open>C8. Renaming a file inside a directory moves its name: afterwards the new name leads to the file, the old one to
  nothing, and every other name to what it did, wherever the servers keep them.  A file that had the new name and
  is not open is destroyed.\<close>

theorem rename_in_directory:
  assumes "dir_inode lc w p" "plain old" "plain new" "old \<noteq> new"
    and "fs_present (srv w (owner lc p old)) (ino_id p)" "fs_present (srv w (owner lc p new)) (ino_id p)"
    and "cache_right lc (check_notifications w) p old"
    and "name_of lc w p old = Some child" "ino_type child = TYPE_FILE"
    and "\<forall>e. name_of lc w p new = Some e \<longrightarrow> closed_file w e"
  shows "\<exists>w'. fosRename lc p old new w = Some (OK, w') \<and> name_of lc w' p new = Some child \<and> name_of lc w' p old = None
     \<and> (\<forall>m. m \<noteq> old \<and> m \<noteq> new \<longrightarrow> name_of lc w' p m = name_of lc w p m)
     \<and> (\<forall>e. name_of lc w p new = Some e \<longrightarrow> fs_files (srv w' (ino_server e)) (ino_id e) = None)"
  using rename_law [OF assms(1-3,5-9)] assms(4,10) by (metis (no_types, lifting))

text \<open>C29. Renaming a file to the name it has, which should do nothing, removes the name and destroys the file.\<close>

theorem rename_to_itself_destroys:
  assumes "dir_inode lc w p" "plain old" "fs_present (srv w (owner lc p old)) (ino_id p)"
    and "cache_right lc (check_notifications w) p old"
    and "name_of lc w p old = Some child" "ino_type child = TYPE_FILE" "closed_file w child"
  shows "\<exists>w'. fosRename lc p old old w = Some (OK, w') \<and> name_of lc w' p old = None
     \<and> fs_files (srv w' (ino_server child)) (ino_id child) = None"
proof -
  have "closed_file w e" if "name_of lc w p old = Some e" for e using that assms(5,7) by simp
  then obtain w' where "fosRename lc p old old w = Some (OK, w')" "name_of lc w' p old = None"
    "fs_files (srv w' (ino_server child)) (ino_id child) = None"
    using rename_law [OF assms(1,2,2,3,3-6)] assms(5) by (metis (no_types, lifting))
  then show ?thesis by blast
qed

text \<open>C30. Renaming a file over a name the client has in its cache leaves the cache as it was, with the destroyed inode:
  the insertion does not replace an entry, and the server does not notify the client that renames.\<close>

theorem rename_leaves_stale_cache:
  assumes "dir_inode lc w p" "plain old" "plain new" "old \<noteq> new"
    and "fs_present (srv w (owner lc p old)) (ino_id p)" "fs_present (srv w (owner lc p new)) (ino_id p)"
    and "cache_right lc (check_notifications w) p old"
    and "name_of lc w p old = Some child" "ino_type child = TYPE_FILE"
    and "name_of lc w p new = Some e" "closed_file w e"
    and "lc_cache lc" "cache_sorted (wd_cache (check_notifications w))"
    and "map_of (wd_cache (check_notifications w)) (PathPair (ino_id p) new) = Some e"
  shows "\<exists>w'. fosRename lc p old new w = Some (OK, w') \<and> name_of lc w' p new = Some child
     \<and> map_of (wd_cache w') (PathPair (ino_id p) new) = Some e
     \<and> fs_files (srv w' (ino_server e)) (ino_id e) = None"
proof -
  let ?k = "PathPair (ino_id p) new"
  have closed: "\<And>x. name_of lc w p new = Some x \<Longrightarrow> closed_file w x" using assms(10,11) by simp
  obtain w' m where w': "fosRename lc p old new w = Some (OK, w')" "name_of lc w' p new = Some child"
    "fs_files (srv w' (ino_server e)) (ino_id e) = None"
    "wd_cache w' = AList.delete (PathPair (ino_id p) old) (cache_insert ?k child m)"
    "m = wd_cache (check_notifications w) \<or> (\<exists>c. m = cache_insert (PathPair (ino_id p) old) c (wd_cache (check_notifications w)))"
    using rename_law [OF assms(1-3,5-9) closed] assms(4,10,12) by (metis (no_types, lifting))
  have "cache_sorted m" "map_of m ?k = Some e"
    using w'(5) assms(4,13,14) by (auto simp: cache_insert_sorted cache_insert_other)
  then have "map_of (wd_cache w') ?k = Some e"
    using assms(4) by (simp add: w'(4) cache_insert_same [of m ?k e] delete_conv')
  then show ?thesis using w' by blast
qed

section \<open>A small world\<close>

text \<open>Two servers; the root has the files \<open>a\<close> and \<open>b\<close>, on the first server.\<close>

definition lc_ex :: ClientConf where
  "lc_ex = \<lparr>lc_fs = conf_ex, lc_chunk_size = 16, lc_buffer_cache = True, lc_rm_scatter_gather = False,
     lc_creation_affinity = False, lc_socket_map = [], lc_dest_server = 0, lc_env = (\<lambda>k i. env_ex (100 + 4 * k + i))\<rparr>"

definition dir_root_ex :: InodeType where
  "dir_root_ex = \<lparr>ino_server = 0, ino_id = 0, ino_type = TYPE_DIR\<rparr>"

definition file_ex :: "nat \<Rightarrow> InodeType" where
  "file_ex i = \<lparr>ino_server = 0, ino_id = i, ino_type = TYPE_FILE\<rparr>"

definition servers_ex :: "FS list option" where
  "servers_ex = do {
     fs0 \<leftarrow> boot_ex;
     fs0 \<leftarrow> fs_calls conf_ex [(env_ex 5, Call_create root_ex ''a'' 0 420), (env_ex 6, Call_addmap 50 root_ex ''a'' (file_ex 2) False),
       (env_ex 7, Call_create root_ex ''b'' 0 420), (env_ex 8, Call_addmap 50 root_ex ''b'' (file_ex 3) False)] fs0;
     fs1 \<leftarrow> FilesystemServer_new conf_ex (env_ex 1) 1 (\<lambda>_. 0) (\<lambda>_. 0) (\<lambda>_. 0);
     Some [fs0, fs1]
   }"

definition world_ex :: "FS list \<Rightarrow> DirCache \<Rightarrow> World" where
  "world_ex ss m = \<lparr>wd_servers = ss, wd_memory = (\<lambda>_. 0), wd_cache = m, wd_chan = 60, wd_clock = 0\<rparr>"

lemmas world_ex_defs = lc_ex_def dir_root_ex_def file_ex_def world_ex_def ex_defs FilesystemServer_new_def BufferCache_new_def
  region_blocks.simps object_defs c_int_def method_defs ORPHANS_INO_def

lemma servers_ex_facts:
  obtains ss where "servers_ex = Some ss" "length ss = 2" "\<And>fs. fs \<in> set ss \<Longrightarrow> fs_sent fs = []"
    "fs_present (ss ! 0) 0" "fs_entries (ss ! 0) 0 ''a'' = Some (file_ex 2)" "fs_entries (ss ! 0) 0 ''b'' = Some (file_ex 3)"
    "\<And>m. closed_file (world_ex ss m) (file_ex 2)" "\<And>m. closed_file (world_ex ss m) (file_ex 3)"
proof -
  have "\<exists>ss. servers_ex = Some ss \<and> length ss = 2 \<and> (\<forall>fs\<in>set ss. fs_sent fs = []) \<and> fs_present (ss ! 0) 0
      \<and> fs_entries (ss ! 0) 0 ''a'' = Some (file_ex 2) \<and> fs_entries (ss ! 0) 0 ''b'' = Some (file_ex 3)
      \<and> (\<forall>m. closed_file (world_ex ss m) (file_ex 2)) \<and> (\<forall>m. closed_file (world_ex ss m) (file_ex 3))"
    by (simp add: servers_ex_def world_ex_defs O_DIRECTORY_def Let_def appAddCache_def fs_present_def fs_entries_def
        fs_children_def closed_file_def in_range_def fs_objects_def has_fd_def File_new_def)
  then show thesis using that by blast
qed

lemma world_ex_facts:
  assumes "length ss = 2" "\<And>fs. fs \<in> set ss \<Longrightarrow> fs_sent fs = []"
  shows "dir_inode lc_ex (world_ex ss m) dir_root_ex" "check_notifications (world_ex ss m) = world_ex ss m"
    "n \<noteq> [] \<Longrightarrow> n \<noteq> ''..'' \<Longrightarrow> owner lc_ex dir_root_ex n = 0"
    "n \<noteq> [] \<Longrightarrow> n \<noteq> ''..'' \<Longrightarrow> name_of lc_ex (world_ex ss m) dir_root_ex n = fs_entries (ss ! 0) 0 n"
proof -
  show own: "n \<noteq> [] \<Longrightarrow> n \<noteq> ''..'' \<Longrightarrow> owner lc_ex dir_root_ex n = 0"
    by (simp add: owner_def fosPathOwner_def fosPathOwnern_def lc_ex_def conf_ex_def dir_root_ex_def)
  show "dir_inode lc_ex (world_ex ss m) dir_root_ex"
    using assms by (simp add: dir_inode_def lc_ex_def conf_ex_def dir_root_ex_def world_ex_def in_range_def)
  have "map (\<lambda>fs. fs\<lparr>fs_sent := []\<rparr>) ss = ss" using assms(2) by (simp add: map_idI)
  then have "map (\<lambda>fs. fs\<lparr>fs_sent := filter P (fs_sent fs)\<rparr>) ss = ss" for P
    using assms(2) by (simp add: map_idI)
  moreover have "concat (map (\<lambda>fs. map snd (filter P (fs_sent fs))) ss) = []" for P :: "nat \<times> Inode \<Rightarrow> bool"
    using assms(2) by simp
  ultimately show "check_notifications (world_ex ss m) = world_ex ss m"
    by (simp only: check_notifications_def world_ex_def World.select_convs World.update_convs Let_def fold_simps)
  show "n \<noteq> [] \<Longrightarrow> n \<noteq> ''..'' \<Longrightarrow> name_of lc_ex (world_ex ss m) dir_root_ex n = fs_entries (ss ! 0) 0 n"
    by (simp add: name_of_def own) (simp add: dir_root_ex_def world_ex_def)
qed

lemma plain_ex: "plain ''a''" "plain ''b''" "plain ''c''"
  by (simp_all add: plain_def name_ok_def c_ok_def)

lemma rename_ex:
  obtains ss where "servers_ex = Some ss" "\<And>m. dir_inode lc_ex (world_ex ss m) dir_root_ex"
    "\<And>m. fs_present (srv (world_ex ss m) (owner lc_ex dir_root_ex ''a'')) (ino_id dir_root_ex)"
    "\<And>m. fs_present (srv (world_ex ss m) (owner lc_ex dir_root_ex ''b'')) (ino_id dir_root_ex)"
    "\<And>m. check_notifications (world_ex ss m) = world_ex ss m"
    "\<And>m. name_of lc_ex (world_ex ss m) dir_root_ex ''a'' = Some (file_ex 2)"
    "\<And>m. name_of lc_ex (world_ex ss m) dir_root_ex ''b'' = Some (file_ex 3)"
    "\<And>m. closed_file (world_ex ss m) (file_ex 2)" "\<And>m. closed_file (world_ex ss m) (file_ex 3)"
proof -
  obtain ss where ss: "servers_ex = Some ss" "length ss = 2" "\<And>fs. fs \<in> set ss \<Longrightarrow> fs_sent fs = []"
    "fs_present (ss ! 0) 0" "fs_entries (ss ! 0) 0 ''a'' = Some (file_ex 2)" "fs_entries (ss ! 0) 0 ''b'' = Some (file_ex 3)"
    "\<And>m. closed_file (world_ex ss m) (file_ex 2)" "\<And>m. closed_file (world_ex ss m) (file_ex 3)"
    by (rule servers_ex_facts) blast
  note f = world_ex_facts [OF ss(2,3)]
  have pres: "fs_present (srv (world_ex ss m) (owner lc_ex dir_root_ex n)) (ino_id dir_root_ex)" if "n \<noteq> []" "n \<noteq> ''..''" for n m
    using ss(4) that by (simp add: f(3)) (simp add: world_ex_def dir_root_ex_def)
  show thesis by (rule that [OF ss(1) f(1)], assumption, (rule pres, simp, simp)+) (simp_all add: f ss)
qed

lemma cache_right_ex: "map_of m (PathPair 0 n) = None \<Longrightarrow> cache_right lc_ex (world_ex ss m) dir_root_ex n"
  by (simp add: cache_right_def world_ex_def dir_root_ex_def)

lemma file_ex_sel [simp]: "ino_type (file_ex i) = TYPE_FILE" "ino_id (file_ex i) = i" "ino_server (file_ex i) = 0"
  by (simp_all add: file_ex_def)

lemma dir_root_ex_id [simp]: "ino_id dir_root_ex = 0"
  by (simp add: dir_root_ex_def)

theorem rename_in_directory_witness:
  "\<exists>ss w'. servers_ex = Some ss \<and> fosRename lc_ex dir_root_ex ''a'' ''b'' (world_ex ss []) = Some (OK, w')
     \<and> name_of lc_ex w' dir_root_ex ''b'' = Some (file_ex 2) \<and> fs_files (srv w' 0) 3 = None"
proof -
  obtain ss where ss: "servers_ex = Some ss" "dir_inode lc_ex (world_ex ss []) dir_root_ex"
    "fs_present (srv (world_ex ss []) (owner lc_ex dir_root_ex ''a'')) (ino_id dir_root_ex)"
    "fs_present (srv (world_ex ss []) (owner lc_ex dir_root_ex ''b'')) (ino_id dir_root_ex)"
    "check_notifications (world_ex ss []) = world_ex ss []" "name_of lc_ex (world_ex ss []) dir_root_ex ''a'' = Some (file_ex 2)"
    "name_of lc_ex (world_ex ss []) dir_root_ex ''b'' = Some (file_ex 3)" "closed_file (world_ex ss []) (file_ex 3)"
    by (rule rename_ex) blast
  have "\<exists>w'. fosRename lc_ex dir_root_ex ''a'' ''b'' (world_ex ss []) = Some (OK, w') \<and> name_of lc_ex w' dir_root_ex ''b'' = Some (file_ex 2)
     \<and> name_of lc_ex w' dir_root_ex ''a'' = None
     \<and> (\<forall>m. m \<noteq> ''a'' \<and> m \<noteq> ''b'' \<longrightarrow> name_of lc_ex w' dir_root_ex m = name_of lc_ex (world_ex ss []) dir_root_ex m)
     \<and> (\<forall>e. name_of lc_ex (world_ex ss []) dir_root_ex ''b'' = Some e \<longrightarrow> fs_files (srv w' (ino_server e)) (ino_id e) = None)"
    by (rule rename_in_directory [OF ss(2) plain_ex(1,2) _ ss(3,4) _ ss(6)]) (simp_all add: ss(5,7,8) cache_right_ex)
  then show ?thesis using ss(1,7) by auto
qed

theorem rename_to_itself_destroys_witness:
  "\<exists>ss w'. servers_ex = Some ss \<and> fosRename lc_ex dir_root_ex ''a'' ''a'' (world_ex ss []) = Some (OK, w')
     \<and> name_of lc_ex w' dir_root_ex ''a'' = None \<and> fs_files (srv w' 0) 2 = None"
proof -
  obtain ss where ss: "servers_ex = Some ss" "dir_inode lc_ex (world_ex ss []) dir_root_ex"
    "fs_present (srv (world_ex ss []) (owner lc_ex dir_root_ex ''a'')) (ino_id dir_root_ex)"
    "check_notifications (world_ex ss []) = world_ex ss []" "name_of lc_ex (world_ex ss []) dir_root_ex ''a'' = Some (file_ex 2)"
    "closed_file (world_ex ss []) (file_ex 2)"
    by (rule rename_ex) blast
  have "\<exists>w'. fosRename lc_ex dir_root_ex ''a'' ''a'' (world_ex ss []) = Some (OK, w') \<and> name_of lc_ex w' dir_root_ex ''a'' = None
     \<and> fs_files (srv w' (ino_server (file_ex 2))) (ino_id (file_ex 2)) = None"
    by (rule rename_to_itself_destroys [OF ss(2) plain_ex(1) ss(3) _ ss(5) _ ss(6)]) (simp_all add: ss(4) cache_right_ex)
  then show ?thesis using ss(1) by auto
qed

theorem rename_leaves_stale_cache_witness:
  "\<exists>ss w'. servers_ex = Some ss
     \<and> fosRename lc_ex dir_root_ex ''a'' ''b'' (world_ex ss [(PathPair 0 ''b'', file_ex 3)]) = Some (OK, w')
     \<and> map_of (wd_cache w') (PathPair 0 ''b'') = Some (file_ex 3) \<and> fs_files (srv w' 0) 3 = None"
proof -
  let ?m = "[(PathPair 0 ''b'', file_ex 3)]"
  obtain ss where ss: "servers_ex = Some ss" "dir_inode lc_ex (world_ex ss ?m) dir_root_ex"
    "fs_present (srv (world_ex ss ?m) (owner lc_ex dir_root_ex ''a'')) (ino_id dir_root_ex)"
    "fs_present (srv (world_ex ss ?m) (owner lc_ex dir_root_ex ''b'')) (ino_id dir_root_ex)"
    "check_notifications (world_ex ss ?m) = world_ex ss ?m" "name_of lc_ex (world_ex ss ?m) dir_root_ex ''a'' = Some (file_ex 2)"
    "name_of lc_ex (world_ex ss ?m) dir_root_ex ''b'' = Some (file_ex 3)" "closed_file (world_ex ss ?m) (file_ex 3)"
    by (rule rename_ex) blast
  have "\<exists>w'. fosRename lc_ex dir_root_ex ''a'' ''b'' (world_ex ss ?m) = Some (OK, w') \<and> name_of lc_ex w' dir_root_ex ''b'' = Some (file_ex 2)
     \<and> map_of (wd_cache w') (PathPair (ino_id dir_root_ex) ''b'') = Some (file_ex 3)
     \<and> fs_files (srv w' (ino_server (file_ex 3))) (ino_id (file_ex 3)) = None"
    by (rule rename_leaves_stale_cache [OF ss(2) plain_ex(1,2) _ ss(3,4) _ ss(6) _ ss(7,8)])
       (simp_all add: ss(5) cache_right_ex cache_sorted_def, simp_all add: world_ex_def lc_ex_def conf_ex_def)
  then show ?thesis using ss(1) by auto
qed

end
