(* ===== verification/Fs_Listing.thy ===== *)
theory Fs_Listing
  imports Fs_Client_Dirs
begin

text \<open>
  Listing a directory: what \<^verbatim>\<open>direntry\<close> returns for an offset, the calls of \<^verbatim>\<open>getdents64\<close> that move from server
  to server, and the loop of an application that reads a directory to its end.
\<close>

section \<open>One server\<close>

text \<open>The names a server lists for the directory \<open>i\<close>.\<close>

definition dir_names :: "Dir \<Rightarrow> string list" where
  "dir_names d = (if d_vdir d then [] else [''.'']) @ map fst (d_children d)"

definition server_names :: "nat \<Rightarrow> FS \<Rightarrow> string list" where
  "server_names i fs = (case fs_files fs i of
       Some vf \<Rightarrow> (case vf_body vf of DirBody d \<Rightarrow> dir_names d | _ \<Rightarrow> [])
     | None \<Rightarrow> [])"

text \<open>A directory, if the server has it, all of whose entries have a type, and each fits into a buffer of \<open>n\<close> bytes.\<close>

definition listable :: "nat \<Rightarrow> nat \<Rightarrow> FS \<Rightarrow> bool" where
  "listable n i fs \<longleftrightarrow> (case fs_files fs i of
       None \<Rightarrow> True
     | Some vf \<Rightarrow> vf_isDir vf \<and> (case vf_body vf of
           DirBody d \<Rightarrow> (\<forall>(name, l) \<in> set (d_children d). dirent_type l \<noteq> None) | _ \<Rightarrow> False))
     \<and> (\<forall>name \<in> set (server_names i fs). reclen_of name \<le> n) \<and> length (server_names i fs) < 2 ^ 31"

lemma reclen_pos [simp]: "reclen_of name \<noteq> 0"
  by (simp add: reclen_of_def Let_def)

lemma dirent_loop_skip:
  "i \<le> offset \<Longrightarrow> dirent_loop n i offset written ch = dirent_loop n offset offset written (drop (nat (offset - i)) ch)"
proof (induction ch arbitrary: i)
  case (Cons c ch)
  obtain name l where c: "c = (name, l)" by (cases c)
  show ?case
  proof (cases "i < offset")
    case True
    then have "nat (offset - i) = Suc (nat (offset - (i + 1)))" by simp
    then show ?thesis using True Cons.IH [of "i + 1"] by (simp add: c)
  next
    case False
    then show ?thesis using Cons.prems by simp
  qed
qed simp

lemma dirent_loop_takes:
  assumes "\<forall>(name, l) \<in> set ch. dirent_type l \<noteq> None"
  shows "\<exists>m es cached. dirent_loop n offset offset written ch = Some (es, drop m ch, cached) \<and> map d_name es = map fst (take m ch)
     \<and> m \<le> length ch \<and> (sum_list (map d_reclen es) = 0 \<longleftrightarrow> m = 0)
     \<and> (ch \<noteq> [] \<and> written + reclen_of (fst (hd ch)) \<le> n \<longrightarrow> 0 < m)"
  using assms
proof (induction ch arbitrary: offset written)
  case (Cons c ch)
  obtain name l where c: "c = (name, l)" by (cases c)
  show ?case
  proof (cases "written + reclen_of name > n")
    case True
    then have "dirent_loop n offset offset written (c # ch) = Some ([], drop 0 (c # ch), [])" by (simp add: c Let_def)
    then show ?thesis using True c by (intro exI [of _ 0] exI [of _ "[]"]) simp
  next
    case False
    obtain ty where ty: "dirent_type l = Some ty" using Cons.prems c by auto
    have "\<forall>(name, l) \<in> set ch. dirent_type l \<noteq> None" using Cons.prems by simp
    from Cons.IH [OF this, of "offset + 1" "written + reclen_of name"] obtain m es cached where
      IH: "dirent_loop n (offset + 1) (offset + 1) (written + reclen_of name) ch = Some (es, drop m ch, cached)"
      "map d_name es = map fst (take m ch)" "m \<le> length ch" by blast
    let ?e = "\<lparr>d_ino = shown_ino (ino_id (vl_inode l)), d_off = offset + 1, d_reclen = reclen_of name, d_type = ty, d_name = name\<rparr>"
    have "dirent_loop n offset offset written (c # ch) = Some (?e # es, drop (Suc m) (c # ch),
        if (ty = DT_DIR \<or> ty = DT_BLK) \<and> name \<noteq> ''..'' then l # cached else cached)"
      using False ty IH(1) by (simp add: c Let_def)
    then show ?thesis using IH(2,3) c by (intro exI [of _ "Suc m"] exI [of _ "?e # es"]) simp
  qed
qed simp

text \<open>The answer of a server to a request from the offset \<open>k\<close> on: some more of its names, at least one if there is one.\<close>

lemma fs_direntry_lists:
  assumes "fs_files fs i = Some vf" "listable n i fs" "k \<le> length (server_names i fs)"
  shows "\<exists>m es fs'. fs_direntry cf env a i (int k) n fs
       = Some ((if m = 0 then - 1 else int m, es, sum_list (map d_reclen es), k + m < length (server_names i fs)), fs')
     \<and> map d_name es = take m (drop k (server_names i fs)) \<and> k + m \<le> length (server_names i fs)
     \<and> (k < length (server_names i fs) \<longrightarrow> 0 < m) \<and> (0 < m \<longrightarrow> 0 < sum_list (map d_reclen es))
     \<and> fs_files fs' = fs_files fs \<and> fs_memory fs' = fs_memory fs"
proof -
  obtain d where d: "vf_isDir vf" "vf_body vf = DirBody d" "\<forall>(name, l) \<in> set (d_children d). dirent_type l \<noteq> None"
    using assms(1,2) by (auto simp: listable_def split: VBody.splits)
  have names: "server_names i fs = dir_names d" using assms(1) d(2) by (simp add: server_names_def)
  have fit: "reclen_of name \<le> n" if "name \<in> set (dir_names d)" for name using assms(2) that by (simp add: listable_def names)
  define first where "first = (if d_vdir d \<or> k \<noteq> 0 then [] else [dot_entry i vf])"
  define pos where "pos = (if d_vdir d then 0 else 1 :: int)"
  define off where "off = (if \<not> d_vdir d \<and> k = 0 then 1 else int k)"
  let ?w = "sum_list (map d_reclen first)" and ?ch = "drop (nat (off - pos)) (d_children d)"
  have typed: "\<forall>(name, l) \<in> set ?ch. dirent_type l \<noteq> None" using d(3) by (auto dest: in_set_dropD)
  have skip: "dirent_loop n pos off ?w (d_children d) = dirent_loop n off off ?w ?ch"
    by (rule dirent_loop_skip) (auto simp: pos_def off_def)
  obtain m es cached where l: "dirent_loop n off off ?w ?ch = Some (es, drop m ?ch, cached)" "map d_name es = map fst (take m ?ch)"
    "m \<le> length ?ch" "sum_list (map d_reclen es) = 0 \<longleftrightarrow> m = 0" "?ch \<noteq> [] \<and> ?w + reclen_of (fst (hd ?ch)) \<le> n \<longrightarrow> 0 < m"
    using dirent_loop_takes [OF typed, of n off ?w] by (elim exE conjE) (rule that)
  let ?fs = "fold (appAddCache a) (if cf_directory_cache cf then cached else []) (tick cf DIRENT fs)"
  have eq: "fs_direntry cf env a i (int k) n fs
      = Some ((if sum_list (map d_reclen (first @ es)) \<noteq> 0 then int (length (first @ es)) else - 1, first @ es,
          sum_list (map d_reclen (first @ es)), drop m ?ch \<noteq> []), tock cf env DIRENT ?fs)"
    using assms(1) d(1,2) l(1) skip fit [of "''.''"]
    by (auto simp: fs_direntry_def op_counter_eq as_dir_def first_def pos_def off_def dir_names_def Let_def dot_entry_def)
  have key: "drop k (dir_names d) = map d_name first @ map fst ?ch"
    by (cases k) (auto simp: dir_names_def first_def pos_def off_def dot_entry_def drop_map nat_add_distrib)
  have len: "length (dir_names d) = k + (length first + length ?ch)"
    using arg_cong [OF key, of length] assms(3) names by simp
  have es: "length es = m" using arg_cong [OF l(2), of length] l(3) by simp
  have zero: "sum_list (map d_reclen (first @ es)) = 0 \<longleftrightarrow> length first + m = 0"
    using l(4) by (auto simp: first_def dot_entry_def)
  have more: "drop m ?ch \<noteq> [] \<longleftrightarrow> k + (length first + m) < length (dir_names d)" using len by auto
  have "map d_name (first @ es) = take (length first + m) (drop k (dir_names d))" by (simp add: key l(2) take_map)
  moreover have "0 < length first + m" if "k < length (dir_names d)"
  proof (cases first)
    case Nil
    then have "?ch \<noteq> []" using that len by auto
    moreover from this have "hd ?ch \<in> set (d_children d)" by (metis hd_in_set in_set_dropD)
    then have "fst (hd ?ch) \<in> set (map fst (d_children d))" by simp
    then have "?w + reclen_of (fst (hd ?ch)) \<le> n" using fit Nil by (simp add: dir_names_def)
    ultimately show ?thesis using l(5) by simp
  qed simp
  moreover have "0 < length first + m \<longrightarrow> 0 < sum_list (map d_reclen (first @ es))" using zero by linarith
  moreover have "fs_files (tock cf env DIRENT ?fs) = fs_files fs" "fs_memory (tock cf env DIRENT ?fs) = fs_memory fs" by simp_all
  ultimately show ?thesis unfolding eq zero more names using len l(3)
    by (intro exI [of _ "length first + m"] exI [of _ "first @ es"] exI [of _ "tock cf env DIRENT ?fs"]) (simp add: es)
qed

section \<open>All servers\<close>

definition same_files :: "World \<Rightarrow> World \<Rightarrow> bool" where
  "same_files w w' \<longleftrightarrow> length (wd_servers w') = length (wd_servers w)
     \<and> (\<forall>k<length (wd_servers w). fs_files (wd_servers w' ! k) = fs_files (wd_servers w ! k))"

definition all_listable :: "ClientConf \<Rightarrow> nat \<Rightarrow> nat \<Rightarrow> World \<Rightarrow> bool" where
  "all_listable lc n i w \<longleftrightarrow> length (wd_servers w) = lc_count lc
     \<and> (\<forall>k<lc_count lc. listable (min n (lc_chunk_size lc)) i (wd_servers w ! k))"

abbreviation names_at :: "World \<Rightarrow> nat \<Rightarrow> nat \<Rightarrow> string list" where
  "names_at w i k \<equiv> server_names i (wd_servers w ! k)"

lemma same_files_trans: "same_files w w' \<Longrightarrow> same_files w' w'' \<Longrightarrow> same_files w w''"
  by (simp add: same_files_def)

lemma same_files_names: "same_files w w' \<Longrightarrow> k < length (wd_servers w) \<Longrightarrow> names_at w' i k = names_at w i k"
  by (simp add: same_files_def server_names_def)

lemma same_files_listable: "same_files w w' \<Longrightarrow> all_listable lc n i w \<Longrightarrow> all_listable lc n i w'"
  by (auto simp: all_listable_def listable_def same_files_names) (simp_all add: same_files_def)

lemma cache_dents_frame: "wd_servers (fold (cache_dent p) es w) = wd_servers w"
  by (induction es arbitrary: w) (simp_all add: cache_dent_def DirCache_add_def)

lemma show_dent_name [simp]: "d_name (show_dent e) = d_name e"
  by (simp add: show_dent_def)

lemma fosDirent_lists:
  assumes "all_listable lc n (ino_id p) w" "k < lc_count lc" "ino_server p = int k" "offset \<le> length (names_at w (ino_id p) k)"
  defines "names \<equiv> drop offset (names_at w (ino_id p) k)"
  obtains r dents sz b w' where "fosDirent lc p offset n w = Some ((r, dents, sz, b), w')" "same_files w w'"
    "names = [] \<Longrightarrow> dents = [] \<and> (r = - 1 \<or> r = - 2 \<and> fs_files (wd_servers w ! k) (ino_id p) = None)"
    "names \<noteq> [] \<Longrightarrow> \<exists>m>0. r = int m \<and> map d_name dents = take m names \<and> m \<le> length names \<and> b = (m < length names) \<and> 0 < sz"
proof -
  let ?i = "ino_id p" and ?n = "min n (lc_chunk_size lc)"
  let ?fs = "(wd_servers w ! k)\<lparr>fs_memory := wd_memory w\<rparr>"
  let ?env = "lc_env lc (wd_clock w) 0"
  have len: "k < length (wd_servers w)" using assms(1,2) by (simp add: all_listable_def)
  have lst: "listable ?n ?i (wd_servers w ! k)" using assms(1,2) by (simp add: all_listable_def)
  have c: "c_int (int offset) = int offset" using lst assms(4) by (simp add: listable_def c_int_id)
  have names: "server_names ?i ?fs = names_at w ?i k" by (simp add: server_names_def)
  have call: "\<exists>w'. fosDirent lc p offset n w
        = Some ((if r = - 1 \<or> r = - 2 then (r, [], 0, False) else (r, map show_dent es, sz, b)), w') \<and> same_files w w'"
    if r: "fs_direntry (lc_fs lc) ?env (wd_chan w) ?i (int offset) ?n ?fs = Some ((r, es, sz, b), fs')"
      and fs': "fs_files fs' = fs_files (wd_servers w ! k)" for r es sz b fs'
  proof -
    let ?w = "w\<lparr>wd_servers := (wd_servers w)[nat (int k) := fs'], wd_memory := fs_memory fs', wd_clock := wd_clock w + 1\<rparr>"
    have "rpc lc (int k) (\<lambda>cf envs chan. marshall_direntry cf envs chan \<lparr>dq_inode = ?i, dq_offset = offset, dq_size = ?n\<rparr>) w
        = Some (\<lparr>dp_retval = r, dp_more = b, dp_size = sz, dp_buf = es\<rparr>, ?w)"
      by (rule rpc_step) (use len r in \<open>simp_all add: in_range_def marshall_direntry_def c\<close>)
    moreover have "same_files w ?w" using fs' len by (auto simp: same_files_def nth_list_update)
    moreover from this have "same_files w (fold (cache_dent p) es ?w)" by (simp add: same_files_def cache_dents_frame)
    ultimately show ?thesis by (auto simp: fosDirent_def Let_def assms(3))
  qed
  show thesis
  proof (cases "fs_files (wd_servers w ! k) ?i")
    case None
    then have n0: "names = []" by (simp add: names_def server_names_def)
    have "fs_direntry (lc_fs lc) ?env (wd_chan w) ?i (int offset) ?n ?fs
        = Some ((NOT_FOUND, [], 0, False), tock (lc_fs lc) ?env DIRENT (tick (lc_fs lc) DIRENT ?fs))"
      using None by (simp add: fs_direntry_def op_counter_eq)
    from call [OF this] obtain w' where "fosDirent lc p offset n w = Some ((- 2, [], 0, False), w')" "same_files w w'"
      by (auto simp: NOT_FOUND_def)
    then show thesis using n0 None by (intro that) auto
  next
    case (Some vf)
    have "\<exists>m es fs'. fs_direntry (lc_fs lc) ?env (wd_chan w) ?i (int offset) ?n ?fs
       = Some ((if m = 0 then - 1 else int m, es, sum_list (map d_reclen es), offset + m < length (server_names ?i ?fs)), fs')
     \<and> map d_name es = take m (drop offset (server_names ?i ?fs)) \<and> offset + m \<le> length (server_names ?i ?fs)
     \<and> (offset < length (server_names ?i ?fs) \<longrightarrow> 0 < m) \<and> (0 < m \<longrightarrow> 0 < sum_list (map d_reclen es)) \<and> fs_files fs' = fs_files ?fs \<and> fs_memory fs' = fs_memory ?fs"
      using Some lst assms(4) by (intro fs_direntry_lists) (simp_all add: listable_def names)
    from this [unfolded names] obtain m es fs' where r: "fs_direntry (lc_fs lc) ?env (wd_chan w) ?i (int offset) ?n ?fs
       = Some ((if m = 0 then - 1 else int m, es, sum_list (map d_reclen es), offset + m < length (names_at w ?i k)), fs')"
      "map d_name es = take m (drop offset (names_at w ?i k))" "offset + m \<le> length (names_at w ?i k)"
      "offset < length (names_at w ?i k) \<longrightarrow> 0 < m" "fs_files fs' = fs_files ?fs" "0 < m \<longrightarrow> 0 < sum_list (map d_reclen es)"
      by (elim exE conjE) (rule that)
    have fs': "fs_files fs' = fs_files (wd_servers w ! k)" using r(5) by simp
    from call [OF r(1) fs'] obtain w' where w': "fosDirent lc p offset n w
        = Some ((if m = 0 then (- 1, [], 0, False) else (int m, map show_dent es, sum_list (map d_reclen es), offset + m < length (names_at w ?i k))), w')"
      "same_files w w'" by (auto split: if_splits)
    have pos: "0 < m \<longleftrightarrow> names \<noteq> []" using r(3,4) by (auto simp: names_def)
    show thesis
    proof (cases "names = []")
      case True
      then show thesis using w' pos by (intro that [of "- 1" "[]" 0 False w']) auto
    next
      case False
      then have m: "0 < m" "0 < sum_list (map d_reclen es)" using pos r(6) by simp_all
      have "\<exists>q>0. int m = int q \<and> map d_name (map show_dent es) = take q names \<and> q \<le> length names
          \<and> (offset + m < length (names_at w ?i k)) = (q < length names) \<and> 0 < sum_list (map d_reclen es)"
        using m r(2,3) by (intro exI [of _ m]) (auto simp: names_def comp_def)
      then show thesis using w' False m(1)
        by (intro that [of "int m" "map show_dent es" "sum_list (map d_reclen es)" "offset + m < length (names_at w ?i k)" w']) simp_all
    qed
  qed
qed

section \<open>Reading to the end\<close>

text \<open>The names that an open directory still has to give, and its well-formedness.\<close>

abbreviation ad_shared :: "AppDir \<Rightarrow> bool" where
  "ad_shared ad \<equiv> ino_type (ad_inode ad) = TYPE_DIR_SHARED"

definition names_left :: "ClientConf \<Rightarrow> World \<Rightarrow> AppDir \<Rightarrow> string list" where
  "names_left lc w ad =
     (let i = ino_id (ad_inode ad); c = nat (ad_current_server ad)
      in if lc_count lc \<le> c then []
         else drop (ad_offset ad) (names_at w i c) @ (if ad_shared ad then concat (map (names_at w i) [c + 1..<lc_count lc]) else []))"

definition ad_ok :: "ClientConf \<Rightarrow> World \<Rightarrow> AppDir \<Rightarrow> bool" where
  "ad_ok lc w ad \<longleftrightarrow> 0 \<le> ad_current_server ad \<and>
     (ad_current_server ad < int (lc_count lc) \<longrightarrow>
        ad_offset ad \<le> length (names_at w (ino_id (ad_inode ad)) (nat (ad_current_server ad)))
        \<and> (\<not> ad_shared ad \<longrightarrow> fs_files (wd_servers w ! nat (ad_current_server ad)) (ino_id (ad_inode ad)) \<noteq> None))"

lemma names_left_same:
  assumes "same_files w w'" "length (wd_servers w) = lc_count lc"
  shows "names_left lc w' ad = names_left lc w ad" "ad_ok lc w' ad = ad_ok lc w ad"
proof -
  have n: "names_at w' i k = names_at w i k" if "k < lc_count lc" for i k using same_files_names [OF assms(1)] assms(2) that by simp
  have m: "map (names_at w' i) [Suc c..<lc_count lc] = map (names_at w i) [Suc c..<lc_count lc]" for i c using n by simp
  show "names_left lc w' ad = names_left lc w ad" using n by (auto simp: names_left_def Let_def m simp del: map_eq_conv)
  show "ad_ok lc w' ad = ad_ok lc w ad" using n assms by (auto simp: ad_ok_def same_files_def)
qed

lemma names_left_next:
  assumes "ad_shared ad" "0 \<le> ad_current_server ad" "ad_current_server ad < int (lc_count lc)"
  shows "names_left lc w (ad\<lparr>ad_current_server := ad_current_server ad + 1, ad_offset := 0\<rparr>)
      = concat (map (names_at w (ino_id (ad_inode ad))) [nat (ad_current_server ad) + 1..<lc_count lc])"
proof -
  have s: "nat (ad_current_server ad + 1) = Suc (nat (ad_current_server ad))" using assms(2) by simp
  show ?thesis
    using assms by (cases "Suc (nat (ad_current_server ad)) < lc_count lc") (simp_all add: names_left_def Let_def s upt_rec [of "Suc _"])
qed

lemma getdents64_step:
  assumes "all_listable lc n (ino_id (ad_inode ad)) w" "ad_ok lc w ad"
  shows "\<exists>ret dents ad' w'. AppDir_getdents64 lc n ad w = Some ((ret, dents), ad', w') \<and> same_files w w'
     \<and> ad_inode ad' = ad_inode ad \<and> ad_ok lc w' ad'
     \<and> (if names_left lc w ad = [] then ret = 0 \<and> dents = []
        else 0 < ret \<and> dents \<noteq> [] \<and> map d_name dents @ names_left lc w' ad' = names_left lc w ad)"
  using assms
proof (induction "nat (int (lc_count lc) - ad_current_server ad)" arbitrary: ad w rule: less_induct)
  case less
  let ?i = "ino_id (ad_inode ad)" and ?c = "nat (ad_current_server ad)"
  have len: "length (wd_servers w) = lc_count lc" using less.prems(1) by (simp add: all_listable_def)
  show ?case
  proof (cases "int (lc_count lc) \<le> ad_current_server ad")
    case True
    then have "AppDir_getdents64 lc n ad w = Some ((0, []), ad, w)" by (simp add: AppDir_getdents64.simps [of _ _ ad])
    moreover have "names_left lc w ad = []" using True by (simp add: names_left_def Let_def le_nat_iff nat_le_iff)
    ultimately show ?thesis using less.prems(2) by (auto simp: same_files_def)
  next
    case False
    have c: "?c < lc_count lc" "int ?c = ad_current_server ad" using False less.prems(2) by (auto simp: ad_ok_def)
    define dir where "dir = (ad_inode ad)\<lparr>ino_server := ad_current_server ad\<rparr>"
    define names where "names = drop (ad_offset ad) (names_at w ?i ?c)"
    have dir: "ino_id dir = ?i" "ino_server dir = int ?c" using c(2) by (simp_all add: dir_def)
    obtain r dents sz b w1 where f: "fosDirent lc dir (ad_offset ad) n w = Some ((r, dents, sz, b), w1)" "same_files w w1"
      "names = [] \<Longrightarrow> dents = [] \<and> (r = - 1 \<or> r = - 2 \<and> fs_files (wd_servers w ! ?c) ?i = None)"
      "names \<noteq> [] \<Longrightarrow> \<exists>m>0. r = int m \<and> map d_name dents = take m names \<and> m \<le> length names \<and> b = (m < length names) \<and> 0 < sz"
      by (rule fosDirent_lists [of lc n dir w ?c "ad_offset ad", unfolded dir(1), folded names_def])
         (use less.prems c dir(2) in \<open>auto simp: ad_ok_def\<close>)
    define w2 where "w2 = fold (cache_dent (ad_inode ad)) dents w1"
    have same: "same_files w w2" using f(2) by (simp add: same_files_def w2_def cache_dents_frame)
    have here: "names_left lc w ad = names @ (if ad_shared ad then concat (map (names_at w ?i) [?c + 1..<lc_count lc]) else [])"
      using c by (simp add: names_left_def names_def Let_def)
    have left: "names_left lc w2 a = names_left lc w a" "ad_ok lc w2 a = ad_ok lc w a" for a
      using names_left_same [OF same len] by simp_all
    have off: "ad_offset ad \<le> length (names_at w ?i ?c)" and pres: "\<not> ad_shared ad \<Longrightarrow> fs_files (wd_servers w ! ?c) ?i \<noteq> None"
      using less.prems(2) False by (simp_all add: ad_ok_def)
    let ?next = "ad\<lparr>ad_current_server := ad_current_server ad + 1, ad_offset := 0\<rparr>"
    note unfold = AppDir_getdents64.simps [of lc n ad w] dir_def [symmetric]
    show ?thesis
    proof (cases "names = []")
      case True
      note e = f(3) [OF True]
      consider (unshared) "\<not> ad_shared ad" | (last) "ad_shared ad" "ad_current_server ad + 1 = int (lc_count lc)"
        | (shared) "ad_shared ad" "ad_current_server ad + 1 < int (lc_count lc)" using False by linarith
      then show ?thesis
      proof cases
        case unshared
        then have "AppDir_getdents64 lc n ad w = Some ((0, []), ad, w2)" using False f(1) e pres by (auto simp: unfold Let_def w2_def)
        then show ?thesis using here True unshared same left less.prems(2) by simp
      next
        case last
        then have "AppDir_getdents64 lc n ad w = Some ((0, []), ad\<lparr>ad_current_server := ad_current_server ad + 1\<rparr>, w2)"
          using False f(1) e by (auto simp: unfold Let_def w2_def)
        moreover have "names_left lc w ad = []" using here True last c by simp
        moreover have "ad_ok lc w2 (ad\<lparr>ad_current_server := ad_current_server ad + 1\<rparr>)" using last c by (simp add: ad_ok_def)
        ultimately show ?thesis using same by simp
      next
        case shared
        have eq: "AppDir_getdents64 lc n ad w = AppDir_getdents64 lc n ?next w2"
          using False f(1) e shared by (auto simp: unfold Let_def w2_def)
        have names': "names_left lc w2 ?next = names_left lc w ad"
          using here True shared names_left_next [of ad lc w] c(2) False by (simp add: left)
        have ok: "ad_ok lc w2 ?next" using shared(1) less.prems(2) by (simp add: left ad_ok_def)
        have lst: "all_listable lc n (ino_id (ad_inode ?next)) w2" using same_files_listable [OF same less.prems(1)] by simp
        have lt: "nat (int (lc_count lc) - ad_current_server ?next) < nat (int (lc_count lc) - ad_current_server ad)"
          using shared(2) by simp
        have ino: "ad_inode ?next = ad_inode ad" by simp
        from less.hyps [OF lt lst ok, unfolded names' eq [symmetric] ino] show ?thesis
          by (elim exE conjE) (intro exI conjI, assumption, erule same_files_trans [OF same], assumption+)
      qed
    next
      case nonempty: False
      then obtain m where m: "0 < m" "r = int m" "map d_name dents = take m names" "m \<le> length names" "b = (m < length names)" "0 < sz"
        using f(4) by blast
      define ad' where "ad' = (if b then ad\<lparr>ad_offset := ad_offset ad + m\<rparr>
        else if ad_shared ad then ?next else ad\<lparr>ad_current_server := int (lc_count lc)\<rparr>)"
      have "AppDir_getdents64 lc n ad w = Some ((int sz, dents), ad', w2)"
        using False f(1) m(1,2) by (auto simp: unfold Let_def ad'_def w2_def)
      moreover have "ad_ok lc w2 ad'"
        using less.prems(2) m(4) off unfolding left by (auto simp: ad'_def ad_ok_def names_def)
      moreover have "take m names @ names_left lc w2 ad' = names_left lc w ad"
      proof (cases b)
        case True
        then have "names_left lc w ad' = drop m names @ (if ad_shared ad then concat (map (names_at w ?i) [?c + 1..<lc_count lc]) else [])"
          using c by (simp add: names_left_def names_def ad'_def Let_def add.commute)
        then show ?thesis by (simp add: here left)
      next
        case all: False
        then have "take m names = names" using m(4,5) by simp
        then show ?thesis using all names_left_next [of ad lc w] c(2) False
          by (simp add: here left ad'_def) (simp add: names_left_def Let_def)
      qed
      moreover have "names_left lc w ad \<noteq> []" "dents \<noteq> []" using here nonempty m(1,3) by auto
      moreover have "ad_inode ad' = ad_inode ad" by (simp add: ad'_def)
      ultimately show ?thesis using same m(3,6)
        by (intro exI [of _ "int sz"] exI [of _ dents] exI [of _ ad'] exI [of _ w2]) simp
    qed
  qed
qed

text \<open>An application that reads the directory until \<^verbatim>\<open>getdents64\<close> returns 0: the names it gets.  The fuel bounds its
  calls.\<close>

primrec read_all :: "ClientConf \<Rightarrow> nat \<Rightarrow> nat \<Rightarrow> AppDir \<Rightarrow> World \<Rightarrow> (string list \<times> AppDir \<times> World) option" where
  "read_all lc n 0 ad w = None"
| "read_all lc n (Suc fuel) ad w = do {
     ((ret, dents), ad, w) \<leftarrow> AppDir_getdents64 lc n ad w;
     if ret \<le> 0 then Some ([], ad, w)
     else do {
       (names, ad, w) \<leftarrow> read_all lc n fuel ad w;
       Some (map d_name dents @ names, ad, w)
     }
   }"

lemma read_all_complete:
  assumes "all_listable lc n (ino_id (ad_inode ad)) w" "ad_ok lc w ad" "length (names_left lc w ad) < fuel"
  shows "\<exists>ad' w'. read_all lc n fuel ad w = Some (names_left lc w ad, ad', w') \<and> same_files w w'"
  using assms
proof (induction fuel arbitrary: ad w)
  case (Suc fuel)
  from getdents64_step [OF Suc.prems(1,2)] obtain ret dents ad1 w1 where
    g: "AppDir_getdents64 lc n ad w = Some ((ret, dents), ad1, w1)" "same_files w w1" "ad_inode ad1 = ad_inode ad" "ad_ok lc w1 ad1"
    "if names_left lc w ad = [] then ret = 0 \<and> dents = []
        else 0 < ret \<and> dents \<noteq> [] \<and> map d_name dents @ names_left lc w1 ad1 = names_left lc w ad" by (elim exE conjE) (rule that)
  show ?case
  proof (cases "names_left lc w ad = []")
    case True
    then show ?thesis using g by auto
  next
    case False
    then have step: "0 < ret" "dents \<noteq> []" "map d_name dents @ names_left lc w1 ad1 = names_left lc w ad" using g(5) by simp_all
    have "0 < length dents" "length dents + length (names_left lc w1 ad1) = length (names_left lc w ad)"
      using step(2) arg_cong [OF step(3), of length] by simp_all
    then have "length (names_left lc w1 ad1) < fuel" using Suc.prems(3) by linarith
    from Suc.IH [OF _ g(4) this] same_files_listable [OF g(2) Suc.prems(1)] obtain ad' w' where
      "read_all lc n fuel ad1 w1 = Some (names_left lc w1 ad1, ad', w')" "same_files w1 w'" using g(3) by auto
    then show ?thesis using g(1) step(1,3) same_files_trans [OF g(2)] by simp
  qed
qed simp

text \<open>C21. Reading a directory to its end comes to the end, and gives every name in it.  If each entry fits into the buffer, the
  loop of calls of \<^verbatim>\<open>getdents64\<close> on a directory that has just been opened ends after at most one call more than there are
  names.  It returns the names of the directory on the server that has it, or for a directory spread over the servers the names
  on each of them in turn, every entry once, however the names fall into the buffers, and it leaves the files of every server
  as they were.\<close>

theorem listing_complete:
  assumes "all_listable lc n (ino_id inode) w"
    and "ino_type inode \<noteq> TYPE_DIR_SHARED \<Longrightarrow> in_range w (ino_server inode) \<and> fs_files (srv w (ino_server inode)) (ino_id inode) \<noteq> None"
  defines "names \<equiv> if ino_type inode = TYPE_DIR_SHARED then concat (map (names_at w (ino_id inode)) [0..<lc_count lc])
      else names_at w (ino_id inode) (nat (ino_server inode))"
  assumes "length names < fuel"
  shows "\<exists>ad' w'. read_all lc n fuel (AppDir_new inode fd) w = Some (names, ad', w') \<and> same_files w w'"
proof -
  have len: "length (wd_servers w) = lc_count lc" using assms(1) by (simp add: all_listable_def)
  have "names_left lc w (AppDir_new inode fd) = names"
    using assms(2) len by (cases "lc_count lc = 0")
      (auto simp: names_left_def names_def AppDir_new_def Let_def dir_inode_def in_range_def upt_conv_Cons)
  moreover have "ad_ok lc w (AppDir_new inode fd)"
    using assms(2) len by (auto simp: ad_ok_def AppDir_new_def dir_inode_def in_range_def)
  ultimately show ?thesis using read_all_complete [of lc n "AppDir_new inode fd" w fuel] assms(1,4) by (simp add: AppDir_new_def)
qed

lemma listing_ex:
  obtains ss where "servers_ex = Some ss" "length ss = 2" "server_names 0 (ss ! 0) = [''..'', ''a'', ''b'']" "server_names 0 (ss ! 1) = []"
    "listable 24 0 (ss ! 0)" "listable 24 0 (ss ! 1)"
proof -
  have "\<exists>ss. servers_ex = Some ss \<and> length ss = 2 \<and> server_names 0 (ss ! 0) = [''..'', ''a'', ''b''] \<and> server_names 0 (ss ! 1) = []
      \<and> listable 24 0 (ss ! 0) \<and> listable 24 0 (ss ! 1)"
    by (simp add: servers_ex_def world_ex_defs O_DIRECTORY_def Let_def appAddCache_def listable_def server_names_def dir_names_def
       fs_objects_def File_new_def reclen_of_def dirent_type_def vl_isSymlink_def vl_isFile_def vl_isDir_def)
  then show thesis using that by blast
qed

theorem listing_complete_witness:
  "\<exists>ss ad' w'. servers_ex = Some ss
     \<and> read_all (lc_ex\<lparr>lc_chunk_size := 64\<rparr>) 24 4 (AppDir_new \<lparr>ino_server = 0, ino_id = 0, ino_type = TYPE_DIR_SHARED\<rparr> 7) (world_ex ss [])
       = Some ([''..'', ''a'', ''b''], ad', w') \<and> same_files (world_ex ss []) w'"
proof -
  obtain ss where ss: "servers_ex = Some ss" "length ss = 2" "server_names 0 (ss ! 0) = [''..'', ''a'', ''b'']" "server_names 0 (ss ! 1) = []"
    "listable 24 0 (ss ! 0)" "listable 24 0 (ss ! 1)" by (rule listing_ex)
  let ?lc = "lc_ex\<lparr>lc_chunk_size := 64\<rparr>" and ?p = "\<lparr>ino_server = 0, ino_id = 0, ino_type = TYPE_DIR_SHARED\<rparr>"
  have c: "lc_count ?lc = 2" by (simp add: lc_ex_def conf_ex_def)
  have "all_listable ?lc 24 (ino_id ?p) (world_ex ss [])"
    using ss c by (simp add: all_listable_def world_ex_def less_2_cases_iff)
  then have "\<exists>ad' w'. read_all ?lc 24 4 (AppDir_new ?p 7) (world_ex ss []) = Some ([''..'', ''a'', ''b''], ad', w') \<and> same_files (world_ex ss []) w'"
    using listing_complete [of ?lc 24 ?p "world_ex ss []" 4 7] ss c by (simp add: world_ex_def upt_conv_Cons)
  then show ?thesis using ss(1) by (elim exE) (intro exI conjI, assumption, auto)
qed

end
