(* ===== verification/Fs_Rmdir_Phases.thy ===== *)
theory Fs_Rmdir_Phases
  imports Fs_Client_Dirs
begin

text \<open>
  Removal of a directory that all servers share: the state of the directory at each server as a small
  machine that \<^verbatim>\<open>fs_rmdir\<close> implements, and the two phases of the client over it.
\<close>

section \<open>One server\<close>

text \<open>A server may not have the directory, have names in it, or have it empty, locked or not.\<close>

datatype rm_state = Gone | Full | Free | Locked

definition rm_state :: "FS \<Rightarrow> nat \<Rightarrow> rm_state" where
  "rm_state fs i = (case fs_files fs i of
       None \<Rightarrow> Gone
     | Some vf \<Rightarrow> (case vf_body vf of
           DirBody d \<Rightarrow> if list_ex (\<lambda>(name, _). name \<noteq> ''..'') (d_children d) then Full else if d_locked d then Locked else Free
         | _ \<Rightarrow> Full))"

text \<open>What a request does to the state; \<open>None\<close> is a failed assertion of the server.\<close>

definition rm_step :: "int \<Rightarrow> rm_state \<Rightarrow> (int \<times> rm_state) option" where
  "rm_step phase st =
     (if st = Full then Some (NOT_EMPTY, Full)
      else if phase = RMDIR_TRY then Some (if st = Locked then (- EAGAIN, Locked) else (OK, Locked))
      else if phase = RMDIR_FAIL then if st = Locked then Some (OK, Free) else None
      else if phase = RMDIR_SUCCESS then if st = Locked then Some (OK, Gone) else None
      else Some (OK, Gone))"

text \<open>A directory that nobody has open, or a server that can still make it.\<close>

definition rm_ready :: "FS \<Rightarrow> nat \<Rightarrow> bool" where
  "rm_ready fs i \<longleftrightarrow> i \<noteq> ORPHANS_INO \<and> (i \<noteq> 0 \<or> fs_id fs \<noteq> 0) \<and> \<not> has_fd i fs
     \<and> (case fs_files fs i of None \<Rightarrow> fs_room fs | Some vf \<Rightarrow> fs_present fs i \<and> vf_id vf = i)"

definition rm_frame :: "nat \<Rightarrow> FS \<Rightarrow> FS \<Rightarrow> bool" where
  "rm_frame i fs fs' \<longleftrightarrow> fs_core fs' = fs_core fs \<and> fs_memory fs' = fs_memory fs \<and> (\<forall>j. j \<noteq> i \<longrightarrow> fs_files fs' j = fs_files fs j)
     \<and> (rm_state fs' i \<noteq> Gone \<longrightarrow> fs_entries fs' i = fs_entries fs i \<and> rm_ready fs' i)"

lemma rm_state_Gone: "rm_state fs i = Gone \<longleftrightarrow> fs_files fs i = None"
  by (auto simp: rm_state_def split: option.splits VBody.splits)

lemma rm_object:
  assumes "rm_ready fs i"
  obtains fs0 vf d where "lazy_dir cf env i (tick cf RMDIR fs) = Some fs0" "fs_files fs0 = (fs_files fs)(i \<mapsto> vf)"
    "vf_isDir vf" "vf_body vf = DirBody d" "vf_id vf = i" "fs_fds fs0 = fs_fds fs" "fs_id fs0 = fs_id fs" "fs_cache fs0 = fs_cache fs"
    "fs_memory fs0 = fs_memory fs" "fs_pipes fs0 = fs_pipes fs" "fs_files fs i = None \<longrightarrow> d_children d = [] \<and> \<not> d_locked d"
    "fs_files fs i = None \<or> fs_files fs i = Some vf"
proof (cases "fs_files fs i")
  case None
  then have "fs_room fs" using assms by (simp add: rm_ready_def)
  then obtain vf where vf: "new_Dir cf env (fs_id fs) True 0x1FF (fs_seq fs) = Some (vf, fs_seq fs + 1)" "vf_isDir vf"
    "vf_body vf = DirBody \<lparr>d_vdir = True, d_locked = False, d_children = []\<rparr>"
    by (simp add: new_Dir_def VFile_new_def fs_room_def vf_isDir_def)
  then show thesis using None
    by (intro that [of "put_file i (vf\<lparr>vf_id := i\<rparr>) ((tick cf RMDIR fs)\<lparr>fs_seq := fs_seq fs + 1\<rparr>)" "vf\<lparr>vf_id := i\<rparr>"
          "\<lparr>d_vdir = True, d_locked = False, d_children = []\<rparr>"])
      (simp_all add: lazy_dir_def vf_isDir_def)
next
  case (Some vf)
  then obtain d where "vf_isDir vf" "vf_body vf = DirBody d" "vf_id vf = i"
    using assms by (auto simp: rm_ready_def fs_present_def)
  then show thesis using Some by (intro that [of "tick cf RMDIR fs" vf d]) auto
qed

lemma rm_frameI:
  assumes "rm_ready fs i" "fs_files fs' = (fs_files fs)(i := v)"
    and "fs_fds fs' = fs_fds fs" "fs_id fs' = fs_id fs" "fs_cache fs' = fs_cache fs" "fs_memory fs' = fs_memory fs" "fs_pipes fs' = fs_pipes fs"
    and "\<And>vf. v = Some vf \<Longrightarrow> \<exists>d. vf_isDir vf \<and> vf_body vf = DirBody d \<and> vf_id vf = i \<and> d_children d = fs_children fs i"
  shows "rm_frame i fs fs'"
proof -
  have u: "fs_files fs i = None \<or> fs_present fs i" using assms(1) by (auto simp: rm_ready_def split: option.splits)
  have "fs_objects fs' = fs_objects fs"
    using assms(2,8) u by (auto simp: fs_objects_def fs_present_def fun_eq_iff split: option.splits)
  then have "fs_core fs' = fs_core fs" using assms(3-7) by (simp add: fs_core_def)
  moreover have "fs_entries fs' i = fs_entries fs i \<and> rm_ready fs' i" if v: "v = Some vf" for vf
  proof
    obtain d where d: "vf_isDir vf" "vf_body vf = DirBody d" "vf_id vf = i" "d_children d = fs_children fs i" using assms(8) [OF v] by blast
    then show "fs_entries fs' i = fs_entries fs i" using assms(2) v by (auto simp: fs_entries_def [abs_def] fs_children_def)
    show "rm_ready fs' i" using assms(1-4) v d by (simp add: rm_ready_def has_fd_def fs_present_def)
  qed
  ultimately show ?thesis using assms(2,6) by (auto simp: rm_frame_def rm_state_Gone)
qed

lemma rm_states:
  assumes "fs_files fs' i = Some vf" "vf_body vf = DirBody d"
  shows "rm_state fs' i = (if list_ex (\<lambda>(name, _). name \<noteq> ''..'') (d_children d) then Full else if d_locked d then Locked else Free)"
  using assms by (simp add: rm_state_def)

lemma rmdir_codes: "RMDIR_TRY \<noteq> RMDIR_FAIL" "RMDIR_TRY \<noteq> RMDIR_SUCCESS" "RMDIR_FAIL \<noteq> RMDIR_SUCCESS" "OK \<noteq> NOT_EMPTY"
    "OK \<noteq> - EAGAIN" "NOT_EMPTY \<noteq> - EAGAIN" "RMDIR_FAIL \<noteq> RMDIR_AND_MAP" "RMDIR_TRY \<noteq> RMDIR_AND_MAP" "RMDIR_SUCCESS \<noteq> RMDIR_AND_MAP"
  by (simp_all add: rmdir_defs OK_def NOT_EMPTY_def EAGAIN_def RMDIR_AND_MAP_def)

lemma fs_rmdir_refines:
  assumes "rm_ready fs i"
  shows "case fs_rmdir cf env i phase fs of
       None \<Rightarrow> rm_step phase (rm_state fs i) = None
     | Some (r, fs') \<Rightarrow> rm_step phase (rm_state fs i) = Some (r, rm_state fs' i) \<and> rm_frame i fs fs'"
proof -
  obtain fs0 vf d where o: "lazy_dir cf env i (tick cf RMDIR fs) = Some fs0" "fs_files fs0 = (fs_files fs)(i \<mapsto> vf)"
    "vf_isDir vf" "vf_body vf = DirBody d" "vf_id vf = i" "fs_fds fs0 = fs_fds fs" "fs_id fs0 = fs_id fs" "fs_cache fs0 = fs_cache fs"
    "fs_memory fs0 = fs_memory fs" "fs_pipes fs0 = fs_pipes fs" "fs_files fs i = None \<longrightarrow> d_children d = [] \<and> \<not> d_locked d"
    "fs_files fs i = None \<or> fs_files fs i = Some vf"
    by (rule rm_object [OF assms, where cf = cf and env = env]) (rule that)
  let ?full = "list_ex (\<lambda>(name, _). name \<noteq> ''..'') (d_children d)"
  have own: "i \<noteq> ORPHANS_INO" "i \<noteq> 0 \<or> fs_id fs \<noteq> 0" "\<not> has_fd i fs" using assms by (simp_all add: rm_ready_def)
  have nofd: "\<not> has_fd i fs'" if "fs_fds fs' = fs_fds fs" for fs' using own(3) that by (simp add: has_fd_def)
  have ch: "d_children d = fs_children fs i" using o(4,11,12) by (auto simp: fs_children_def)
  have st: "rm_state fs i = (if ?full then Full else if d_locked d then Locked else if fs_files fs i = None then Gone else Free)"
    using o(4,11,12) by (auto simp: rm_state_def)
  have frame: "rm_frame i fs (tock cf env RMDIR fs0)"
    using o ch by (intro rm_frameI [OF assms, where v = "Some vf"]) auto
  have lock: "rm_frame i fs (tock cf env RMDIR (set_locked i vf d l fs0))" for l
    using o ch by (intro rm_frameI [OF assms, where v = "Some (vf\<lparr>vf_body := DirBody (d\<lparr>d_locked := l\<rparr>)\<rparr>)"]) (auto simp: set_locked_def vf_isDir_def)
  have gone: "rm_frame i fs (tock cf env RMDIR (f\<lparr>fs_files := (fs_files f)(i := None)\<rparr>))" if "f = fs0 \<or> f = set_locked i vf d False fs0" for f
    using o that by (intro rm_frameI [OF assms, where v = None]) (auto simp: set_locked_def)
  have eq: "fs_rmdir cf env i phase fs =
      (if ?full then Some (NOT_EMPTY, tock cf env RMDIR fs0)
       else if phase = RMDIR_TRY
       then Some (if d_locked d then (- EAGAIN, tock cf env RMDIR fs0) else (OK, tock cf env RMDIR (set_locked i vf d True fs0)))
       else if phase = RMDIR_FAIL then (if d_locked d then Some (OK, tock cf env RMDIR (set_locked i vf d False fs0)) else None)
       else if phase = RMDIR_SUCCESS \<and> \<not> d_locked d then None
       else let f = (if phase = RMDIR_SUCCESS then set_locked i vf d False fs0 else fs0)
         in Some (OK, tock cf env RMDIR (f\<lparr>fs_files := (fs_files f)(i := None)\<rparr>)))"
    using o(1-7) own nofd by (auto simp: fs_rmdir_def op_counter_eq as_dir_def remove_object_def erase_delete_def Let_def set_locked_def)
  have sel: "fs_files (tock cf env RMDIR fs0) i = Some vf"
    "fs_files (tock cf env RMDIR (set_locked i vf d l fs0)) i = Some (vf\<lparr>vf_body := DirBody (d\<lparr>d_locked := l\<rparr>)\<rparr>)" for l
    using o(2) by (simp_all add: set_locked_def)
  have none: "rm_state (tock cf env RMDIR (f\<lparr>fs_files := (fs_files f)(i := None)\<rparr>)) i = Gone" for f by (simp add: rm_state_Gone)
  have after: "rm_state (tock cf env RMDIR fs0) i = (if ?full then Full else if d_locked d then Locked else Free)"
    "rm_state (tock cf env RMDIR (set_locked i vf d l fs0)) i = (if ?full then Full else if l then Locked else Free)" for l
    using rm_states [OF sel(1) o(4)] rm_states [OF sel(2)] by simp_all
  show ?thesis
    using frame lock gone by (simp add: eq st rm_step_def after none rmdir_codes Let_def)
qed

section \<open>All servers\<close>

abbreviation rms :: "World \<Rightarrow> nat \<Rightarrow> nat \<Rightarrow> rm_state" where
  "rms w i k \<equiv> rm_state (wd_servers w ! k) i"

abbreviation ready :: "World \<Rightarrow> nat \<Rightarrow> nat \<Rightarrow> bool" where
  "ready w i k \<equiv> k < length (wd_servers w) \<and> rm_ready (wd_servers w ! k) i"

text \<open>The world after requests about the directory \<open>i\<close>: its states are now \<open>f\<close>, and nothing else changed.\<close>

definition rm_rel :: "nat \<Rightarrow> World \<Rightarrow> World \<Rightarrow> (nat \<Rightarrow> rm_state) \<Rightarrow> bool" where
  "rm_rel i w w' f \<longleftrightarrow> length (wd_servers w') = length (wd_servers w) \<and> wd_memory w' = wd_memory w \<and> wd_chan w' = wd_chan w
     \<and> wd_cache w' = wd_cache w
     \<and> (\<forall>k<length (wd_servers w). fs_core (wd_servers w' ! k) = fs_core (wd_servers w ! k)
          \<and> (\<forall>j. j \<noteq> i \<longrightarrow> fs_files (wd_servers w' ! k) j = fs_files (wd_servers w ! k) j)
          \<and> rms w' i k = f k
          \<and> (f k \<noteq> Gone \<longrightarrow> fs_entries (wd_servers w' ! k) i = fs_entries (wd_servers w ! k) i))"

lemma Gone_entries: "rm_state fs i = Gone \<Longrightarrow> fs_entries fs i = Map.empty"
  by (auto simp: rm_state_Gone fs_entries_def fs_children_def child_find_def)

lemma rm_rel_trans:
  assumes "rm_rel i w w1 f" "rm_rel i w1 w2 g"
    and "\<And>k. k < length (wd_servers w) \<Longrightarrow> f k = Gone \<Longrightarrow> g k = Gone \<or> rms w i k = Gone"
  shows "rm_rel i w w2 g"
proof -
  have "fs_entries (wd_servers w2 ! k) i = fs_entries (wd_servers w ! k) i" if "k < length (wd_servers w)" "g k \<noteq> Gone" for k
    using assms(1,2) assms(3) [OF that(1)] that Gone_entries [of "wd_servers w ! k" i] Gone_entries [of "wd_servers w1 ! k" i]
    by (cases "f k = Gone") (auto simp: rm_rel_def)
  then show ?thesis using assms(1,2) by (auto simp: rm_rel_def)
qed

lemma rm_rel_refl: "(\<And>k. k < length (wd_servers w) \<Longrightarrow> f k = rms w i k) \<Longrightarrow> rm_rel i w w f"
  by (auto simp: rm_rel_def)

lemma fosDoRmdir_law:
  assumes "ready w i k" "rm_step phase (rms w i k) = Some (r, st)" "phase \<noteq> RMDIR_AND_MAP"
  obtains w' where "fosDoRmdir lc (int k) i phase w = Some (r, w')" "rm_rel i w w' ((rms w i)(k := st))"
    "\<And>j. j \<noteq> k \<Longrightarrow> wd_servers w' ! j = wd_servers w ! j" "st \<noteq> Gone \<Longrightarrow> ready w' i k"
proof -
  let ?fs = "(wd_servers w ! k)\<lparr>fs_memory := wd_memory w\<rparr>"
  have same: "rm_state ?fs i = rms w i k" "rm_ready ?fs i" "fs_entries ?fs i = fs_entries (wd_servers w ! k) i"
    using assms(1) by (simp_all add: rm_state_def rm_ready_def has_fd_def cong: option.case_cong)
  obtain fs' where fs': "fs_rmdir (lc_fs lc) (lc_env lc (wd_clock w) 0) i phase ?fs = Some (r, fs')"
    "rm_state fs' i = st" "rm_frame i ?fs fs'"
    using fs_rmdir_refines [OF same(2), where cf = "lc_fs lc" and env = "lc_env lc (wd_clock w) 0" and phase = phase] assms(2) same(1)
    by (auto split: option.splits)
  let ?w = "w\<lparr>wd_servers := (wd_servers w)[k := fs'], wd_memory := fs_memory fs', wd_clock := wd_clock w + 1\<rparr>"
  have "fosDoRmdir lc (int k) i phase w = Some (r, w\<lparr>wd_servers := (wd_servers w)[nat (int k) := fs'],
      wd_memory := fs_memory fs', wd_clock := wd_clock w + 1\<rparr>)"
    unfolding fosDoRmdir_def
    by (rule rpc_step) (use assms(1,3) fs'(1) in \<open>simp_all add: in_range_def marshall_rmdir_def\<close>)
  moreover have "rm_rel i w ?w ((rms w i)(k := st))"
    using fs'(2,3) assms(1) same(3) by (auto simp: rm_rel_def rm_frame_def nth_list_update)
  ultimately show thesis using fs'(2,3) assms(1) by (intro that [of ?w]) (auto simp: rm_frame_def)
qed

lemma do_try_law:
  assumes "ready w i k" "rms w i k \<noteq> Locked"
  obtains w' where "fosDoRmdir lc (int k) i RMDIR_TRY w = Some (if rms w i k = Full then NOT_EMPTY else OK, w')"
    "rmdir_try lc (int k) i w = Some (if rms w i k = Full then NOT_EMPTY else OK, w')"
    "rm_rel i w w' ((rms w i)(k := if rms w i k = Full then Full else Locked))"
    "\<And>j. j \<noteq> k \<Longrightarrow> wd_servers w' ! j = wd_servers w ! j" "ready w' i k"
proof -
  let ?r = "if rms w i k = Full then NOT_EMPTY else OK" and ?s = "if rms w i k = Full then Full else Locked"
  have "rm_step RMDIR_TRY (rms w i k) = Some (?r, ?s)" using assms(2) by (simp add: rm_step_def)
  then obtain w' where w': "fosDoRmdir lc (int k) i RMDIR_TRY w = Some (?r, w')"
    "rm_rel i w w' ((rms w i)(k := ?s))" "\<And>j. j \<noteq> k \<Longrightarrow> wd_servers w' ! j = wd_servers w ! j" "ready w' i k"
    by (rule fosDoRmdir_law [OF assms(1), where lc = lc]) (simp_all add: rmdir_codes)
  moreover from w' have "rmdir_try lc (int k) i w = Some (?r, w')" by (subst rmdir_try.simps) (simp add: rmdir_codes)
  ultimately show thesis by (intro that)
qed

lemma rm_rel_step:
  assumes "rm_rel i w w1 f" "rm_rel i w1 w2 g" "\<And>k. k < length (wd_servers w) \<Longrightarrow> rms w1 i k = f k \<Longrightarrow> h k = g k"
    and "\<And>k. k < length (wd_servers w) \<Longrightarrow> f k = Gone \<Longrightarrow> h k = Gone \<or> rms w i k = Gone"
  shows "rm_rel i w w2 h"
proof -
  have "rms w1 i k = f k" if "k < length (wd_servers w)" for k using assms(1) that by (simp add: rm_rel_def)
  then have eq: "h k = g k" if "k < length (wd_servers w)" for k using assms(3) that by simp
  have "rm_rel i w w2 g" using assms(4) eq by (intro rm_rel_trans [OF assms(1,2)]) auto
  then show ?thesis using eq by (simp add: rm_rel_def)
qed

lemma rm_rel_cong: "rm_rel i w w' f \<Longrightarrow> (\<And>k. k < length (wd_servers w) \<Longrightarrow> g k = f k) \<Longrightarrow> rm_rel i w w' g"
  by (simp add: rm_rel_def)

lemma rm_rel_state: "rm_rel i w w' f \<Longrightarrow> k < length (wd_servers w) \<Longrightarrow> rms w' i k = f k"
  "rm_rel i w w' f \<Longrightarrow> length (wd_servers w') = length (wd_servers w)"
  by (simp_all add: rm_rel_def)

text \<open>The second phase.\<close>

lemma tell_all_law:
  assumes "distinct ks" "\<And>k. k \<in> set ks \<Longrightarrow> ready w i k \<and> rms w i k = Locked"
    and "action = RMDIR_FAIL \<and> st = Free \<or> action = RMDIR_SUCCESS \<and> st = Gone"
  shows "\<exists>w'. tell_all lc i action ks w = Some w' \<and> rm_rel i w w' (\<lambda>k. if k \<in> set ks then st else rms w i k)
     \<and> (\<forall>j. j \<notin> set ks \<longrightarrow> wd_servers w' ! j = wd_servers w ! j)"
  using assms(1,2)
proof (induction ks arbitrary: w)
  case Nil
  then show ?case by (simp add: rm_rel_refl)
next
  case (Cons k ks)
  have "rm_step action (rms w i k) = Some (OK, st)" "action \<noteq> RMDIR_AND_MAP"
    using Cons.prems(2) [of k] assms(3) rmdir_codes by (auto simp: rm_step_def)
  then obtain w1 where w1: "fosDoRmdir lc (int k) i action w = Some (OK, w1)" "rm_rel i w w1 ((rms w i)(k := st))"
    "\<And>j. j \<noteq> k \<Longrightarrow> wd_servers w1 ! j = wd_servers w ! j"
    using Cons.prems(2) [of k] by (auto intro: fosDoRmdir_law [of k w i action OK st lc])
  have "ready w1 i j \<and> rms w1 i j = Locked" if "j \<in> set ks" for j
    using Cons.prems(1) Cons.prems(2) [of j] that w1(3) [of j] rm_rel_state [OF w1(2)] by auto
  from Cons.IH [OF _ this] Cons.prems(1) obtain w2 where w2: "tell_all lc i action ks w1 = Some w2"
    "rm_rel i w1 w2 (\<lambda>k. if k \<in> set ks then st else rms w1 i k)" "\<forall>j. j \<notin> set ks \<longrightarrow> wd_servers w2 ! j = wd_servers w1 ! j"
    by auto
  have "rm_rel i w w2 (\<lambda>j. if j \<in> set (k # ks) then st else rms w i j)"
    by (rule rm_rel_step [OF w1(2) w2(2)]) (auto split: if_splits)
  then show ?case using w1(1,3) w2(1,3) by auto
qed

text \<open>The first phase, server by server: the servers before the first one, other than the home \<open>h\<close>, that refuses.\<close>

definition before_full :: "World \<Rightarrow> nat \<Rightarrow> nat \<Rightarrow> nat list \<Rightarrow> nat list" where
  "before_full w i h ks = takeWhile (\<lambda>k. k = h \<or> rms w i k \<noteq> Full) ks"

lemma before_full_simps [simp]:
  "before_full w i h [] = []"
  "before_full w i h (k # ks) = (if k = h \<or> rms w i k \<noteq> Full then k # before_full w i h ks else [])"
  by (simp_all add: before_full_def)

definition try_result :: "ClientConf \<Rightarrow> World \<Rightarrow> nat \<Rightarrow> nat \<Rightarrow> nat list \<Rightarrow> int \<times> nat" where
  "try_result lc w i h ks =
     (if before_full w i h ks = ks then (OK, lc_count lc) else (NOT_EMPTY, ks ! length (before_full w i h ks)))"

lemma try_others_law:
  assumes "distinct ks" "\<And>k. k \<in> set ks \<Longrightarrow> k \<noteq> h \<Longrightarrow> ready w i k \<and> rms w i k \<noteq> Locked"
  shows "\<exists>w'. try_others lc (int h) i OK ks w = Some (try_result lc w i h ks, w')
     \<and> rm_rel i w w' (\<lambda>k. if k \<in> set (before_full w i h ks) - {h} then Locked else rms w i k)
     \<and> (\<forall>j. j \<notin> set ks - {h} \<longrightarrow> wd_servers w' ! j = wd_servers w ! j) \<and> (\<forall>j\<in>set ks - {h}. ready w' i j)"
  using assms(1,2)
proof (induction ks arbitrary: w)
  case Nil
  then show ?case by (simp add: rm_rel_refl try_result_def)
next
  case (Cons k ks)
  show ?case
  proof (cases "k = h")
    case True
    then have "try_result lc w i h (k # ks) = try_result lc w i h ks" by (simp add: try_result_def)
    then show ?thesis using Cons.IH [of w] Cons.prems True by auto
  next
    case False
    obtain w1 where w1: "rmdir_try lc (int k) i w = Some (if rms w i k = Full then NOT_EMPTY else OK, w1)"
      "rm_rel i w w1 ((rms w i)(k := if rms w i k = Full then Full else Locked))"
      "\<And>j. j \<noteq> k \<Longrightarrow> wd_servers w1 ! j = wd_servers w ! j" "ready w1 i k"
      using Cons.prems(2) [of k] False by (auto intro: do_try_law [of k w i lc])
    have ks: "k \<notin> set ks" "distinct ks" using Cons.prems(1) by simp_all
    have same: "wd_servers w1 ! j = wd_servers w ! j" if "j \<in> set ks" for j using w1(3) ks(1) that by metis
    have r1: "ready w1 i j \<and> rms w1 i j \<noteq> Locked" if "j \<in> set ks" "j \<noteq> h" for j
      using Cons.prems(2) [of j] that rm_rel_state(2) [OF w1(2)] by (simp add: same)
    show ?thesis
    proof (cases "rms w i k = Full")
      case full: True
      have "rm_rel i w w1 (rms w i)" using w1(2) full by (simp add: fun_upd_idem)
      then show ?thesis using full False w1 r1 rmdir_codes(4) by (auto simp: try_result_def)
    next
      case notfull: False
      have eq: "before_full w1 i h ks = before_full w i h ks"
        unfolding before_full_def by (intro takeWhile_cong) (simp_all add: same)
      have res: "try_result lc w1 i h ks = try_result lc w i h (k # ks)"
        using notfull by (simp add: try_result_def eq)
      from Cons.IH [OF ks(2) r1] obtain w' where w': "try_others lc (int h) i OK ks w1 = Some (try_result lc w1 i h ks, w')"
        "rm_rel i w1 w' (\<lambda>k. if k \<in> set (before_full w i h ks) - {h} then Locked else rms w1 i k)"
        "\<forall>j. j \<notin> set ks - {h} \<longrightarrow> wd_servers w' ! j = wd_servers w1 ! j" "\<forall>j\<in>set ks - {h}. ready w' i j"
        unfolding eq by blast
      have "rm_rel i w w' (\<lambda>j. if j \<in> set (before_full w i h (k # ks)) - {h} then Locked else rms w i j)"
        by (rule rm_rel_step [OF w1(2) w'(2)]) (use False notfull in \<open>auto split: if_splits\<close>)
      moreover have "ready w' i k" using w'(3) w1(4) ks(1) rm_rel_state(2) [OF w'(2)] by simp
      moreover have "try_others lc (int h) i OK (k # ks) w = Some (try_result lc w i h (k # ks), w')"
        using w1(1) w'(1) False notfull by (simp add: res)
      ultimately show ?thesis using w1(3) w'(3,4) False by (intro exI [of _ w']) auto
    qed
  qed
qed

text \<open>The first phase with scatter-gather.\<close>

definition others :: "nat \<Rightarrow> nat list \<Rightarrow> nat set" where
  "others h ks = set ks - {h}"

lemma others_simps [simp]:
  "others h [] = {}" "others h (k # ks) = (if k = h then others h ks else insert k (others h ks))"
  by (auto simp: others_def)

lemma othersD: "j \<in> others h ks \<Longrightarrow> j \<in> set ks \<and> j \<noteq> h"
  by (simp add: others_def)

lemma try_scatter_law:
  assumes "distinct ks" "\<And>k. k \<in> set ks \<Longrightarrow> k \<noteq> h \<Longrightarrow> ready w i k \<and> rms w i k \<noteq> Locked"
  shows "\<exists>w'. try_scatter lc (int h) i r0 ks w
       = Some ((if \<exists>k\<in>others h ks. rms w i k = Full then NOT_EMPTY else r0,
            map (\<lambda>k. (k, if k \<noteq> h \<and> rms w i k = Full then NOT_EMPTY else OK)) ks), w')
     \<and> rm_rel i w w' (\<lambda>k. if k \<in> others h ks \<and> rms w i k \<noteq> Full then Locked else rms w i k)
     \<and> (\<forall>j. j \<notin> others h ks \<longrightarrow> wd_servers w' ! j = wd_servers w ! j) \<and> (\<forall>j\<in>others h ks. ready w' i j)"
  using assms(1,2)
proof (induction ks arbitrary: w r0)
  case Nil
  then show ?case by (simp add: rm_rel_refl)
next
  case (Cons k ks)
  show ?case
  proof (cases "k = h")
    case True
    then show ?thesis using Cons.IH [of w r0] Cons.prems by auto
  next
    case False
    let ?r = "if rms w i k = Full then NOT_EMPTY else OK" and ?s = "if rms w i k = Full then Full else Locked"
    obtain w1 where w1: "fosDoRmdir lc (int k) i RMDIR_TRY w = Some (?r, w1)" "rm_rel i w w1 ((rms w i)(k := ?s))"
      "\<And>j. j \<noteq> k \<Longrightarrow> wd_servers w1 ! j = wd_servers w ! j" "ready w1 i k"
      using Cons.prems(2) [of k] False by (auto intro: do_try_law [of k w i lc])
    have ks: "k \<notin> set ks" "distinct ks" using Cons.prems(1) by simp_all
    have same: "wd_servers w1 ! j = wd_servers w ! j" if "j \<in> set ks" for j using w1(3) ks(1) that by metis
    have r1: "ready w1 i j \<and> rms w1 i j \<noteq> Locked" if "j \<in> set ks" "j \<noteq> h" for j
      using Cons.prems(2) [of j] that rm_rel_state(2) [OF w1(2)] by (simp add: same)
    have ex: "(\<exists>k\<in>others h ks. rms w1 i k = Full) = (\<exists>k\<in>others h ks. rms w i k = Full)" by (metis othersD same)
    have mp: "map (\<lambda>k. (k, if k \<noteq> h \<and> rms w1 i k = Full then NOT_EMPTY else OK)) ks
        = map (\<lambda>k. (k, if k \<noteq> h \<and> rms w i k = Full then NOT_EMPTY else OK)) ks" by (simp add: same)
    from Cons.IH [OF ks(2) r1, of "if ?r \<noteq> OK then ?r else r0"] obtain w' where
      w': "try_scatter lc (int h) i (if ?r \<noteq> OK then ?r else r0) ks w1
         = Some ((if \<exists>k\<in>others h ks. rms w i k = Full then NOT_EMPTY else if ?r \<noteq> OK then ?r else r0,
            map (\<lambda>k. (k, if k \<noteq> h \<and> rms w i k = Full then NOT_EMPTY else OK)) ks), w')"
      "rm_rel i w1 w' (\<lambda>k. if k \<in> others h ks \<and> rms w1 i k \<noteq> Full then Locked else rms w1 i k)"
      "\<forall>j. j \<notin> others h ks \<longrightarrow> wd_servers w' ! j = wd_servers w1 ! j" "\<forall>j\<in>others h ks. ready w' i j"
      unfolding ex mp by blast
    have "rm_rel i w w' (\<lambda>j. if j \<in> others h (k # ks) \<and> rms w i j \<noteq> Full then Locked else rms w i j)"
      by (rule rm_rel_step [OF w1(2) w'(2)]) (use False ks(1) in \<open>auto split: if_splits dest: othersD\<close>)
    moreover have "ready w' i k" using w'(3) w1(4) ks(1) rm_rel_state(2) [OF w'(2)] by (simp add: others_def)
    moreover have "try_scatter lc (int h) i r0 (k # ks) w
       = Some ((if \<exists>k\<in>others h (k # ks). rms w i k = Full then NOT_EMPTY else r0,
            map (\<lambda>k. (k, if k \<noteq> h \<and> rms w i k = Full then NOT_EMPTY else OK)) (k # ks)), w')"
      using w1(1) w'(1) False rmdir_codes(4) by simp
    ultimately show ?thesis using w1(3) w'(3,4) False by (intro exI [of _ w']) auto
  qed
qed

section \<open>Both phases\<close>

text \<open>Every server can take part in the removal of the directory \<open>i\<close>, and none has it locked.\<close>

definition removable :: "ClientConf \<Rightarrow> World \<Rightarrow> InodeType \<Rightarrow> bool" where
  "removable lc w child \<longleftrightarrow> length (wd_servers w) = lc_count lc \<and> in_range w (ino_server child)
     \<and> (\<forall>k<lc_count lc. rm_ready (wd_servers w ! k) (ino_id child) \<and> rms w (ino_id child) k \<noteq> Locked)"

definition all_empty :: "World \<Rightarrow> nat \<Rightarrow> bool" where
  "all_empty w i \<longleftrightarrow> (\<forall>k<length (wd_servers w). rms w i k \<noteq> Full)"

lemma tell_all_append: "tell_all lc i a (xs @ ys) w = tell_all lc i a xs w \<bind> tell_all lc i a ys"
  by (induction xs arbitrary: w) (auto split: bind_splits)

lemma commit_law:
  assumes "rm_rel i w w2 (\<lambda>k. if k \<in> set ks then Locked else rms w i k)" "distinct ks"
    and "\<And>k. k \<in> set ks \<Longrightarrow> ready w2 i k"
    and "action = RMDIR_FAIL \<and> st = Free \<or> action = RMDIR_SUCCESS \<and> st = Gone"
  obtains w3 where "tell_all lc i action ks w2 = Some w3" "rm_rel i w w3 (\<lambda>k. if k \<in> set ks then st else rms w i k)"
proof -
  have "ready w2 i k \<and> rms w2 i k = Locked" if "k \<in> set ks" for k
    using assms(3) [OF that] rm_rel_state [OF assms(1)] that by simp
  then obtain w3 where w3: "tell_all lc i action ks w2 = Some w3" "rm_rel i w2 w3 (\<lambda>k. if k \<in> set ks then st else rms w2 i k)"
    using tell_all_law [OF assms(2) _ assms(4), of w2 i lc] by blast
  have "rm_rel i w w3 (\<lambda>k. if k \<in> set ks then st else rms w i k)"
    by (rule rm_rel_step [OF assms(1) w3(2)]) (auto split: if_splits)
  then show thesis using w3(1) by (intro that)
qed

lemma home_try:
  assumes "removable lc w child" "rms w (ino_id child) (nat (ino_server child)) \<noteq> Full"
  defines "i \<equiv> ino_id child" and "h \<equiv> nat (ino_server child)"
  obtains w1 where "rmdir_try lc (ino_server child) i w = Some (OK, w1)" "int h = ino_server child" "h < lc_count lc"
    "rm_rel i w w1 ((rms w i)(h := Locked))" "\<And>j. j \<noteq> h \<Longrightarrow> wd_servers w1 ! j = wd_servers w ! j"
    "\<And>k. k < lc_count lc \<Longrightarrow> ready w1 i k" "\<And>k. k < lc_count lc \<Longrightarrow> k \<noteq> h \<Longrightarrow> rms w1 i k \<noteq> Locked"
proof -
  have h: "int h = ino_server child" "h < lc_count lc" "length (wd_servers w) = lc_count lc"
    using assms(1) by (auto simp: removable_def in_range_def h_def)
  have all: "ready w i k \<and> rms w i k \<noteq> Locked" if "k < lc_count lc" for k
    using assms(1) that h(3) by (simp add: removable_def i_def)
  obtain w1 where w1: "rmdir_try lc (int h) i w = Some (OK, w1)" "rm_rel i w w1 ((rms w i)(h := Locked))"
    "\<And>j. j \<noteq> h \<Longrightarrow> wd_servers w1 ! j = wd_servers w ! j" "ready w1 i h"
    using all [OF h(2)] assms(2) by (auto simp: i_def h_def intro: do_try_law [of h w i lc])
  have "ready w1 i k" if "k < lc_count lc" for k
    using all [OF that] w1(3) [of k] w1(4) rm_rel_state(2) [OF w1(2)] by (cases "k = h") auto
  moreover have "rms w1 i k \<noteq> Locked" if "k < lc_count lc" "k \<noteq> h" for k using all [OF that(1)] w1(3) [OF that(2)] by simp
  ultimately show thesis using w1 h by (intro that [of w1]) simp_all
qed

lemma rmdir_scatter_law:
  assumes "removable lc w child" "rms w (ino_id child) (nat (ino_server child)) \<noteq> Full" "lc_rm_scatter_gather lc"
  obtains w' where "rmdir_shared lc child w
      = Some (if all_empty w (ino_id child) then (True, OK) else (False, NOT_EMPTY), w')"
    "rm_rel (ino_id child) w w' (\<lambda>k. if rms w (ino_id child) k = Full then Full else if all_empty w (ino_id child) then Gone else Free)"
proof -
  define i h where "i = ino_id child" and "h = nat (ino_server child)"
  obtain w1 where w1: "rmdir_try lc (ino_server child) i w = Some (OK, w1)" "int h = ino_server child" "h < lc_count lc"
    "rm_rel i w w1 ((rms w i)(h := Locked))" "\<And>j. j \<noteq> h \<Longrightarrow> wd_servers w1 ! j = wd_servers w ! j"
    "\<And>k. k < lc_count lc \<Longrightarrow> ready w1 i k" "\<And>k. k < lc_count lc \<Longrightarrow> k \<noteq> h \<Longrightarrow> rms w1 i k \<noteq> Locked"
    by (rule home_try [OF assms(1,2), folded i_def h_def]) (rule that)
  have n: "length (wd_servers w) = lc_count lc" and home: "rms w i h \<noteq> Full"
    using assms(1,2) by (simp_all add: removable_def i_def h_def)
  let ?ks = "[0..<lc_count lc]"
  define held where "held = filter (\<lambda>k. k = h \<or> rms w1 i k \<noteq> Full) ?ks"
  obtain w2 where w2: "try_scatter lc (int h) i OK ?ks w1
       = Some ((if \<exists>k\<in>others h ?ks. rms w1 i k = Full then NOT_EMPTY else OK,
            map (\<lambda>k. (k, if k \<noteq> h \<and> rms w1 i k = Full then NOT_EMPTY else OK)) ?ks), w2)"
     "rm_rel i w1 w2 (\<lambda>k. if k \<in> others h ?ks \<and> rms w1 i k \<noteq> Full then Locked else rms w1 i k)"
     "\<forall>j. j \<notin> others h ?ks \<longrightarrow> wd_servers w2 ! j = wd_servers w1 ! j" "\<forall>j\<in>others h ?ks. ready w2 i j"
    using try_scatter_law [OF _ conjI [OF w1(6,7)], of ?ks h lc OK] by auto
  have ex: "(\<exists>k\<in>others h ?ks. rms w1 i k = Full) = (\<not> all_empty w i)"
    using w1(5) home n by (auto simp: others_def all_empty_def)
  have rs: "map fst (filter (\<lambda>(s, r). r \<noteq> NOT_EMPTY) (map (\<lambda>k. (k, if k \<noteq> h \<and> rms w1 i k = Full then NOT_EMPTY else OK)) ?ks)) = held"
    using rmdir_codes(4) by (simp add: filter_map comp_def held_def cong: filter_cong)
  have mem: "k \<in> set held \<longleftrightarrow> rms w i k \<noteq> Full" if "k < lc_count lc" for k
    using that home w1(5) [of k] by (cases "k = h") (simp_all add: held_def)
  have rel: "rm_rel i w w2 (\<lambda>k. if k \<in> set held then Locked else rms w i k)"
    by (rule rm_rel_step [OF w1(4) w2(2)]) (use home n mem in \<open>auto simp: others_def split: if_splits\<close>)
  have rdy: "ready w2 i k" if "k \<in> set held" for k
    using that w2(3,4) w1(6) [of k] rm_rel_state(2) [OF w2(2)] by (cases "k = h") (simp_all add: others_def held_def)
  have dist: "distinct held" by (simp add: held_def)
  obtain w3 where w3: "tell_all lc i (if all_empty w i then RMDIR_SUCCESS else RMDIR_FAIL) held w2 = Some w3"
     "rm_rel i w w3 (\<lambda>k. if k \<in> set held then if all_empty w i then Gone else Free else rms w i k)"
    by (rule commit_law [OF rel dist rdy, where lc = lc and action = "if all_empty w i then RMDIR_SUCCESS else RMDIR_FAIL"
          and st = "if all_empty w i then Gone else Free"]) (assumption, simp, rule that)
  have "rmdir_shared lc child w = Some (if all_empty w i then (True, OK) else (False, NOT_EMPTY), w3)"
    unfolding rmdir_shared_def i_def [symmetric] Let_def w1(1) bind.bind_lunit prod.case w2(1) [unfolded ex w1(2)] rs
    using w3(1) rmdir_codes(3,4) assms(3) by (cases "all_empty w i") simp_all
  moreover have "rm_rel i w w3 (\<lambda>k. if rms w i k = Full then Full else if all_empty w i then Gone else Free)"
    by (rule rm_rel_cong [OF w3(2)]) (simp add: n mem)
  ultimately show thesis using that unfolding i_def by blast
qed

lemma before_full_upt:
  obtains c where "before_full w i h [0..<n] = [0..<c]" "c \<le> n" "\<And>k. k < c \<Longrightarrow> k = h \<or> rms w i k \<noteq> Full"
    "c < n \<Longrightarrow> c \<noteq> h \<and> rms w i c = Full"
proof -
  let ?P = "\<lambda>k. k = h \<or> rms w i k \<noteq> Full"
  define c where "c = length (before_full w i h [0..<n])"
  have c: "c \<le> n" using length_takeWhile_le [of ?P "[0..<n]"] by (simp add: c_def before_full_def)
  moreover have "before_full w i h [0..<n] = take c [0..<n]" unfolding c_def before_full_def by (rule takeWhile_eq_take)
  ultimately have eq: "before_full w i h [0..<n] = [0..<c]" by (simp add: take_upt)
  have "?P k" if "k < c" for k
    using set_takeWhileD [of k ?P "[0..<n]"] that unfolding before_full_def [symmetric] eq by simp
  moreover have "\<not> ?P c" if "c < n"
    using nth_length_takeWhile [of ?P "[0..<n]"] that by (simp add: c_def before_full_def)
  ultimately show thesis using that eq c by blast
qed

lemma tell_last:
  assumes "tell_all lc i a (xs @ [h]) w = Some w'"
  obtains v where "tell_all lc i a xs w = Some v" "fosDoRmdir lc (int h) i a v = Some (OK, w')"
  using assms by (auto simp: tell_all_append split: bind_splits if_splits)

lemma rmdir_serial_law:
  assumes "removable lc w child" "rms w (ino_id child) (nat (ino_server child)) \<noteq> Full" "\<not> lc_rm_scatter_gather lc"
  obtains w' held where "rmdir_shared lc child w
      = Some (if all_empty w (ino_id child) then (True, OK)
          else (False, if \<exists>k<nat (ino_server child). rms w (ino_id child) k = Full then OK else NOT_EMPTY), w')"
    "rm_rel (ino_id child) w w' (\<lambda>k. if k \<in> held then if all_empty w (ino_id child) then Gone else Free else rms w (ino_id child) k)"
    "all_empty w (ino_id child) \<Longrightarrow> held = {0..<lc_count lc}" "\<And>k. k \<in> held \<Longrightarrow> rms w (ino_id child) k \<noteq> Full"
proof -
  define i h where "i = ino_id child" and "h = nat (ino_server child)"
  obtain w1 where w1: "rmdir_try lc (ino_server child) i w = Some (OK, w1)" "int h = ino_server child" "h < lc_count lc"
    "rm_rel i w w1 ((rms w i)(h := Locked))" "\<And>j. j \<noteq> h \<Longrightarrow> wd_servers w1 ! j = wd_servers w ! j"
    "\<And>k. k < lc_count lc \<Longrightarrow> ready w1 i k" "\<And>k. k < lc_count lc \<Longrightarrow> k \<noteq> h \<Longrightarrow> rms w1 i k \<noteq> Locked"
    by (rule home_try [OF assms(1,2), folded i_def h_def]) (rule that)
  have n: "length (wd_servers w) = lc_count lc" and home: "rms w i h \<noteq> Full"
    using assms(1,2) by (simp_all add: removable_def i_def h_def)
  let ?ks = "[0..<lc_count lc]"
  obtain c where c: "before_full w1 i h ?ks = [0..<c]" "c \<le> lc_count lc" "\<And>k. k < c \<Longrightarrow> k = h \<or> rms w1 i k \<noteq> Full"
    "c < lc_count lc \<Longrightarrow> c \<noteq> h \<and> rms w1 i c = Full"
    by (rule before_full_upt) (rule that)
  have below: "rms w i k \<noteq> Full" if "k < c" for k using c(3) [OF that] w1(5) [of k] home by (cases "k = h") auto
  have full: "rms w i c = Full \<and> c \<noteq> h" if "c < lc_count lc" using c(4) [OF that] w1(5) [of c] by auto
  have all: "all_empty w i \<longleftrightarrow> c = lc_count lc"
    using below full c(2) n by (cases "c = lc_count lc") (auto simp: all_empty_def intro!: exI [of _ c])
  define fh where "fh = (\<exists>k<h. rms w i k = Full)"
  have first: "fh \<longleftrightarrow> c < h" if "c < lc_count lc"
    unfolding fh_def using below full [OF that] by (metis linorder_neqE_nat order.strict_trans)
  have eqc: "[0..<c] = ?ks \<longleftrightarrow> c = lc_count lc" by (metis diff_zero length_upt)
  have tr: "try_result lc w1 i h ?ks = (if all_empty w i then OK else NOT_EMPTY, c)"
    using c(2) by (auto simp: try_result_def c(1) all eqc)
  obtain w2 where w2: "try_others lc (int h) i OK ?ks w1 = Some ((if all_empty w i then OK else NOT_EMPTY, c), w2)"
    "rm_rel i w1 w2 (\<lambda>k. if k \<in> {0..<c} - {h} then Locked else rms w1 i k)"
    "\<forall>j. j \<notin> set ?ks - {h} \<longrightarrow> wd_servers w2 ! j = wd_servers w1 ! j" "\<forall>j\<in>set ?ks - {h}. ready w2 i j"
    using try_others_law [OF _ conjI [OF w1(6,7)], of ?ks h lc] unfolding tr c(1) set_upt by auto
  define held where "held = [0..<c] @ (if c < h then [h] else [])"
  have mem: "k \<in> set held \<longleftrightarrow> k < c \<or> k = h" for k using c(2,4) w1(3) by (auto simp: held_def)
  have rel: "rm_rel i w w2 (\<lambda>k. if k \<in> set held then Locked else rms w i k)"
    by (rule rm_rel_step [OF w1(4) w2(2)]) (auto simp: mem split: if_splits)
  have rdy: "ready w2 i k" if "k \<in> set held" for k
    using that w2(3,4) w1(3) w1(6) [of k] c(2) rm_rel_state(2) [OF w2(2)] by (cases "k = h") (auto simp: mem)
  have dist: "distinct held" by (simp add: held_def)
  obtain w3 where w3: "tell_all lc i (if all_empty w i then RMDIR_SUCCESS else RMDIR_FAIL) held w2 = Some w3"
     "rm_rel i w w3 (\<lambda>k. if k \<in> set held then if all_empty w i then Gone else Free else rms w i k)"
    by (rule commit_law [OF rel dist rdy, where lc = lc and action = "if all_empty w i then RMDIR_SUCCESS else RMDIR_FAIL"
          and st = "if all_empty w i then Gone else Free"]) (assumption, simp, rule that)
  have res: "rmdir_shared lc child w = Some (if all_empty w i then (True, OK)
      else (False, if fh then OK else NOT_EMPTY), w3)"
  proof (cases "all_empty w i")
    case True
    then show ?thesis using w1(3) w3(1) all rmdir_codes(3) assms(3)
      unfolding rmdir_shared_def i_def [symmetric] Let_def w1(1) bind.bind_lunit prod.case w2(1) [unfolded w1(2)] by (simp add: held_def)
  next
    case False
    then have c': "c < lc_count lc" using all c(2) by simp
    have ev: "rmdir_shared lc child w = do {
         w \<leftarrow> tell_all lc i RMDIR_FAIL [0..<c] w2;
         if int c < ino_server child then do {
           (retval, w) \<leftarrow> fosDoRmdir lc (ino_server child) i RMDIR_FAIL w;
           if retval = OK then Some ((False, retval), w) else None
         } else Some ((False, NOT_EMPTY), w)
       }"
      unfolding rmdir_shared_def i_def [symmetric] Let_def w1(1) bind.bind_lunit prod.case w2(1) [unfolded w1(2)]
      using False rmdir_codes(3,4) assms(3) by (simp cong: if_cong)
    show ?thesis
    proof (cases "c < h")
      case less: True
      then have "tell_all lc i RMDIR_FAIL ([0..<c] @ [h]) w2 = Some w3" using w3(1) False by (simp add: held_def)
      then obtain v where "tell_all lc i RMDIR_FAIL [0..<c] w2 = Some v" "fosDoRmdir lc (int h) i RMDIR_FAIL v = Some (OK, w3)"
        by (rule tell_last)
      then show ?thesis unfolding ev w1(2) [symmetric] using less False first [OF c'] by simp
    next
      case geq: False
      then have "tell_all lc i RMDIR_FAIL [0..<c] w2 = Some w3" using w3(1) False by (simp add: held_def)
      then show ?thesis unfolding ev w1(2) [symmetric] using geq False first [OF c'] by simp
    qed
  qed
  have "set held = {0..<lc_count lc}" if "all_empty w i"
    by (rule set_eqI) (use that all w1(3) in \<open>auto simp: mem\<close>)
  moreover have "rms w i k \<noteq> Full" if "k \<in> set held" for k using below [of k] home that unfolding mem by metis
  ultimately show thesis by (rule that [folded i_def h_def, folded fh_def, OF res w3(2)])
qed

text \<open>What the removal reports when it does not succeed.\<close>

definition rmdir_status :: "ClientConf \<Rightarrow> World \<Rightarrow> InodeType \<Rightarrow> int" where
  "rmdir_status lc w child =
     (if all_empty w (ino_id child) \<or> \<not> lc_rm_scatter_gather lc \<and> rms w (ino_id child) (nat (ino_server child)) \<noteq> Full
         \<and> (\<exists>k<nat (ino_server child). rms w (ino_id child) k = Full) then OK else NOT_EMPTY)"

lemma rmdir_shared_law:
  assumes "removable lc w child"
  obtains w' f where "rmdir_shared lc child w = Some ((all_empty w (ino_id child), rmdir_status lc w child), w')"
    "rm_rel (ino_id child) w w' f" "all_empty w (ino_id child) \<Longrightarrow> f = (\<lambda>_. Gone)"
    "\<not> all_empty w (ino_id child) \<Longrightarrow> \<forall>k<lc_count lc. f k = rms w (ino_id child) k \<or> rms w (ino_id child) k = Gone \<and> f k = Free"
proof -
  define i h where "i = ino_id child" and "h = nat (ino_server child)"
  have h: "int h = ino_server child" "h < lc_count lc" "length (wd_servers w) = lc_count lc"
    using assms by (auto simp: removable_def in_range_def h_def)
  have r: "ready w i k \<and> rms w i k \<noteq> Locked" if "k < lc_count lc" for k using assms that h(3) by (simp add: removable_def i_def)
  have free: "rms w i k = Free \<or> rms w i k = Gone" if "rms w i k \<noteq> Full" "k < lc_count lc" for k
    using that r [OF that(2)] by (cases "rms w i k") auto
  consider "rms w i h = Full" | "rms w i h \<noteq> Full" "lc_rm_scatter_gather lc" | "rms w i h \<noteq> Full" "\<not> lc_rm_scatter_gather lc" by blast
  then show thesis
  proof cases
    case 1
    then obtain w' where w': "rmdir_try lc (int h) i w = Some (NOT_EMPTY, w')" "rm_rel i w w' ((rms w i)(h := Full))"
      using r [OF h(2)] by (auto intro: do_try_law [of h w i lc])
    have "\<not> all_empty w i" using 1 h by (auto simp: all_empty_def)
    moreover have "rmdir_shared lc child w = Some ((False, NOT_EMPTY), w')"
      using w'(1) h(1) rmdir_codes(4) by (simp add: rmdir_shared_def i_def)
    ultimately show thesis using w'(2) 1 that [of w' "rms w i"] by (simp add: i_def h_def rmdir_status_def fun_upd_idem)
  next
    case 2
    obtain w' where w': "rmdir_shared lc child w = Some (if all_empty w i then (True, OK) else (False, NOT_EMPTY), w')"
      "rm_rel i w w' (\<lambda>k. if rms w i k = Full then Full else if all_empty w i then Gone else Free)"
      using rmdir_scatter_law [OF assms] 2 unfolding i_def h_def by blast
    show thesis
    proof (cases "all_empty w i")
      case True
      then have "rm_rel i w w' (\<lambda>_. Gone)" by (intro rm_rel_cong [OF w'(2)]) (simp add: all_empty_def)
      then show thesis using that [of w' "\<lambda>_. Gone"] w'(1) True 2 by (simp add: i_def h_def rmdir_status_def)
    next
      case False
      have rel: "rm_rel i w w' (\<lambda>k. if rms w i k = Full then Full else Free)"
        using False by (intro rm_rel_cong [OF w'(2)]) simp
      have "\<forall>k<lc_count lc. (if rms w i k = Full then Full else Free) = rms w i k
          \<or> rms w i k = Gone \<and> (if rms w i k = Full then Full else Free) = Free" using free by metis
      then show thesis using that [OF _ rel [unfolded i_def]] w'(1) 2 False unfolding i_def h_def by (simp add: rmdir_status_def)
    qed
  next
    case 3
    obtain w' held where w': "rmdir_shared lc child w = Some (if all_empty w i then (True, OK)
          else (False, if \<exists>k<h. rms w i k = Full then OK else NOT_EMPTY), w')"
      "rm_rel i w w' (\<lambda>k. if k \<in> held then if all_empty w i then Gone else Free else rms w i k)"
      "all_empty w i \<Longrightarrow> held = {0..<lc_count lc}" "\<And>k. k \<in> held \<Longrightarrow> rms w i k \<noteq> Full"
      by (rule rmdir_serial_law [OF assms 3 [unfolded i_def h_def], folded i_def h_def]) (rule that)
    show thesis
    proof (cases "all_empty w i")
      case True
      then have "rm_rel i w w' (\<lambda>_. Gone)" using w'(3) h(3) by (intro rm_rel_cong [OF w'(2)]) simp
      then show thesis using that [of w' "\<lambda>_. Gone"] w'(1) True 3 by (simp add: i_def h_def rmdir_status_def)
    next
      case False
      have rel: "rm_rel i w w' (\<lambda>k. if k \<in> held then Free else rms w i k)"
        using False by (intro rm_rel_cong [OF w'(2)]) simp
      have "\<forall>k<lc_count lc. (if k \<in> held then Free else rms w i k) = rms w i k
          \<or> rms w i k = Gone \<and> (if k \<in> held then Free else rms w i k) = Free" using free w'(4) by metis
      then show thesis using that [OF _ rel [unfolded i_def]] w'(1) 3 False unfolding i_def h_def by (simp add: rmdir_status_def)
    qed
  qed
qed

end
