(* ===== verification/Fs_Client_Rmdir.thy ===== *)
theory Fs_Client_Rmdir
  imports Fs_Rmdir_Phases
begin

text \<open>
  What \<^verbatim>\<open>fosRmdir\<close> does as a whole with a directory that all servers share.
\<close>

section \<open>The call of the application\<close>

lemma check_notifications_twice: "check_notifications (check_notifications w) = check_notifications w"
proof -
  let ?w = "check_notifications w"
  have none: "\<forall>fs\<in>set (wd_servers ?w). filter (\<lambda>(a, _). a = wd_chan ?w) (fs_sent fs) = []"
    by (auto simp: check_notifications_servers filter_empty_conv)
  have "fs\<lparr>fs_sent := filter (\<lambda>(a, _). a \<noteq> wd_chan ?w) (fs_sent fs)\<rparr> = fs" if "fs \<in> set (wd_servers ?w)" for fs
  proof -
    have "filter (\<lambda>(a, _). a \<noteq> wd_chan ?w) (fs_sent fs) = fs_sent fs"
      using none that by (auto simp: filter_id_conv filter_empty_conv)
    then show ?thesis by simp
  qed
  then have a: "map (\<lambda>fs. fs\<lparr>fs_sent := filter (\<lambda>(a, _). a \<noteq> wd_chan ?w) (fs_sent fs)\<rparr>) (wd_servers ?w) = wd_servers ?w"
    by (simp add: map_idI)
  have b: "concat (map (\<lambda>fs. map snd (filter (\<lambda>(a, _). a = wd_chan ?w) (fs_sent fs))) (wd_servers ?w)) = []"
    using none by simp
  show ?thesis unfolding check_notifications_def [of ?w] Let_def a b by simp
qed

lemma fosLookupParent_plain:
  assumes "dir_inode lc w p" "plain n"
  shows "fosLookupParent lc p n b w = Some ((OK, n, p, b), check_notifications w)"
proof -
  have "last_sep n = None" using plainD(3) [OF assms(2)] by (auto simp: last_sep_def Let_def dest: in_set_butlastD)
  moreover have "ino_type p = TYPE_DIR \<or> ino_type p = TYPE_DIR_SHARED" using assms(1) by (simp add: dir_inode_def)
  ultimately show ?thesis
    using plainD(3,5) [OF assms(2)] by (auto simp: fosLookupParent_def start_dir_plain Let_def)
qed

lemma steady_removable:
  assumes "steady w w'" "removable lc w child"
  shows "removable lc w' child" "\<And>k. k < lc_count lc \<Longrightarrow> rms w' i k = rms w i k"
proof -
  have n: "length (wd_servers w) = lc_count lc" using assms(2) by (simp add: removable_def)
  have same: "fs_files (wd_servers w' ! k) = fs_files (wd_servers w ! k) \<and> fs_core (wd_servers w' ! k) = fs_core (wd_servers w ! k)
      \<and> fs_present (wd_servers w' ! k) = fs_present (wd_servers w ! k) \<and> fs_room (wd_servers w' ! k) = fs_room (wd_servers w ! k)"
    if "k < lc_count lc" for k
    using assms(1) that n by (auto simp: steady_def in_range_def dest!: spec [of _ "int k"])
  show st: "rms w' i k = rms w i k" if "k < lc_count lc" for i k using same [OF that] by (simp add: rm_state_def)
  have "rm_ready (wd_servers w' ! k) i = rm_ready (wd_servers w ! k) i" if "k < lc_count lc" for i k
    using same [OF that] by (simp add: rm_ready_def fs_core_def has_fd_def split: option.split)
  moreover have "length (wd_servers w') = length (wd_servers w)" using assms(1) by (simp add: steady_def)
  ultimately show "removable lc w' child" using assms(2) st by (simp add: removable_def in_range_def)
qed

lemma rm_rel_other:
  assumes "rm_rel i w w' f" "in_range w s" "j \<noteq> i"
  shows "fs_present (srv w' s) j = fs_present (srv w s) j" "fs_entries (srv w' s) j = fs_entries (srv w s) j" "in_range w' s"
proof -
  have "fs_files (srv w' s) j = fs_files (srv w s) j" "length (wd_servers w') = length (wd_servers w)"
    using assms by (auto simp: rm_rel_def in_range_def)
  then show "fs_present (srv w' s) j = fs_present (srv w s) j" "fs_entries (srv w' s) j = fs_entries (srv w s) j" "in_range w' s"
    using assms(2) by (simp_all add: fs_present_def fs_entries_def [abs_def] fs_children_def in_range_def)
qed

lemma fosRmdir_shared:
  assumes dir: "dir_inode lc w p" and n: "plain n" and pres: "fs_present (srv w (owner lc p n)) (ino_id p)"
    and right: "cache_right lc (check_notifications w) p n"
    and c: "name_of lc w p n = Some child" "ino_type child = TYPE_DIR_SHARED"
  obtains w2 where "steady w w2" "fosRmdir lc p n w = do {
      ((removed, retval), w) \<leftarrow> rmdir_shared lc child w2;
      if \<not> removed then Some (retval, w)
      else do {
        (retval, w) \<leftarrow> fosRemoveMap lc (owner lc p n) p n w;
        Some (retval, if lc_cache lc \<and> retval = OK then DirCache_remove child ''..'' (DirCache_remove p n w) else w)
      }
    }"
proof -
  let ?w = "check_notifications w"
  have st: "steady w ?w" by (rule steady_check)
  have dir': "dir_inode lc ?w p" using dir by (simp add: steady_dir_inode [OF st])
  have u: "fs_usable (srv ?w (owner lc p n)) (ino_id p)"
    using pres srv_check(3) [OF owner_works(3) [OF dir]] by (simp add: fs_usable_def)
  have right': "cache_right lc (check_notifications ?w) p n" using right by (simp add: check_notifications_twice)
  have c': "name_of lc ?w p n = Some child" using c(1) by (simp add: steady_name_of [OF st dir])
  obtain b w2 where w2: "fosLookup lc p n False ?w = Some ((OK, child, b), w2)" "steady ?w w2"
    by (rule fosLookup_plain [OF dir' n u right', where b = False]) (use c' in simp)
  have "last n \<noteq> CHR ''/''" using plainD(3,5) [OF n] last_in_set by metis
  then have "fosRmdir lc p n w = do {
      ((removed, retval), w) \<leftarrow> rmdir_shared lc child w2;
      if \<not> removed then Some (retval, w)
      else do {
        (retval, w) \<leftarrow> fosRemoveMap lc (owner lc p n) p n w;
        Some (retval, if lc_cache lc \<and> retval = OK then DirCache_remove child ''..'' (DirCache_remove p n w) else w)
      }
    }"
    using plainD(5) [OF n] fosLookupParent_plain [OF dir n, of False] w2(1) c(2) owner_works(1) [OF dir, of n]
    by (simp add: fosRmdir_def Let_def)
  then show thesis using that steady_trans [OF st w2(2)] by blast
qed

lemma fosRmdir_law:
  assumes dir: "dir_inode lc w p" and n: "plain n" and pres: "fs_present (srv w (owner lc p n)) (ino_id p)"
    and right: "cache_right lc (check_notifications w) p n"
    and c: "name_of lc w p n = Some child" "ino_type child = TYPE_DIR_SHARED" "removable lc w child" "ino_id p \<noteq> ino_id child"
  obtains w' where "fosRmdir lc p n w = Some (rmdir_status lc w child, w')"
    "all_empty w (ino_id child) \<Longrightarrow> name_of lc w' p n = None \<and> (\<forall>k<lc_count lc. fs_files (wd_servers w' ! k) (ino_id child) = None)"
    "\<not> all_empty w (ino_id child) \<Longrightarrow> name_of lc w' p n = Some child
      \<and> (\<forall>k<lc_count lc. fs_entries (wd_servers w' ! k) (ino_id child) = fs_entries (wd_servers w ! k) (ino_id child)
           \<and> rms w' (ino_id child) k \<noteq> Locked)"
proof -
  let ?i = "ino_id child" and ?s = "owner lc p n"
  obtain w2 where w2: "steady w w2" "fosRmdir lc p n w = do {
      ((removed, retval), w) \<leftarrow> rmdir_shared lc child w2;
      if \<not> removed then Some (retval, w)
      else do {
        (retval, w) \<leftarrow> fosRemoveMap lc ?s p n w;
        Some (retval, if lc_cache lc \<and> retval = OK then DirCache_remove child ''..'' (DirCache_remove p n w) else w)
      }
    }" by (rule fosRmdir_shared [OF dir n pres right c(1,2)])
  note st = steady_removable [OF w2(1) c(3)]
  have len: "length (wd_servers w) = lc_count lc" "length (wd_servers w2) = lc_count lc"
    using c(3) st(1) by (simp_all add: removable_def)
  have home: "nat (ino_server child) < lc_count lc" using c(3) len by (simp add: removable_def in_range_def)
  have emp: "all_empty w2 ?i = all_empty w ?i" using st(2) by (simp add: all_empty_def len)
  have status: "rmdir_status lc w2 child = rmdir_status lc w child"
    using st(2) home by (auto simp: rmdir_status_def emp intro: less_trans)
  obtain w3 f where w3: "rmdir_shared lc child w2 = Some ((all_empty w ?i, rmdir_status lc w child), w3)"
    "rm_rel ?i w2 w3 f" "all_empty w ?i \<Longrightarrow> f = (\<lambda>_. Gone)"
    "\<not> all_empty w ?i \<Longrightarrow> \<forall>k<lc_count lc. f k = rms w2 ?i k \<or> rms w2 ?i k = Gone \<and> f k = Free"
    by (rule rmdir_shared_law [OF st(1), unfolded emp status]) (rule that)
  have rng: "in_range w ?s" "in_range w2 ?s" using owner_works(3) [OF dir] len by (auto simp: in_range_def)
  note o = rm_rel_other [OF w3(2) rng(2) c(4)]
  have n2: "name_of lc w2 p n = Some child" using steady_name_of [OF w2(1) dir] c(1) by simp
  show thesis
  proof (cases "all_empty w ?i")
    case True
    have pres3: "fs_present (srv w3 ?s) (ino_id p)" using o(1) pres w2(1) rng(1) by (simp add: steady_def)
    obtain w4 where w4: "fosRemoveMap lc ?s p n w3 = Some (OK, w4)"
      "changed w3 w4 ?s ((fs_entries (srv w3 ?s))(ino_id p := (fs_entries (srv w3 ?s) (ino_id p))(n := None))) (fs_present (srv w3 ?s))"
      using fosRemoveMap_law [OF o(3) pres3 plainD(1,2) [OF n], of lc] n2 o(2) by (auto simp: name_of_def)
    define w' where "w' = (if lc_cache lc then DirCache_remove child ''..'' (DirCache_remove p n w4) else w4)"
    have "wd_servers w' = wd_servers w4" by (simp add: w'_def DirCache_remove_def)
    moreover have "fosRmdir lc p n w = Some (rmdir_status lc w child, w')"
      using w2(2) w3(1) w4(1) True by (simp add: w'_def rmdir_status_def)
    moreover have "name_of lc w4 p n = None" using changedD(2) [OF w4(2) o(3) o(3)] by (simp add: name_of_def)
    moreover have "fs_files (wd_servers w4 ! k) ?i = None" if k: "k < lc_count lc" for k
    proof -
      have none: "fs_files (wd_servers w3 ! k) ?i = None"
        using rm_rel_state(1) [OF w3(2)] w3(3) [OF True] k len(2) by (simp add: rm_state_Gone [symmetric])
      have "fs_present (wd_servers w4 ! k) ?i = fs_present (wd_servers w3 ! k) ?i"
        "fs_usable (wd_servers w4 ! k) ?i = fs_usable (wd_servers w3 ! k) ?i"
        using w4(2) o(3) by (auto simp: changed_def in_range_def nth_list_update split: if_splits)
      then show ?thesis using none by (auto simp: fs_usable_def fs_present_def)
    qed
    ultimately show thesis using True by (intro that [of w']) (simp_all add: name_of_def)
  next
    case False
    then have r: "fosRmdir lc p n w = Some (rmdir_status lc w child, w3)" using w2(2) w3(1) by simp
    have "rms w3 ?i k \<noteq> Locked \<and> fs_entries (wd_servers w3 ! k) ?i = fs_entries (wd_servers w ! k) ?i" if k: "k < lc_count lc" for k
    proof -
      have "rms w3 ?i k = f k" using rm_rel_state(1) [OF w3(2)] k len(2) by simp
      moreover have "rms w2 ?i k \<noteq> Locked" using st(1) k by (simp add: removable_def)
      moreover have "fs_entries (wd_servers w2 ! k) ?i = fs_entries (wd_servers w ! k) ?i"
        using w2(1) k len(1) by (auto simp: steady_def in_range_def dest!: spec [of _ "int k"])
      moreover have "fs_entries (wd_servers w3 ! k) ?i = fs_entries (wd_servers w2 ! k) ?i" if "f k \<noteq> Gone"
        using w3(2) that k len(2) by (simp add: rm_rel_def)
      ultimately show ?thesis using w3(4) [OF False] k Gone_entries [of "wd_servers w3 ! k"] Gone_entries [of "wd_servers w2 ! k"]
        by (cases "f k = Gone") fastforce+
    qed
    moreover have "name_of lc w3 p n = Some child" using n2 o(2) by (simp add: name_of_def)
    ultimately show thesis using False r by (intro that [of w3]) simp_all
  qed
qed


text \<open>C28. Without scatter-gather, when a server before the home server of the directory refuses, the status of that
  server is overwritten by the status of unlocking the home server: the caller is told that the directory was removed,
  though it is still there with all its names.\<close>

theorem rmdir_false_success:
  assumes "dir_inode lc w p" "plain n" "fs_present (srv w (owner lc p n)) (ino_id p)"
    and "cache_right lc (check_notifications w) p n"
    and "name_of lc w p n = Some child" "ino_type child = TYPE_DIR_SHARED" "removable lc w child" "ino_id p \<noteq> ino_id child"
    and "\<not> lc_rm_scatter_gather lc" "rm_state (srv w (ino_server child)) (ino_id child) \<noteq> Full"
    and "k < nat (ino_server child)" "rm_state (wd_servers w ! k) (ino_id child) = Full"
  shows "\<exists>w'. fosRmdir lc p n w = Some (OK, w') \<and> name_of lc w' p n = Some child
     \<and> fs_entries (wd_servers w' ! k) (ino_id child) = fs_entries (wd_servers w ! k) (ino_id child)"
proof -
  have k: "k < lc_count lc" using assms(7,11) by (auto simp: removable_def in_range_def)
  then have full: "\<not> all_empty w (ino_id child)" using assms(7,12) by (auto simp: all_empty_def removable_def)
  have ok: "rmdir_status lc w child = OK" using assms(9-12) by (auto simp: rmdir_status_def)
  obtain w' where "fosRmdir lc p n w = Some (rmdir_status lc w child, w')"
    "\<not> all_empty w (ino_id child) \<Longrightarrow> name_of lc w' p n = Some child
      \<and> (\<forall>k<lc_count lc. fs_entries (wd_servers w' ! k) (ino_id child) = fs_entries (wd_servers w ! k) (ino_id child)
           \<and> rm_state (wd_servers w' ! k) (ino_id child) \<noteq> Locked)"
    by (rule fosRmdir_law [OF assms(1-8)]) (rule that)
  then show ?thesis using full k ok by auto
qed



section \<open>A small world\<close>

text \<open>The directory \<open>d\<close> of the root is shared, and its home is the second of two servers.  It is empty, or the first server
  has a name in it.\<close>

definition shared_ex :: InodeType where
  "shared_ex = \<lparr>ino_server = 1, ino_id = 50, ino_type = TYPE_DIR_SHARED\<rparr>"

definition rm_servers_ex :: "bool \<Rightarrow> FS list option" where
  "rm_servers_ex full = do {
     fs0 \<leftarrow> boot_ex;
     fs0 \<leftarrow> fs_calls conf_ex [(env_ex 5, Call_addmap 50 root_ex ''d'' shared_ex False)] fs0;
     fs0 \<leftarrow> (if full then fs_calls conf_ex [(env_ex 6, Call_addmap 50 \<lparr>ino_server = 0, ino_id = 50\<rparr> ''x'' (file_ex 2) False)] fs0 else Some fs0);
     fs1 \<leftarrow> FilesystemServer_new conf_ex (env_ex 1) 1 (\<lambda>_. 0) (\<lambda>_. 0) (\<lambda>_. 0);
     Some [fs0, fs1]
   }"

lemma rm_servers_ex_facts:
  obtains ss where "rm_servers_ex full = Some ss" "length ss = 2" "\<And>fs. fs \<in> set ss \<Longrightarrow> fs_sent fs = []"
    "fs_present (ss ! 0) 0" "fs_entries (ss ! 0) 0 ''d'' = Some shared_ex"
    "rm_ready (ss ! 0) 50" "rm_ready (ss ! 1) 50" "rm_state (ss ! 0) 50 = (if full then Full else Gone)" "rm_state (ss ! 1) 50 = Gone"
proof -
  have "\<exists>ss. rm_servers_ex full = Some ss \<and> length ss = 2 \<and> (\<forall>fs\<in>set ss. fs_sent fs = []) \<and> fs_present (ss ! 0) 0
      \<and> fs_entries (ss ! 0) 0 ''d'' = Some shared_ex \<and> rm_ready (ss ! 0) 50 \<and> rm_ready (ss ! 1) 50
      \<and> rm_state (ss ! 0) 50 = (if full then Full else Gone) \<and> rm_state (ss ! 1) 50 = Gone"
    by (cases full) (simp_all add: rm_servers_ex_def shared_ex_def world_ex_defs O_DIRECTORY_def Let_def appAddCache_def fs_present_def
        fs_entries_def fs_children_def has_fd_def File_new_def rm_ready_def rm_state_def fs_room_def child_find_def)
  then show thesis using that by blast
qed

lemma rm_ex:
  obtains ss where "rm_servers_ex full = Some ss" "dir_inode lc_ex (world_ex ss []) dir_root_ex"
    "fs_present (srv (world_ex ss []) (owner lc_ex dir_root_ex ''d'')) (ino_id dir_root_ex)"
    "cache_right lc_ex (check_notifications (world_ex ss [])) dir_root_ex ''d''"
    "name_of lc_ex (world_ex ss []) dir_root_ex ''d'' = Some shared_ex" "removable lc_ex (world_ex ss []) shared_ex"
    "rms (world_ex ss []) 50 0 = (if full then Full else Gone)" "rms (world_ex ss []) 50 1 = Gone" "length (wd_servers (world_ex ss [])) = 2"
proof -
  obtain ss where ss: "rm_servers_ex full = Some ss" "length ss = 2" "\<And>fs. fs \<in> set ss \<Longrightarrow> fs_sent fs = []"
    "fs_present (ss ! 0) 0" "fs_entries (ss ! 0) 0 ''d'' = Some shared_ex"
    "rm_ready (ss ! 0) 50" "rm_ready (ss ! 1) 50" "rm_state (ss ! 0) 50 = (if full then Full else Gone)" "rm_state (ss ! 1) 50 = Gone"
    by (rule rm_servers_ex_facts) (rule that)
  note f = world_ex_facts [OF ss(2) ss(3)]
  have own: "owner lc_ex dir_root_ex ''d'' = 0" "name_of lc_ex (world_ex ss []) dir_root_ex ''d'' = Some shared_ex"
    by (simp_all add: f(3,4) ss(5))
  have k: "(k::nat) < 2 \<longleftrightarrow> k = 0 \<or> k = 1" for k by auto
  have sel: "wd_servers (world_ex ss []) = ss" "lc_count lc_ex = 2" by (simp_all add: world_ex_def lc_ex_def conf_ex_def)
  show thesis
  proof (rule that [OF ss(1) f(1)])
    show "removable lc_ex (world_ex ss []) shared_ex"
      using ss(2,6-9) by (auto simp: removable_def sel in_range_def shared_ex_def k)
    show "cache_right lc_ex (check_notifications (world_ex ss [])) dir_root_ex ''d''"
      by (simp add: f(2) cache_right_ex)
  qed (use ss own in \<open>simp_all add: sel\<close>)
qed

lemma shared_ex_sel [simp]: "ino_type shared_ex = TYPE_DIR_SHARED" "ino_id shared_ex = 50" "ino_server shared_ex = 1"
  by (simp_all add: shared_ex_def)

lemma plain_d: "plain ''d''"
  by (simp add: plain_def name_ok_def c_ok_def)


theorem rmdir_false_success_witness:
  "\<exists>ss w'. rm_servers_ex True = Some ss \<and> fosRmdir lc_ex dir_root_ex ''d'' (world_ex ss []) = Some (OK, w')
     \<and> name_of lc_ex w' dir_root_ex ''d'' = Some shared_ex"
proof -
  obtain ss where ss: "rm_servers_ex True = Some ss" "dir_inode lc_ex (world_ex ss []) dir_root_ex"
    "fs_present (srv (world_ex ss []) (owner lc_ex dir_root_ex ''d'')) (ino_id dir_root_ex)"
    "cache_right lc_ex (check_notifications (world_ex ss [])) dir_root_ex ''d''"
    "name_of lc_ex (world_ex ss []) dir_root_ex ''d'' = Some shared_ex" "removable lc_ex (world_ex ss []) shared_ex"
    "rms (world_ex ss []) 50 0 = (if True then Full else Gone)" "rms (world_ex ss []) 50 1 = Gone" "length (wd_servers (world_ex ss [])) = 2"
    by (rule rm_ex [of True]) (rule that)
  have "\<not> lc_rm_scatter_gather lc_ex" by (simp add: lc_ex_def)
  then show ?thesis
    using rmdir_false_success [OF ss(2) plain_d ss(3-5) _ ss(6), of 0] ss(1,7,8) by auto
qed


end
