(* ===== verification/Spec2Isabelle.thy ===== *)
theory Spec2Isabelle
  imports Dispatch Fd_Table Time_Arith Name_Server Core_Server Channel_Fifo Inet_Chksum Fs_Dispatch Fs_Listing Fs_Client_Rmdir
begin

text \<open>
  \<^bold>\<open>Verification of faux, a multikernel operating-system layer.\<close>

  faux runs a file system, a name service and a core allocator as server processes on a machine whose cores share
  memory without relying on coherent kernel data structures.  A process is linked with libraries that turn its system
  calls into messages.  Messages travel over channels, rings in memory that two processes map; the file system spreads
  the entries of its directories over several servers, and its clients read and write file blocks directly in a buffer
  memory that all of them share.  This development models the parts of faux that carry this design and proves what they
  promise to each other.  All paths below are relative to \<open>src/\<close>.

  \<^bold>\<open>The parts and how they use each other.\<close>

  \<^item> \<open>common/include\<close>: fixed-capacity containers, used by the dispatcher and the channels.
  \<^item> \<open>libs/utilities\<close>: bit arrays, the allocator of numbers over them, time arithmetic.
  \<^item> \<open>libs/fd\<close>: the descriptor table of a process; it takes descriptor numbers from the allocator.
  \<^item> \<open>messaging\<close>: channels, the dispatcher and user threads.
  \<^item> \<open>name\<close>, \<open>coreserv\<close>: the name server and the core server with their client libraries.
  \<^item> \<open>sys/fs\<close>: the file-system server: buffer cache, objects, methods, message handlers; \<open>sys/fs/lib\<close>: its client
    library, which calls the servers and keeps a cache of directory entries.
  \<^item> \<open>lwip\<close>: the TCP/IP stack of the network servers.

  \<^bold>\<open>How code is modelled.\<close>  One record or datatype per structure, one definition per function, with the name of the
  source where HOL leaves it free.  State is passed explicitly: a function takes the record of the object it works on and
  returns it updated.  \<^term>\<open>None\<close> is the end of the process: a failed \<^verbatim>\<open>assert\<close>, an index outside an array, a null
  or dangling pointer, a wrong cast; a status code or an early return is a value.  Integers that only count are
  natural numbers with the wrap-around of \<^verbatim>\<open>size_t\<close> or \<^verbatim>\<open>int\<close> written out where it can be met; those whose bits
  matter are machine words.  Constants of the build (\<open>Config.in\<close>) and what an operation takes from outside, the clocks, the
  cycle counter, fresh addresses and the results of \<^verbatim>\<open>malloc\<close>, are arguments.  Every operation is executable, and each
  property with hypotheses is followed by an instance on a concrete system.

  \<^bold>\<open>The theories.\<close>

  \<^item> \<open>Faux_Prelude\<close>: machine types, status codes, shared lemmas, and three interfaces with the lemmas of their users:
    \<open>bounded_fifo\<close> (a queue with a capacity), \<open>object_pool\<close>, \<open>small_map\<close>.
  \<^item> \<open>Containers\<close>: \<^verbatim>\<open>CircularQueue\<close>, \<^verbatim>\<open>Map\<close>, \<^verbatim>\<open>Pool\<close>.  They satisfy the first three interfaces below their
    capacity; a full \<^verbatim>\<open>Map\<close> does not find its front entry.
  \<^item> \<open>Space_Alloc\<close>, \<open>Fd_Table\<close>, \<open>Time_Arith\<close>: numbers are given lowest first, up to the 32 that the search sees; the
    table of descriptors counts the references to its entries exactly; time differences are exact.
  \<^item> \<open>Channel\<close> (model), \<open>Channel_Ring\<close> (layout of the ring and its invariant \<open>chan_inv\<close>), \<open>Channel_Fifo\<close>: every
    interleaving of the operations of sender and receiver delivers the messages in order and byte for byte, as
    \<open>message_queue\<close> asks, as long as the messages do not fill the ring exactly; in that state the next one overwrites the
    oldest.  The loop of the collector is a partial function, and that it returns is part of the theorems.
  \<^item> \<open>Dispatch\<close>: the dispatcher over the containers and the channels, with what its polls find as an argument: a client with
    several requests outstanding gets for each its own response, in whatever order they arrive and are asked for; and two
    ways in which a response or a request goes astray.
  \<^item> \<open>Name_Server\<close>, \<open>Core_Server\<close>: look-ups visit the endpoints of a name in turn, in the order of \<open>name_service\<close>; a core is held by one process at a
    time in every reachable state of the core server.
  \<^item> \<open>Fs_File\<close>: the buffer cache, which satisfies \<open>block_store\<close>, and files over its blocks: a file is an array of bytes, whatever the
    blocks, and gives back exactly the blocks it took.
  \<^item> \<open>Fs_Types\<close>, \<open>Fs_Server\<close>, \<open>Fs_Marshall\<close>: inodes and objects, all methods of \<^verbatim>\<open>FilesystemServer\<close>, all message handlers.
    \<open>Fs_Server_Inv\<close> proves the invariant \<open>fs_inv\<close> of a server for every method, \<open>Fs_Dispatch\<close> for every message and
    every run of a server whose clients write to the shared memory at will.
  \<^item> \<open>Fs_Server_Props\<close>: reading back what was written, deletion of open files, notification of caches, the two
    phases of removing a directory; and three cases in which the code does not do what is meant.
  \<^item> \<open>Fs_Dirs\<close>: the interface \<open>directory_service\<close>: a server's directories are finite maps from names to inodes under
    resolving, adding and removing a name.  The server's methods satisfy it.
  \<^item> \<open>Fs_Client\<close>, \<open>Fs_Client_Io\<close>: the client library over a \<open>World\<close> of servers: remote calls, directory cache, paths,
    open files, directories and pipes.  \<open>Fs_Client_Dirs\<close> lifts \<open>directory_service\<close> to remote calls and shows what
    \<^verbatim>\<open>fosRename\<close> does; \<open>Fs_Rmdir_Phases\<close> shows that the servers implement a machine of four states per directory and
    follows the client's protocol over it, and \<open>Fs_Client_Rmdir\<close> what \<^verbatim>\<open>fosRmdir\<close> does as a whole; \<open>Fs_Listing\<close> shows
    that reading a directory over all servers ends and gives each name once.
  \<^item> \<open>Inet_Chksum\<close>: the three versions of the Internet checksum compute one sum, over buffers cut anywhere.

  \<^bold>\<open>Bounds and fuel.\<close>  Loops that consume a list or a counter are plain recursion.  The collector of a channel and the
  loop that asks for the lock of a directory may run forever in the code and are partial functions; the first is shown to
  return, for the second the states in which it does are characterised.  The core server's search runs with one unit of
  fuel per group, which is the number of rounds after which the code is back at its first group.  The application that
  lists a directory gets fuel for its calls, and one more than there are names is shown to be enough.  The loops of the dispatcher
  run over the list of what their polls find, and that a wait ends is shown when the response is in it.  The size of the
  buffer memory is below \<open>2 ^ 31\<close>, as the code computes its partition as \<^verbatim>\<open>int\<close>.

  \<^bold>\<open>Concurrency.\<close>  The operations of the two ends of a channel, the requests to a server, and the calls of a client are
  atomic steps.  This is how the servers run: a server handles one message at a time, and the only steps that
  interleave inside one are the two ends of a channel, whose properties are stated for every interleaving of their operations.  Between
  the requests of one client a server may serve others, which the properties of runs (\<open>Fs_Server_Inv\<close>, \<open>Fs_Dispatch\<close>)
  cover; the properties of composed client operations hold while no other client works on the same directories.

  \<^bold>\<open>Not modelled.\<close>  User threads (context switches between stacks) and with them the paths of the dispatcher on which a thread sleeps; the
  start of the servers and of processes (\<^verbatim>\<open>fork\<close>, \<^verbatim>\<open>exec\<close>, signals) and the scheduler server, which consists of it; memory
  mapping and the socket handshake of channel set-up; the interposition of system calls; the network servers, whose
  behaviour is that of callbacks from lwIP, and of lwIP all but checksums and byte order; the link layer and the kernel
  drivers; the kconfig tool; logging and debugging counters; \<^verbatim>\<open>Pipe::read\<close> of the client, which is decided by signals;
  tests, benchmarks and scripts.
\<close>

end
